(* ===== verification/Prelude.thy ===== *)
theory Prelude
  imports
    "HOL-Library.Word"
    "HOL-Library.List_Lexorder"
    "HOL-Library.Char_ord"
    "HOL-Library.Multiset"
    "HOL-Library.Sublist"
begin

text \<open>
  Shared vocabulary of the development: the types of bytes, the errors the Go code returns,
  64-bit integers with their wrap-around, the state-and-error monad in which database
  operations are written, the pull-stream protocol of the query layer (a closure that
  returns an element, \<open>SKIP\<close>, \<open>io.EOF\<close> or an error), and the generic lemmas on lists,
  options and sorting that the component theories use.
\<close>

named_theorems dbm_simps \<open>unfolding of the database monad\<close>
named_theorems row_simps \<open>field access on table rows\<close>
named_theorems frame_simps \<open>tables an operation does not touch\<close>

section \<open>Bytes and machine integers\<close>

text \<open>
  A byte is a \<^typ>\<open>char\<close> (HOL's characters are exactly the eight-bit values), so Go's
  conversions between \<^verbatim>\<open>string\<close> and \<^verbatim>\<open>[]byte\<close> are the identity.
\<close>

type_synonym byte = char
type_synonym bytes = "byte list"

definition int64_min :: int where
  "int64_min = - (2 ^ 63)"

definition int64_max :: int where
  "int64_max = 2 ^ 63 - 1"

definition is_int64 :: "int \<Rightarrow> bool" where
  "is_int64 x \<longleftrightarrow> int64_min \<le> x \<and> x \<le> int64_max"

definition wrap64 :: "int \<Rightarrow> int" where
  "wrap64 x = (x + 2 ^ 63) mod 2 ^ 64 - 2 ^ 63"

lemma wrap64_id: "is_int64 x \<Longrightarrow> wrap64 x = x"
  by (simp add: wrap64_def is_int64_def int64_min_def int64_max_def)

lemma wrap64_is_int64: "is_int64 (wrap64 x)"
proof -
  have "0 \<le> (x + 2 ^ 63) mod 2 ^ 64" and "(x + 2 ^ 63) mod 2 ^ 64 < (2 ^ 64 :: int)"
    by simp_all
  then show ?thesis
    by (simp add: wrap64_def is_int64_def int64_min_def int64_max_def)
qed

section \<open>Errors\<close>

datatype dberr =
    ErrNotFound | ErrUnique | ErrNotNull | ErrProjectExists | ErrPackMismatch
  | ErrNumericRange | ErrNegativeLimit | ErrTarHeader | ErrTarRead | ErrDecode
  | ErrEmptyPack | ErrCachedHash | ErrSend | ErrPanic | ErrStuck

section \<open>The state-and-error monad\<close>

text \<open>
  An operation takes the state and returns the new state together with either an error or
  a value. The state is returned on the error path as well, because some statements run on
  the connection outside the handler's transaction and survive its rollback.
\<close>

type_synonym ('s, 'e, 'a) sem = "'s \<Rightarrow> 's \<times> ('e + 'a)"
type_synonym ('s, 'a) dbm = "('s, dberr, 'a) sem"

definition ret :: "'a \<Rightarrow> ('s, 'e, 'a) sem" where
  "ret a s = (s, Inr a)"

definition fail :: "'e \<Rightarrow> ('s, 'e, 'a) sem" where
  "fail e s = (s, Inl e)"

definition andThen :: "('s, 'e, 'a) sem \<Rightarrow> ('a \<Rightarrow> ('s, 'e, 'b) sem) \<Rightarrow> ('s, 'e, 'b) sem" where
  "andThen m f s = (case m s of (s', Inl e) \<Rightarrow> (s', Inl e) | (s', Inr a) \<Rightarrow> f a s')"

lemma ret_simp [simp, dbm_simps]: "ret a s = (s, Inr a)"
  by (simp add: ret_def)

lemma fail_simp [simp, dbm_simps]: "fail e s = (s, Inl e)"
  by (simp add: fail_def)

lemma andThen_Inl [dbm_simps]: "m s = (s', Inl e) \<Longrightarrow> andThen m f s = (s', Inl e)"
  by (simp add: andThen_def)

lemma andThen_Inr [dbm_simps]: "m s = (s', Inr a) \<Longrightarrow> andThen m f s = f a s'"
  by (simp add: andThen_def)

lemma andThen_Inr_iff:
  "andThen m f s = (t, Inr b) \<longleftrightarrow> (\<exists>s' a. m s = (s', Inr a) \<and> f a s' = (t, Inr b))"
  by (auto simp: andThen_def split: prod.splits sum.splits)

lemma andThen_InrE:
  assumes "andThen m f s = (t, Inr b)"
  obtains s' a where "m s = (s', Inr a)" and "f a s' = (t, Inr b)"
  using assms by (auto simp: andThen_Inr_iff)

text \<open>A loop over a slice that stops at the first error.\<close>

fun foldM :: "('x \<Rightarrow> 'a \<Rightarrow> ('s, 'e, 'a) sem) \<Rightarrow> 'x list \<Rightarrow> 'a \<Rightarrow> ('s, 'e, 'a) sem" where
  "foldM f [] a = ret a"
| "foldM f (x # xs) a = andThen (f x a) (foldM f xs)"

section \<open>Pull streams\<close>

text \<open>
  The query layer hands its callers a closure (\<^verbatim>\<open>type ObjectStream func() (*pb.Object, error)\<close>)
  whose error result is \<open>SKIP\<close> (try again), \<open>io.EOF\<close> (finished) or a failure. The closure's
  captured variables are the stream's state.
\<close>

datatype 'a pull = Yield 'a | SKIP | EOF | Fail dberr

text \<open>
  The caller's loop: \<^verbatim>\<open>for { x, err := s(); if err == SKIP {continue}; if err == io.EOF {break};
  if err != nil {return err}; use x }\<close>, where using \<open>x\<close> may itself fail. The first argument is
  fuel; running out is \<open>None\<close>.
\<close>

fun each :: "nat \<Rightarrow> ('s \<Rightarrow> 's \<times> 'a pull) \<Rightarrow> ('a \<Rightarrow> 'b \<Rightarrow> dberr + 'b) \<Rightarrow> 's \<Rightarrow> 'b \<Rightarrow> (dberr + 'b) option" where
  "each 0 step body s acc = None"
| "each (Suc n) step body s acc =
     (case step s of
        (s', Yield x) \<Rightarrow> (case body x acc of
             Inl e \<Rightarrow> Some (Inl e)
           | Inr acc' \<Rightarrow> each n step body s' acc')
      | (s', SKIP) \<Rightarrow> each n step body s' acc
      | (s', EOF) \<Rightarrow> Some (Inr acc)
      | (s', Fail e) \<Rightarrow> Some (Inl e))"

lemma each_code [code]:
  "each 0 step body s acc = None"
  "each (Suc n) step body s acc =
     (case snd (step s) of
        Yield x \<Rightarrow> (case body x acc of Inl e \<Rightarrow> Some (Inl e) | Inr acc' \<Rightarrow> each n step body (fst (step s)) acc')
      | SKIP \<Rightarrow> each n step body (fst (step s)) acc
      | EOF \<Rightarrow> Some (Inr acc)
      | Fail e \<Rightarrow> Some (Inl e))"
  by (simp, cases "step s") (auto split: pull.splits sum.splits)

text \<open>The same loop without fuel; \<open>None\<close> means that it never ends.\<close>

partial_function (option) loop ::
    "('s \<Rightarrow> 's \<times> 'a pull) \<Rightarrow> ('a \<Rightarrow> 'b \<Rightarrow> dberr + 'b) \<Rightarrow> 's \<Rightarrow> 'b \<Rightarrow> (dberr + 'b) option" where
  "loop step body s acc =
     (case step s of (s', r) \<Rightarrow>
        (case r of
           Yield x \<Rightarrow> (case body x acc of Inl e \<Rightarrow> Some (Inl e) | Inr acc' \<Rightarrow> loop step body s' acc')
         | SKIP \<Rightarrow> loop step body s' acc
         | EOF \<Rightarrow> Some (Inr acc)
         | Fail e \<Rightarrow> Some (Inl e)))"

lemma each_loop: "each n step body s acc = Some r \<Longrightarrow> loop step body s acc = Some r"
proof (induction n arbitrary: s acc)
  case (Suc n)
  then show ?case
    by (subst loop.simps) (auto split: prod.splits pull.splits sum.splits)
qed simp

text \<open>To evaluate the loop, run it with some fuel first.\<close>

definition loop_rest ::
    "('s \<Rightarrow> 's \<times> 'a pull) \<Rightarrow> ('a \<Rightarrow> 'b \<Rightarrow> dberr + 'b) \<Rightarrow> 's \<Rightarrow> 'b \<Rightarrow> (dberr + 'b) option" where
  [code del]: "loop_rest = loop"

lemma loop_code [code]:
  "loop step body s acc =
     (case each 64 step body s acc of Some r \<Rightarrow> Some r | None \<Rightarrow> loop_rest step body s acc)"
  by (simp add: loop_rest_def each_loop split: option.splits)

text \<open>A stream that moves down a well-founded order ends whatever it delivers.\<close>

lemma loop_terminates:
  assumes "wf R" and "\<And>s s' r. step s = (s', r) \<Longrightarrow> (s', s) \<in> R \<or> r = EOF \<or> (\<exists>e. r = Fail e)"
  shows "\<exists>r. loop step body s acc = Some r"
  using assms(1)
proof (induction s arbitrary: acc rule: wf_induct_rule)
  case (less s)
  obtain s' r where st: "step s = (s', r)" by (cases "step s")
  note cases = assms(2)[OF st]
  show ?case
  proof (cases "r = EOF \<or> (\<exists>e. r = Fail e)")
    case True
    then show ?thesis using st by (subst loop.simps) auto
  next
    case False
    with cases have "(s', s) \<in> R" by blast
    from less[OF this] have "\<exists>r. loop step body s' a = Some r" for a by blast
    with False st show ?thesis by (subst loop.simps) (auto split: pull.splits sum.splits)
  qed
qed

text \<open>What the loop computes, as a fold over the elements the stream delivers before it ends.\<close>

fun foldE :: "('a \<Rightarrow> 'b \<Rightarrow> dberr + 'b) \<Rightarrow> 'a list \<Rightarrow> 'b \<Rightarrow> dberr + 'b" where
  "foldE body [] acc = Inr acc"
| "foldE body (x # xs) acc = (case body x acc of Inl e \<Rightarrow> Inl e | Inr acc' \<Rightarrow> foldE body xs acc')"

definition consume :: "('a \<Rightarrow> 'b \<Rightarrow> dberr + 'b) \<Rightarrow> 'a list \<times> dberr option \<Rightarrow> 'b \<Rightarrow> dberr + 'b" where
  "consume body t acc =
     (case foldE body (fst t) acc of
        Inl e \<Rightarrow> Inl e
      | Inr acc' \<Rightarrow> (case snd t of None \<Rightarrow> Inr acc' | Some e \<Rightarrow> Inl e))"

text \<open>
  The contract of such a stream: an invariant, the elements still to come together with the
  failure that ends it (if any), and a measure that every call but the last decreases. Under
  it the caller's loop returns, and returns the fold over exactly those elements.
\<close>

locale pull_stream =
  fixes step :: "'s \<Rightarrow> 's \<times> 'a pull"
    and inv :: "'s \<Rightarrow> bool"
    and todo :: "'s \<Rightarrow> 'a list \<times> dberr option"
    and left :: "'s \<Rightarrow> nat"
  assumes yield: "inv s \<Longrightarrow> step s = (s', Yield x) \<Longrightarrow>
      inv s' \<and> todo s = (x # fst (todo s'), snd (todo s')) \<and> left s' < left s"
    and skip: "inv s \<Longrightarrow> step s = (s', SKIP) \<Longrightarrow> inv s' \<and> todo s = todo s' \<and> left s' < left s"
    and eof: "inv s \<Longrightarrow> step s = (s', EOF) \<Longrightarrow> todo s = ([], None)"
    and failure: "inv s \<Longrightarrow> step s = (s', Fail e) \<Longrightarrow> todo s = ([], Some e)"
begin

lemma each_consume: "inv s \<Longrightarrow> left s < n \<Longrightarrow> each n step body s acc = Some (consume body (todo s) acc)"
proof (induction n arbitrary: s acc)
  case 0
  then show ?case by simp
next
  case (Suc n)
  obtain s' r where st: "step s = (s', r)" by (cases "step s")
  show ?case
  proof (cases r)
    case (Yield x)
    with st yield[OF Suc.prems(1)]
    have *: "inv s'" "todo s = (x # fst (todo s'), snd (todo s'))" "left s' < left s" by auto
    with Suc.prems Suc.IH[of s'] have "each n step body s' a = Some (consume body (todo s') a)" for a
      by simp
    with st Yield * show ?thesis by (simp add: consume_def split: sum.splits)
  next
    case SKIP
    with st skip[OF Suc.prems(1)] have *: "inv s'" "todo s = todo s'" "left s' < left s"
      by auto
    with Suc.prems Suc.IH[of s'] have "each n step body s' acc = Some (consume body (todo s') acc)"
      by simp
    with st SKIP * show ?thesis by simp
  next
    case EOF
    with st eof[OF Suc.prems(1)] show ?thesis by (simp add: consume_def)
  next
    case (Fail e)
    with st failure[OF Suc.prems(1)] show ?thesis by (simp add: consume_def)
  qed
qed

corollary loop_consume: "inv s \<Longrightarrow> loop step body s acc = Some (consume body (todo s) acc)"
  by (rule each_loop[OF each_consume[of s "Suc (left s)"]]) simp_all

end

text \<open>The contract read off one case analysis of a step.\<close>

lemma pull_streamI:
  assumes "\<And>s. J s \<Longrightarrow> (case step s of
      (s', Yield x) \<Rightarrow> J s' \<and> todo s = (x # fst (todo s'), snd (todo s')) \<and> left s' < (left s :: nat)
    | (s', SKIP) \<Rightarrow> J s' \<and> todo s = todo s' \<and> left s' < left s
    | (s', EOF) \<Rightarrow> todo s = ([], None)
    | (s', Fail e) \<Rightarrow> todo s = ([], Some e))"
  shows "pull_stream step J todo left"
proof
  fix s s' x e
  assume "J s"
  note A = assms[OF this]
  show "step s = (s', Yield x) \<Longrightarrow> J s' \<and> todo s = (x # fst (todo s'), snd (todo s')) \<and> left s' < left s"
    and "step s = (s', SKIP) \<Longrightarrow> J s' \<and> todo s = todo s' \<and> left s' < left s"
    and "step s = (s', EOF) \<Longrightarrow> todo s = ([], None)"
    and "step s = (s', Fail e) \<Longrightarrow> todo s = ([], Some e)"
    using A by simp_all
qed

text \<open>Two bodies the callers use: append the element to a list, count it.\<close>

lemma foldE_append: "foldE (\<lambda>x acc. Inr (acc @ [f x])) xs acc = Inr (acc @ map f xs)"
  by (induction xs arbitrary: acc) auto

lemma foldE_append_filter:
  "foldE (\<lambda>x acc. Inr (if P x then acc @ [f x] else acc)) xs acc = Inr (acc @ map f (filter P xs))"
  by (induction xs arbitrary: acc) auto

lemma foldE_Inr: "(\<And>x acc. x \<in> set xs \<Longrightarrow> body x acc = Inr (g x acc)) \<Longrightarrow> foldE body xs acc = Inr (fold g xs acc)"
  by (induction xs arbitrary: acc) auto

section \<open>Lists and sorting\<close>

lemma find_None_filter: "find P xs = None \<longleftrightarrow> filter P xs = []"
  by (induction xs) auto

lemma findSomeD: "find P xs = Some x \<Longrightarrow> x \<in> set xs \<and> P x"
  by (induction xs) (auto split: if_splits)

lemma find_append_case: "find P (xs @ ys) = (case find P xs of None \<Rightarrow> find P ys | Some x \<Rightarrow> Some x)"
  by (induction xs) auto

lemma set_sort_key [simp]: "set (sort_key f xs) = set xs"
  by simp

lemma filter_map_if: "filter P (map (\<lambda>x. if Q x then f x else x) xs) =
    map (\<lambda>x. if Q x then f x else x) (filter (\<lambda>x. P (if Q x then f x else x)) xs)"
  by (induction xs) auto

lemma distinct_map_inj_on_set:
  "distinct (map f xs) \<Longrightarrow> x \<in> set xs \<Longrightarrow> y \<in> set xs \<Longrightarrow> f x = f y \<Longrightarrow> x = y"
  by (meson distinct_map inj_onD)

lemma take_sorted_least:
  fixes f :: "'a \<Rightarrow> int"
  assumes "x \<in> set (take n (sort_key f xs))" and "y \<in> set (sort_key f xs)" and "y \<notin> set (take n (sort_key f xs))"
  shows "f x \<le> f y"
proof -
  have "sorted (map f (take n (sort_key f xs)) @ map f (drop n (sort_key f xs)))"
    by (metis append_take_drop_id map_append sorted_sort_key)
  moreover have "y \<in> set (drop n (sort_key f xs))" using assms(2,3) by (metis Un_iff append_take_drop_id set_append)
  ultimately show ?thesis using assms(1) by (auto simp: sorted_append)
qed

end
