(* ===== verification/GoStrings.thy ===== *)
theory GoStrings
  imports Prelude
begin

text \<open>
  The parts of Go's \<^verbatim>\<open>strings\<close> and \<^verbatim>\<open>strconv\<close> packages the program uses, on strings as
  lists of bytes (characters): prefix and suffix tests, \<open>Split\<close> on a one-byte separator,
  \<open>Join\<close>, \<open>TrimPrefix\<close>, \<open>TrimSpace\<close> (its ASCII white space), and decimal \<open>FormatInt\<close> and \<open>ParseInt\<close> on
  64-bit integers. The lemmas are the round trips the components rely on.
\<close>

section \<open>Definitions\<close>

definition HasPrefix :: "string \<Rightarrow> string \<Rightarrow> bool" where
  "HasPrefix s p \<longleftrightarrow> take (length p) s = p"

definition HasSuffix :: "string \<Rightarrow> string \<Rightarrow> bool" where
  "HasSuffix s p \<longleftrightarrow> length p \<le> length s \<and> drop (length s - length p) s = p"

definition TrimPrefix :: "string \<Rightarrow> string \<Rightarrow> string" where
  "TrimPrefix s p = (if HasPrefix s p then drop (length p) s else s)"

fun Split :: "string \<Rightarrow> char \<Rightarrow> string list" where
  "Split [] c = [[]]"
| "Split (x # xs) c =
     (if x = c then [] # Split xs c
      else (case Split xs c of [] \<Rightarrow> [[x]] | y # ys \<Rightarrow> (x # y) # ys))"

fun Join :: "string list \<Rightarrow> string \<Rightarrow> string" where
  "Join [] sep = []"
| "Join [x] sep = x"
| "Join (x # y # ys) sep = x @ sep @ Join (y # ys) sep"

definition is_space :: "char \<Rightarrow> bool" where
  "is_space c \<longleftrightarrow> c \<in> {CHR '' '', CHR 0x09, CHR 0x0A, CHR 0x0B, CHR 0x0C, CHR 0x0D}"

definition TrimSpace :: "string \<Rightarrow> string" where
  "TrimSpace s = rev (dropWhile is_space (rev (dropWhile is_space s)))"

definition digit_char :: "nat \<Rightarrow> char" where
  "digit_char d = char_of (48 + d)"

definition char_digit :: "char \<Rightarrow> nat option" where
  "char_digit c = (let n = of_char c :: nat in if 48 \<le> n \<and> n \<le> 57 then Some (n - 48) else None)"

fun nat_digits :: "nat \<Rightarrow> string" where
  "nat_digits n = (if n < 10 then [digit_char n] else nat_digits (n div 10) @ [digit_char (n mod 10)])"

declare nat_digits.simps [simp del]

fun digits_nat :: "nat \<Rightarrow> string \<Rightarrow> nat option" where
  "digits_nat acc [] = Some acc"
| "digits_nat acc (c # cs) =
     (case char_digit c of None \<Rightarrow> None | Some d \<Rightarrow> digits_nat (10 * acc + d) cs)"

definition FormatInt :: "int \<Rightarrow> string" where
  "FormatInt n = (if n < 0 then CHR ''-'' # nat_digits (nat (- n)) else nat_digits (nat n))"

definition parse_magnitude :: "string \<Rightarrow> nat option" where
  "parse_magnitude s = (if s = [] then None else digits_nat 0 s)"

definition in_int64 :: "int \<Rightarrow> int option" where
  "in_int64 x = (if is_int64 x then Some x else None)"

text \<open>\<open>ParseInt s 10 64\<close>; both the syntax and the range error are \<open>None\<close>.\<close>

definition ParseInt :: "string \<Rightarrow> int option" where
  "ParseInt s =
     (case s of
        [] \<Rightarrow> None
      | c # cs \<Rightarrow>
          if c = CHR ''-'' then Option.bind (parse_magnitude cs) (\<lambda>n. in_int64 (- int n))
          else if c = CHR ''+'' then Option.bind (parse_magnitude cs) (\<lambda>n. in_int64 (int n))
          else Option.bind (parse_magnitude s) (\<lambda>n. in_int64 (int n)))"

section \<open>Prefixes and suffixes\<close>

lemma HasPrefix_iff_prefix: "HasPrefix s p \<longleftrightarrow> prefix p s"
proof
  assume "HasPrefix s p"
  then have "s = p @ drop (length p) s"
    by (metis HasPrefix_def append_take_drop_id)
  then show "prefix p s" by (metis prefixI)
qed (auto simp: HasPrefix_def prefix_def)

lemma HasPrefix_refl [simp]: "HasPrefix s s"
  by (simp add: HasPrefix_def)

lemma HasPrefix_empty [simp]: "HasPrefix s []"
  by (simp add: HasPrefix_def)

lemma HasPrefix_append [simp]: "HasPrefix (p @ s) p"
  by (simp add: HasPrefix_def)

lemma HasPrefix_trans: "HasPrefix s q \<Longrightarrow> HasPrefix q p \<Longrightarrow> HasPrefix s p"
  by (auto simp: HasPrefix_iff_prefix)

lemma HasSuffix_iff: "HasSuffix s p \<longleftrightarrow> (\<exists>t. s = t @ p)"
proof
  assume "HasSuffix s p"
  then show "\<exists>t. s = t @ p"
    by (metis HasSuffix_def append_take_drop_id)
qed (auto simp: HasSuffix_def)

section \<open>Split and Join\<close>

lemma Split_nonempty [simp]: "Split s c \<noteq> []"
  by (induction s c rule: Split.induct) (auto split: list.splits)

lemma Join_Cons: "ys \<noteq> [] \<Longrightarrow> Join (y # ys) sep = y @ sep @ Join ys sep"
  by (cases ys) auto

lemma Join_Split: "Join (Split s c) [c] = s"
proof (induction s c rule: Split.induct)
  case (2 x xs c)
  obtain y ys where ys: "Split xs c = y # ys" by (cases "Split xs c") auto
  with 2 show ?case by (cases ys) (auto simp: Join_Cons)
qed simp

lemma Split_no_sep: "p \<in> set (Split s c) \<Longrightarrow> c \<notin> set p"
  by (induction s c arbitrary: p rule: Split.induct) (auto split: if_splits list.splits)

lemma Split_append_sep: "c \<notin> set p \<Longrightarrow> Split (p @ c # s) c = p # Split s c"
  by (induction p) auto

lemma Split_no_occurrence: "c \<notin> set p \<Longrightarrow> Split p c = [p]"
  by (induction p) auto

lemma Split_Join:
  assumes "ps \<noteq> []" and "\<And>p. p \<in> set ps \<Longrightarrow> c \<notin> set p"
  shows "Split (Join ps [c]) c = ps"
  using assms
proof (induction ps rule: induct_list012)
  case (3 x y zs)
  then have "Split (Join (y # zs) [c]) c = y # zs" by auto
  with 3 show ?case by (simp add: Split_append_sep)
qed (auto simp: Split_no_occurrence)

section \<open>Decimal numbers\<close>

lemma char_digit_digit_char: "d < 10 \<Longrightarrow> char_digit (digit_char d) = Some d"
  by (simp add: char_digit_def digit_char_def)

lemma digits_nat_append:
  "digits_nat acc (xs @ ys) = Option.bind (digits_nat acc xs) (\<lambda>a. digits_nat a ys)"
  by (induction xs arbitrary: acc) (auto split: option.splits)

lemma nat_digits_nonempty [simp]: "nat_digits n \<noteq> []"
  by (subst nat_digits.simps) simp

lemma digits_nat_nat_digits: "digits_nat 0 (nat_digits n) = Some n"
proof (induction n rule: nat_digits.induct)
  case (1 n)
  show ?case
  proof (cases "n < 10")
    case True
    then show ?thesis by (simp add: nat_digits.simps[of n] char_digit_digit_char)
  next
    case False
    with 1 have "digits_nat 0 (nat_digits (n div 10)) = Some (n div 10)" by simp
    with False show ?thesis
      by (simp add: nat_digits.simps[of n] digits_nat_append char_digit_digit_char)
  qed
qed

lemma parse_magnitude_nat_digits: "parse_magnitude (nat_digits n) = Some n"
  by (simp add: parse_magnitude_def digits_nat_nat_digits)

definition is_digit :: "char \<Rightarrow> bool" where
  "is_digit c \<longleftrightarrow> char_digit c \<noteq> None"

lemma nat_digits_are_digits: "c \<in> set (nat_digits n) \<Longrightarrow> is_digit c"
proof (induction n rule: nat_digits.induct)
  case (1 n)
  show ?case
  proof (cases "n < 10")
    case True
    with "1.prems" show ?thesis
      by (simp add: nat_digits.simps[of n] is_digit_def char_digit_digit_char)
  next
    case False
    with "1.prems" have "c \<in> set (nat_digits (n div 10)) \<or> c = digit_char (n mod 10)"
      by (auto simp: nat_digits.simps[of n])
    with False "1.IH" show ?thesis
      by (auto simp: is_digit_def char_digit_digit_char)
  qed
qed

lemma not_digits [simp]:
  "\<not> is_digit CHR ''-''" "\<not> is_digit CHR ''+''" "\<not> is_digit CHR '',''"
  "\<not> is_digit CHR ''=''" "\<not> is_digit CHR 0x0A" "is_space c \<Longrightarrow> \<not> is_digit c"
  by (auto simp: is_digit_def char_digit_def is_space_def)

lemma FormatInt_chars: "c \<in> set (FormatInt n) \<Longrightarrow> is_digit c \<or> c = CHR ''-''"
  by (auto simp: FormatInt_def dest: nat_digits_are_digits split: if_splits)

lemma FormatInt_nonempty [simp]: "FormatInt n \<noteq> []"
  by (simp add: FormatInt_def)

lemma ParseInt_unsigned:
  assumes "s \<noteq> []" and "\<And>c. c \<in> set s \<Longrightarrow> is_digit c"
  shows "ParseInt s = Option.bind (parse_magnitude s) (\<lambda>n. in_int64 (int n))"
proof -
  obtain c cs where s: "s = c # cs" using assms(1) by (cases s) auto
  with assms(2)[of c] have "is_digit c" by simp
  then have "c \<noteq> CHR ''-''" and "c \<noteq> CHR ''+''" by auto
  with s show ?thesis by (simp add: ParseInt_def)
qed

lemma ParseInt_FormatInt:
  assumes "is_int64 n"
  shows "ParseInt (FormatInt n) = Some n"
proof (cases "n < 0")
  case True
  then have "ParseInt (FormatInt n) = in_int64 (- int (nat (- n)))"
    by (simp add: FormatInt_def ParseInt_def parse_magnitude_nat_digits)
  with True assms show ?thesis by (simp add: in_int64_def)
next
  case False
  then have "ParseInt (FormatInt n) = in_int64 (int (nat n))"
    using ParseInt_unsigned[of "nat_digits (nat n)"]
    by (simp add: FormatInt_def nat_digits_are_digits parse_magnitude_nat_digits)
  with False assms show ?thesis by (simp add: in_int64_def)
qed

lemma ParseInt_is_int64: "ParseInt s = Some n \<Longrightarrow> is_int64 n"
  by (auto simp: ParseInt_def in_int64_def split: list.splits if_splits bind_splits)

lemma TrimSpace_no_space:
  assumes "s \<noteq> []" and "\<And>c. c \<in> set s \<Longrightarrow> \<not> is_space c"
  shows "TrimSpace s = s"
proof -
  have "dropWhile is_space s = s" and "dropWhile is_space (rev s) = rev s"
    using assms by (auto simp: dropWhile_eq_self_iff hd_rev)
  then show ?thesis by (simp add: TrimSpace_def)
qed

lemma TrimSpace_FormatInt: "TrimSpace (FormatInt n) = FormatInt n"
proof (rule TrimSpace_no_space)
  fix c assume "c \<in> set (FormatInt n)"
  then have "is_digit c \<or> c = CHR ''-''" by (rule FormatInt_chars)
  then show "\<not> is_space c" by (auto simp: is_space_def)
qed simp

end
