(* ===== verification/Wire.thy ===== *)
theory Wire
  imports GoStrings
begin

text \<open>
  The messages that cross the program's boundaries: protobuf objects and queries
  (\<^verbatim>\<open>internal/pb/fs.proto\<close>), TAR headers, and the conversions of \<^verbatim>\<open>internal/pb/fs.go\<close> between
  file modes, TAR type flags and objects. File modes are 32-bit words, as in Go's
  \<^verbatim>\<open>io/fs\<close>; the protobuf and TAR fields are 64-bit integers.

  The record \<open>lib\<close> collects the code that is not part of the repository: the SHA-256
  implementation, the S2 compressor, the serialisation of a TAR archive inside an S2 stream,
  regular-expression matching, and the sort key of the database's text collation. \<open>lib_ok\<close>
  states what the program relies on.
\<close>

unbundle bit_operations_syntax

section \<open>Messages\<close>

record pb_object =
  Path :: string
  Mode :: int
  Size :: int
  Deleted :: bool
  Content :: "bytes option"

record ObjectQuery =
  q_Path :: string
  q_IsPrefix :: bool
  q_Ignores :: "string list"

record tar_header =
  h_Name :: string
  h_Mode :: int
  h_Typeflag :: char
  h_Size :: int
  h_Linkname :: string

type_synonym tar_entry = "tar_header \<times> bytes"

section \<open>External code\<close>

record lib =
  sha256 :: "bytes \<Rightarrow> bytes"
  s2_encode :: "bytes \<Rightarrow> bytes"
  s2_decode :: "bytes \<Rightarrow> bytes option"
  tar_accepts :: "tar_header \<Rightarrow> bool"
  tar_encode :: "tar_entry list \<Rightarrow> bytes"
  tar_decode :: "bytes \<Rightarrow> tar_entry list \<times> bool"
  re_valid :: "string \<Rightarrow> bool"
  re_match :: "string \<Rightarrow> string \<Rightarrow> bool"
  collate :: "string \<Rightarrow> string"

text \<open>
  \<open>tar_decode\<close> returns the entries that can be read and whether the archive then ends
  cleanly. An entry is well formed when its header announces the length of its body.
\<close>

definition entry_ok :: "lib \<Rightarrow> tar_entry \<Rightarrow> bool" where
  "entry_ok L e \<longleftrightarrow> tar_accepts L (fst e) \<and> h_Size (fst e) = int (length (snd e))"

definition lib_ok :: "lib \<Rightarrow> bool" where
  "lib_ok L \<longleftrightarrow>
     (\<forall>b. length (sha256 L b) = 32) \<and>
     (\<forall>c. s2_decode L (s2_encode L c) = Some c) \<and>
     (\<forall>es. list_all (entry_ok L) es \<longrightarrow> tar_decode L (tar_encode L es) = (es, True)) \<and>
     tar_decode L [] = ([], True)"

section \<open>File modes and TAR types\<close>

definition ModeDir :: "32 word" where
  "ModeDir = 0x80000000"

definition ModeSymlink :: "32 word" where
  "ModeSymlink = 0x08000000"

definition ModePerm :: "32 word" where
  "ModePerm = 0x1FF"

definition FileMode :: "int \<Rightarrow> 32 word" where
  "FileMode m = word_of_int m"

definition TypeReg :: char where "TypeReg = CHR ''0''"
definition TypeSymlink :: char where "TypeSymlink = CHR ''2''"
definition TypeDir :: char where "TypeDir = CHR ''5''"
definition TarDeleted :: char where "TarDeleted = CHR ''D''"
definition TarCached :: char where "TarCached = CHR ''C''"

lemmas typeflag_defs = TypeReg_def TypeSymlink_def TypeDir_def TarDeleted_def TarCached_def

definition TarTypeFromMode :: "32 word \<Rightarrow> char" where
  "TarTypeFromMode mode =
     (if mode AND ModeDir \<noteq> 0 then TypeDir
      else if mode AND ModeSymlink = ModeSymlink then TypeSymlink
      else TypeReg)"

definition ObjectFromTarHeader :: "tar_header \<Rightarrow> bytes \<Rightarrow> pb_object" where
  "ObjectFromTarHeader header content =
     (let mode = h_Mode header; size = h_Size header in
      if h_Typeflag header = TypeDir then
        \<lparr>Path = h_Name header, Mode = mode OR uint ModeDir, Size = 0, Deleted = False, Content = Some content\<rparr>
      else if h_Typeflag header = TypeSymlink then
        \<lparr>Path = h_Name header, Mode = mode OR uint ModeSymlink, Size = int (length (h_Linkname header)),
         Deleted = False, Content = Some (h_Linkname header)\<rparr>
      else
        \<lparr>Path = h_Name header, Mode = mode, Size = size, Deleted = False, Content = Some content\<rparr>)"

section \<open>Facts about modes\<close>

lemma mode_bits [simp]:
  "ModeDir AND ModeDir = ModeDir" "ModeDir \<noteq> 0" "ModeSymlink \<noteq> 0"
  "uint ModeDir = 0x80000000" "uint ModeSymlink = 0x08000000"
  by (simp_all add: ModeDir_def ModeSymlink_def)

lemma TarTypeFromMode_cases:
  "TarTypeFromMode m \<in> {TypeDir, TypeSymlink, TypeReg}"
  by (simp add: TarTypeFromMode_def)

lemma TarTypeFromMode_not_special [simp]:
  "TarTypeFromMode m \<noteq> TarDeleted" "TarTypeFromMode m \<noteq> TarCached"
  "TarDeleted \<noteq> TarTypeFromMode m" "TarCached \<noteq> TarTypeFromMode m"
  by (auto simp: TarTypeFromMode_def typeflag_defs)

end
