(* ===== verification/TarPack.thy ===== *)
theory TarPack
  imports Wire
begin

text \<open>
  \<^verbatim>\<open>internal/db/tar.go\<close>: writing objects into a TAR archive and reading them back, packing a
  stream of objects into one archive (\<open>packObjects\<close>), and updating an existing archive
  (\<open>updateObjects\<close>) through a closure that first walks the old archive and then yields the
  updates it has not met, with its index hint and its set of seen paths.
\<close>

unbundle bit_operations_syntax

section \<open>Writing and reading archives\<close>

record tar_object =
  t_path :: string
  t_mode :: int
  t_size :: int
  t_deleted :: bool
  t_cached :: bool
  t_packed :: bool
  t_content :: "bytes option"

definition NewUncachedTarObject :: "string \<Rightarrow> int \<Rightarrow> int \<Rightarrow> bool \<Rightarrow> bytes option \<Rightarrow> tar_object" where
  "NewUncachedTarObject path mode sz deleted content =
     \<lparr>t_path = path, t_mode = mode, t_size = sz, t_deleted = deleted, t_cached = False,
      t_packed = False, t_content = content\<rparr>"

definition TarType :: "tar_object \<Rightarrow> char" where
  "TarType ob =
     (if t_deleted ob then TarDeleted
      else if t_cached ob then TarCached
      else TarTypeFromMode (FileMode (t_mode ob)))"

definition nil_bytes :: "bytes option \<Rightarrow> bytes" where
  "nil_bytes c = (case c of None \<Rightarrow> [] | Some b \<Rightarrow> b)"

text \<open>
  The writer keeps the number of content and path bytes written since its last reset
  (\<open>tw_size\<close>) and the archive under construction (its entries; the byte buffer, the S2 writer
  and the TAR writer together).
\<close>

record tar_writer =
  tw_size :: int
  tw_entries :: "tar_entry list"

definition NewTarWriter :: tar_writer where
  "NewTarWriter = \<lparr>tw_size = 0, tw_entries = []\<rparr>"

definition BytesAndReset :: "lib \<Rightarrow> tar_writer \<Rightarrow> bytes \<times> tar_writer" where
  "BytesAndReset L t = (tar_encode L (tw_entries t), t\<lparr>tw_size := 0, tw_entries := []\<rparr>)"

definition content_size :: "tar_object \<Rightarrow> int" where
  "content_size ob =
     (if TarType ob = TypeDir \<or> TarType ob = TypeSymlink then 0
      else int (length (nil_bytes (t_content ob))))"

definition object_header :: "tar_object \<Rightarrow> tar_header" where
  "object_header ob =
     \<lparr>h_Name = t_path ob,
      h_Mode = uint (FileMode (t_mode ob) AND ModePerm),
      h_Typeflag = TarType ob,
      h_Size = content_size ob,
      h_Linkname = (if TarType ob = TypeSymlink then nil_bytes (t_content ob) else [])\<rparr>"

definition object_body :: "tar_object \<Rightarrow> bytes" where
  "object_body ob = (if content_size ob > 0 then nil_bytes (t_content ob) else [])"

definition WriteObject :: "lib \<Rightarrow> tar_object \<Rightarrow> tar_writer \<Rightarrow> dberr + tar_writer" where
  "WriteObject L ob t =
     (if \<not> tar_accepts L (object_header ob) then Inl ErrTarHeader
      else Inr \<lparr>tw_size = tw_size t + (content_size ob + int (length (t_path ob))),
                tw_entries = tw_entries t @ [(object_header ob, object_body ob)]\<rparr>)"

record tar_reader =
  tr_rest :: "tar_entry list"
  tr_clean :: bool

definition FromBytes :: "lib \<Rightarrow> bytes \<Rightarrow> tar_reader" where
  "FromBytes L content = (case tar_decode L content of (es, ok) \<Rightarrow> \<lparr>tr_rest = es, tr_clean = ok\<rparr>)"

text \<open>\<open>Next\<close> together with the \<open>ReadContent\<close> of the entry it moves to.\<close>

definition Next :: "tar_reader \<Rightarrow> tar_reader \<times> tar_entry pull" where
  "Next r =
     (case tr_rest r of
        [] \<Rightarrow> (r, if tr_clean r then EOF else Fail ErrTarRead)
      | e # es \<Rightarrow> (r\<lparr>tr_rest := es\<rparr>, Yield e))"

section \<open>Packing\<close>

definition pack_body :: "lib \<Rightarrow> pb_object \<Rightarrow> tar_writer \<times> bool \<Rightarrow> dberr + tar_writer \<times> bool" where
  "pack_body L ob acc =
     (case WriteObject L (NewUncachedTarObject (Path ob) (Mode ob) (Size ob) (Deleted ob) (Content ob)) (fst acc) of
        Inl e \<Rightarrow> Inl e
      | Inr t \<Rightarrow> Inr (t, False))"

definition packObjects :: "nat \<Rightarrow> lib \<Rightarrow> ('s \<Rightarrow> 's \<times> pb_object pull) \<Rightarrow> 's \<Rightarrow> (dberr + bytes) option" where
  "packObjects fuel L objects s =
     (case each fuel objects (pack_body L) s (NewTarWriter, True) of
        None \<Rightarrow> None
      | Some (Inl e) \<Rightarrow> Some (Inl e)
      | Some (Inr (t, nothing)) \<Rightarrow>
          Some (if nothing then Inl ErrEmptyPack else Inr (fst (BytesAndReset L t))))"

section \<open>Updating a pack\<close>

fun findUpdate :: "pb_object list \<Rightarrow> string \<Rightarrow> pb_object option" where
  "findUpdate [] path = None"
| "findUpdate (ob # obs) path = (if path = Path ob then Some ob else findUpdate obs path)"

record update_stream =
  us_updates :: "pb_object list"
  us_seen :: "string list"
  us_idxHint :: nat
  us_reader :: tar_reader
  us_remaining :: bool

text \<open>\<^verbatim>\<open>for idx, object := range updates[idxHint:]\<close>: the first unseen update and its index in the slice.\<close>

fun first_unseen :: "string list \<Rightarrow> nat \<Rightarrow> pb_object list \<Rightarrow> (nat \<times> pb_object) option" where
  "first_unseen seen idx [] = None"
| "first_unseen seen idx (ob # obs) =
     (if Path ob \<in> set seen then first_unseen seen (Suc idx) obs else Some (idx, ob))"

definition update_step :: "update_stream \<Rightarrow> update_stream \<times> pb_object pull" where
  "update_step s =
     (if \<not> us_remaining s then
        (case first_unseen (us_seen s) 0 (drop (us_idxHint s) (us_updates s)) of
           None \<Rightarrow> (s, EOF)
         | Some (idx, ob) \<Rightarrow>
             (s\<lparr>us_seen := Path ob # us_seen s, us_idxHint := idx\<rparr>,
              if Deleted ob then SKIP else Yield ob))
      else
        (case Next (us_reader s) of
           (r, EOF) \<Rightarrow> (s\<lparr>us_reader := r, us_remaining := False\<rparr>, SKIP)
         | (r, SKIP) \<Rightarrow> (s\<lparr>us_reader := r\<rparr>, SKIP)
         | (r, Fail e) \<Rightarrow> (s\<lparr>us_reader := r\<rparr>, Fail e)
         | (r, Yield (header, content)) \<Rightarrow>
             (s\<lparr>us_reader := r, us_seen := h_Name header # us_seen s\<rparr>,
              (case findUpdate (us_updates s) (h_Name header) of
                 Some u \<Rightarrow> (if Deleted u then SKIP else Yield u)
               | None \<Rightarrow> Yield (ObjectFromTarHeader header content)))))"

definition update_start :: "lib \<Rightarrow> bytes \<Rightarrow> pb_object list \<Rightarrow> update_stream" where
  "update_start L before updates =
     \<lparr>us_updates = sort_key Path updates, us_seen = [], us_idxHint = 0,
      us_reader = FromBytes L before, us_remaining = True\<rparr>"

text \<open>Fuel for the loop: one call per archive entry, per update, and two for the two ends.\<close>

definition update_left :: "update_stream \<Rightarrow> nat" where
  "update_left s =
     (if us_remaining s then Suc (length (tr_rest (us_reader s))) else 0) +
     length (filter (\<lambda>u. Path u \<notin> set (us_seen s)) (us_updates s))"

definition updateObjects :: "lib \<Rightarrow> bytes \<Rightarrow> pb_object list \<Rightarrow> dberr + bytes" where
  "updateObjects L before updates =
     (let s = update_start L before updates in
      case packObjects (Suc (update_left s)) L update_step s of
        None \<Rightarrow> Inl ErrStuck
      | Some r \<Rightarrow> r)"

section \<open>What an archive stores of an object\<close>

definition to_tar :: "pb_object \<Rightarrow> tar_object" where
  "to_tar ob = NewUncachedTarObject (Path ob) (Mode ob) (Size ob) (Deleted ob) (Content ob)"

definition entry_of :: "pb_object \<Rightarrow> tar_entry" where
  "entry_of ob = (object_header (to_tar ob), object_body (to_tar ob))"

definition object_of :: "tar_entry \<Rightarrow> pb_object" where
  "object_of e = ObjectFromTarHeader (fst e) (snd e)"

text \<open>
  The object that comes back out of an archive: its mode reduced to the permission bits and
  the directory or symlink bit, its size the length of what is stored.
\<close>

definition stored :: "pb_object \<Rightarrow> pb_object" where
  "stored ob =
     (let m = FileMode (Mode ob); perm = uint (m AND ModePerm); c = nil_bytes (Content ob) in
      if TarTypeFromMode m = TypeDir then
        \<lparr>Path = Path ob, Mode = perm OR 0x80000000, Size = 0, Deleted = False, Content = Some []\<rparr>
      else if TarTypeFromMode m = TypeSymlink then
        \<lparr>Path = Path ob, Mode = perm OR 0x08000000, Size = int (length c), Deleted = False, Content = Some c\<rparr>
      else \<lparr>Path = Path ob, Mode = perm, Size = int (length c), Deleted = False, Content = Some c\<rparr>)"

lemma to_tar_simps [simp]:
  "t_path (to_tar ob) = Path ob" "t_mode (to_tar ob) = Mode ob" "t_deleted (to_tar ob) = Deleted ob"
  "t_cached (to_tar ob) = False" "t_content (to_tar ob) = Content ob" "t_packed (to_tar ob) = False"
  by (simp_all add: to_tar_def NewUncachedTarObject_def)

lemma TarType_to_tar: "\<not> Deleted ob \<Longrightarrow> TarType (to_tar ob) = TarTypeFromMode (FileMode (Mode ob))"
  by (simp add: TarType_def)

lemma object_of_entry_of: "\<not> Deleted ob \<Longrightarrow> object_of (entry_of ob) = stored ob"
  by (auto simp: object_of_def entry_of_def object_header_def object_body_def content_size_def
      ObjectFromTarHeader_def stored_def TarType_to_tar Let_def typeflag_defs)

lemma entry_of_ok: "tar_accepts L (object_header (to_tar ob)) \<Longrightarrow> entry_ok L (entry_of ob)"
  by (auto simp: entry_ok_def entry_of_def object_header_def object_body_def content_size_def)

lemma FileMode_uint [simp]: "FileMode (uint m) = m"
  by (simp add: FileMode_def)

lemma FileMode_or: "FileMode (uint a OR uint b) = a OR b"
  by (metis FileMode_uint uint_or)

lemma FileMode_dir: "FileMode (uint p OR 0x80000000) = p OR ModeDir"
  using FileMode_or[of p ModeDir] by simp

lemma FileMode_symlink: "FileMode (uint p OR 0x08000000) = p OR ModeSymlink"
  using FileMode_or[of p ModeSymlink] by simp

lemma bit_ModeDir: "bit ModeDir n \<longleftrightarrow> n = 31"
proof -
  have eq: "ModeDir = push_bit 31 1" by (simp add: ModeDir_def)
  show ?thesis unfolding eq bit_push_bit_iff bit_1_iff by auto
qed

lemma bit_ModeSymlink: "bit ModeSymlink n \<longleftrightarrow> n = 27"
proof -
  have eq: "ModeSymlink = push_bit 27 1" by (simp add: ModeSymlink_def)
  show ?thesis unfolding eq bit_push_bit_iff bit_1_iff by auto
qed

lemma bit_ModePerm: "bit ModePerm n \<longleftrightarrow> n < 9"
proof -
  have eq: "ModePerm = mask 9" by (simp add: ModePerm_def mask_eq_exp_minus_1)
  show ?thesis unfolding eq bit_mask_iff by auto
qed

lemma perm_bits:
  "(m AND ModePerm) AND ModeDir = 0" "(m AND ModePerm) AND ModeSymlink = 0"
  "((m AND ModePerm) OR ModeDir) AND ModePerm = m AND ModePerm"
  "((m AND ModePerm) OR ModeSymlink) AND ModePerm = m AND ModePerm"
  "((m AND ModePerm) OR ModeSymlink) AND ModeDir = 0"
  "((m AND ModePerm) OR ModeSymlink) AND ModeSymlink = ModeSymlink"
  "((m AND ModePerm) OR ModeDir) AND ModeDir = ModeDir"
  "(m AND ModePerm) AND ModePerm = m AND ModePerm"
  by (auto intro!: bit_eqI simp: bit_and_iff bit_or_iff bit_ModeDir bit_ModeSymlink bit_ModePerm)

lemma stored_type:
  "TarTypeFromMode (FileMode (Mode (stored ob))) = TarTypeFromMode (FileMode (Mode ob))"
  by (auto simp: stored_def Let_def FileMode_dir FileMode_symlink TarTypeFromMode_def perm_bits
      typeflag_defs)

lemma stored_perm: "FileMode (Mode (stored ob)) AND ModePerm = FileMode (Mode ob) AND ModePerm"
  by (auto simp: stored_def Let_def FileMode_dir FileMode_symlink perm_bits)

lemma stored_simps [simp]: "Path (stored ob) = Path ob" "\<not> Deleted (stored ob)"
  by (auto simp: stored_def Let_def)

lemma stored_content:
  "nil_bytes (Content (stored ob)) =
     (if TarTypeFromMode (FileMode (Mode ob)) = TypeDir then [] else nil_bytes (Content ob))"
  by (auto simp: stored_def Let_def nil_bytes_def)

lemma stored_stored: "stored (stored ob) = stored ob"
  by (subst (1) stored_def)
    (auto simp: stored_type stored_perm stored_content Let_def, auto simp: stored_def Let_def)

section \<open>The update stream meets the stream contract\<close>

text \<open>The updates not met while walking the old archive, in order, each path once, deletions dropped.\<close>

fun fresh :: "string list \<Rightarrow> pb_object list \<Rightarrow> pb_object list" where
  "fresh seen [] = []"
| "fresh seen (u # us) =
     (if Path u \<in> set seen then fresh seen us
      else (if Deleted u then [] else [u]) @ fresh (Path u # seen) us)"

text \<open>What the walk over the old archive yields.\<close>

definition walk :: "pb_object list \<Rightarrow> tar_entry list \<Rightarrow> pb_object list" where
  "walk us es = concat (map (\<lambda>e. case findUpdate us (h_Name (fst e)) of
       Some u \<Rightarrow> (if Deleted u then [] else [u]) | None \<Rightarrow> [object_of e]) es)"

definition update_inv :: "update_stream \<Rightarrow> bool" where
  "update_inv s \<longleftrightarrow> (\<forall>u \<in> set (take (us_idxHint s) (us_updates s)). Path u \<in> set (us_seen s))"

definition update_todo :: "update_stream \<Rightarrow> pb_object list \<times> dberr option" where
  "update_todo s =
     (let es = tr_rest (us_reader s); us = us_updates s in
      if \<not> us_remaining s then (fresh (us_seen s) us, None)
      else if tr_clean (us_reader s)
        then (walk us es @ fresh (rev (map (h_Name \<circ> fst) es) @ us_seen s) us, None)
      else (walk us es, Some ErrTarRead))"

lemma fresh_seen_all: "(\<And>u. u \<in> set us \<Longrightarrow> Path u \<in> set seen) \<Longrightarrow> fresh seen (us @ vs) = fresh seen vs"
  by (induction us) auto

lemma fresh_cong: "set seen = set seen' \<Longrightarrow> fresh seen us = fresh seen' us"
proof (induction us arbitrary: seen seen')
  case (Cons u us)
  have "set (Path u # seen) = set (Path u # seen')" by (simp only: list.set Cons.prems)
  then have "fresh (Path u # seen) us = fresh (Path u # seen') us" by (rule Cons.IH)
  moreover have "fresh seen us = fresh seen' us" by (rule Cons.IH) (rule Cons.prems)
  ultimately show ?case by (simp only: fresh.simps Cons.prems)
qed simp

lemma first_unseen_Some:
  assumes "first_unseen seen idx us = Some (j, ob)"
  obtains pre post where "us = pre @ ob # post" and "j = idx + length pre"
    and "\<And>u. u \<in> set pre \<Longrightarrow> Path u \<in> set seen" and "Path ob \<notin> set seen"
  using assms
proof (induction us arbitrary: idx thesis)
  case Nil
  then show ?case by simp
next
  case (Cons u us)
  show ?case
  proof (cases "Path u \<in> set seen")
    case True
    with Cons.prems(2) have "first_unseen seen (Suc idx) us = Some (j, ob)" by simp
    then obtain pre post where "us = pre @ ob # post" "j = Suc idx + length pre"
      "\<And>v. v \<in> set pre \<Longrightarrow> Path v \<in> set seen" "Path ob \<notin> set seen"
      using Cons.IH by blast
    with True Cons.prems(1)[of "u # pre" post] show ?thesis by auto
  next
    case False
    with Cons.prems(2) have "u = ob" "j = idx" by auto
    with False Cons.prems(1)[of "[]" us] show ?thesis by simp
  qed
qed

lemma first_unseen_None: "first_unseen seen idx us = None \<longleftrightarrow> (\<forall>u \<in> set us. Path u \<in> set seen)"
  by (induction us arbitrary: idx) auto

lemma unseen_less:
  assumes "ob \<in> set us" and "Path ob \<notin> set seen"
  shows "length (filter (\<lambda>u. Path u \<notin> set (Path ob # seen)) us) < length (filter (\<lambda>u. Path u \<notin> set seen) us)"
proof -
  have "filter (\<lambda>u. Path u \<notin> set (Path ob # seen)) us
      = filter (\<lambda>u. Path u \<noteq> Path ob) (filter (\<lambda>u. Path u \<notin> set seen) us)"
    by (simp add: conj_commute)
  also have "length \<dots> < length (filter (\<lambda>u. Path u \<notin> set seen) us)"
    using assms by (intro length_filter_less[of ob]) auto
  finally show ?thesis .
qed

lemma unseen_le:
  "length (filter (\<lambda>u. Path u \<notin> set (p # seen)) us) \<le> length (filter (\<lambda>u. Path u \<notin> set seen) us)"
  by (induction us) auto

text \<open>
  The code sets \<^verbatim>\<open>idxHint = idx\<close> where \<open>idx\<close> counts from the hint and not from the start of the
  slice, so the hint can move backwards. It is still safe: everything before it has been seen.
\<close>

lemma hint_safe:
  assumes "update_inv s"
    and "first_unseen (us_seen s) 0 (drop (us_idxHint s) (us_updates s)) = Some (idx, ob)"
  shows "update_inv (s\<lparr>us_seen := Path ob # us_seen s, us_idxHint := idx\<rparr>)"
    and "fresh (us_seen s) (us_updates s)
      = (if Deleted ob then [] else [ob]) @ fresh (Path ob # us_seen s) (us_updates s)"
    and "ob \<in> set (us_updates s)" and "Path ob \<notin> set (us_seen s)"
proof -
  let ?seen = "us_seen s" and ?h = "us_idxHint s" and ?us = "us_updates s"
  obtain pre post where d: "drop ?h ?us = pre @ ob # post" "idx = length pre"
    and pre: "\<And>u. u \<in> set pre \<Longrightarrow> Path u \<in> set ?seen" and ob: "Path ob \<notin> set ?seen"
    using assms(2) by (rule first_unseen_Some) auto
  have us: "?us = (take ?h ?us @ pre) @ ob # post"
    by (metis append_assoc append_take_drop_id d(1))
  have before: "\<And>u. u \<in> set (take ?h ?us @ pre) \<Longrightarrow> Path u \<in> set ?seen"
    using assms(1) pre by (auto simp: update_inv_def)
  have "idx \<le> length (take ?h ?us @ pre)" using d(2) by simp
  then have "take idx ?us = take idx (take ?h ?us @ pre)" by (subst us) simp
  then have "set (take idx ?us) \<subseteq> set (take ?h ?us @ pre)"
    by (metis set_take_subset)
  with before show "update_inv (s\<lparr>us_seen := Path ob # us_seen s, us_idxHint := idx\<rparr>)"
    by (auto simp: update_inv_def)
  have "fresh ?seen ?us = fresh ?seen (ob # post)"
    by (subst us) (rule fresh_seen_all, rule before)
  also have "\<dots> = (if Deleted ob then [] else [ob]) @ fresh (Path ob # ?seen) post"
    using ob by simp
  also have "fresh (Path ob # ?seen) post = fresh (Path ob # ?seen) ((take ?h ?us @ pre @ [ob]) @ post)"
    using before by (subst fresh_seen_all) auto
  also have "(take ?h ?us @ pre @ [ob]) @ post = ?us" using us by simp
  finally show "fresh ?seen ?us = (if Deleted ob then [] else [ob]) @ fresh (Path ob # ?seen) ?us" .
  show "ob \<in> set ?us" by (subst us) simp
  show "Path ob \<notin> set ?seen" by (rule ob)
qed

lemma update_inv_more_seen:
  "update_inv s \<Longrightarrow> update_inv (s\<lparr>us_reader := r, us_seen := p # us_seen s\<rparr>)"
  "update_inv s \<Longrightarrow> update_inv (s\<lparr>us_remaining := b\<rparr>)"
  by (auto simp: update_inv_def)

lemma update_step_new:
  assumes "update_inv s" and "\<not> us_remaining s" and "update_step s = (s', r)"
  shows "(r = EOF \<and> update_todo s = ([], None)) \<or>
    (r = SKIP \<and> update_inv s' \<and> update_todo s = update_todo s' \<and> update_left s' < update_left s) \<or>
    (\<exists>x. r = Yield x \<and> update_inv s' \<and> update_left s' < update_left s \<and>
      update_todo s = (x # fst (update_todo s'), snd (update_todo s')))"
proof (cases "first_unseen (us_seen s) 0 (drop (us_idxHint s) (us_updates s))")
  case None
  then have all: "\<forall>u \<in> set (us_updates s). Path u \<in> set (us_seen s)"
    using assms(1) unfolding first_unseen_None update_inv_def
    by (metis UnE append_take_drop_id set_append)
  have "fresh (us_seen s) (us_updates s) = []"
    using fresh_seen_all[of "us_updates s" "us_seen s" "[]"] all by simp
  with None assms show ?thesis by (auto simp: update_step_def update_todo_def)
next
  case (Some p)
  obtain idx ob where p: "p = (idx, ob)" by (cases p)
  note h = hint_safe[OF assms(1) Some[unfolded p]]
  have "s' = s\<lparr>us_seen := Path ob # us_seen s, us_idxHint := idx\<rparr>"
    and r: "r = (if Deleted ob then SKIP else Yield ob)"
    using assms(2,3) Some p by (auto simp: update_step_def)
  moreover have "update_left (s\<lparr>us_seen := Path ob # us_seen s, us_idxHint := idx\<rparr>) < update_left s"
    using unseen_less[OF h(3,4)] assms(2) by (simp add: update_left_def)
  ultimately show ?thesis using h(1,2) assms(2) by (auto simp: update_todo_def)
qed

lemma update_step_old:
  assumes "update_inv s" and "us_remaining s" and "update_step s = (s', r)"
  shows "(\<exists>e. r = Fail e \<and> update_todo s = ([], Some e)) \<or>
    (r = SKIP \<and> update_inv s' \<and> update_todo s = update_todo s' \<and> update_left s' < update_left s) \<or>
    (\<exists>x. r = Yield x \<and> update_inv s' \<and> update_left s' < update_left s \<and>
      update_todo s = (x # fst (update_todo s'), snd (update_todo s')))"
proof (cases "tr_rest (us_reader s)")
  case Nil
  with assms show ?thesis
    by (auto simp: update_step_def Next_def update_todo_def update_left_def walk_def
        update_inv_more_seen(2) split: if_splits)
next
  case (Cons e es)
  obtain header content where e: "e = (header, content)" by (cases e)
  let ?t = "s\<lparr>us_reader := (us_reader s)\<lparr>tr_rest := es\<rparr>, us_seen := h_Name header # us_seen s\<rparr>"
  have st: "s' = ?t" and r: "r = (case findUpdate (us_updates s) (h_Name header) of
      Some u \<Rightarrow> (if Deleted u then SKIP else Yield u)
    | None \<Rightarrow> Yield (ObjectFromTarHeader header content))"
    using assms(2,3) Cons e by (auto simp: update_step_def Next_def split: option.splits)
  have inv: "update_inv ?t" by (rule update_inv_more_seen(1)[OF assms(1)])
  have left: "update_left ?t < update_left s"
    using unseen_le[of "h_Name header" "us_seen s" "us_updates s"] assms(2) Cons
    by (simp add: update_left_def)
  have todo: "update_todo s =
      ((case r of Yield x \<Rightarrow> [x] | _ \<Rightarrow> []) @ fst (update_todo ?t), snd (update_todo ?t))"
    using assms(2) Cons e
    by (auto simp: r update_todo_def walk_def object_of_def Let_def split: option.splits)
  show ?thesis using st r inv left todo by (auto split: option.splits if_splits)
qed

interpretation upd: pull_stream update_step update_inv update_todo update_left
proof (unfold_locales, goal_cases)
  case (1 s s' x)
  then show ?case using update_step_new[of s s'] update_step_old[of s s'] by fastforce
next
  case (2 s s')
  then show ?case using update_step_new[of s s'] update_step_old[of s s'] by fastforce
next
  case (3 s s')
  then show ?case using update_step_new[of s s'] update_step_old[of s s'] by fastforce
next
  case (4 s s' e)
  then show ?case using update_step_new[of s s'] update_step_old[of s s'] by fastforce
qed

section \<open>The result of updating a pack\<close>

definition accepted :: "lib \<Rightarrow> pb_object \<Rightarrow> bool" where
  "accepted L ob \<longleftrightarrow> tar_accepts L (object_header (to_tar ob))"

definition entry_name :: "tar_entry \<Rightarrow> string" where
  "entry_name e = h_Name (fst e)"

text \<open>An archive written by \<open>packObjects\<close>: it reads cleanly, no name twice, entries in stored form.\<close>

definition pack_ok :: "lib \<Rightarrow> bytes \<Rightarrow> bool" where
  "pack_ok L b \<longleftrightarrow>
     (let (es, clean) = tar_decode L b in
      clean \<and> distinct (map entry_name es) \<and> list_all (\<lambda>e. entry_of (object_of e) = e \<and> entry_ok L e) es)"

definition pack_entries :: "lib \<Rightarrow> bytes \<Rightarrow> tar_entry list" where
  "pack_entries L b = fst (tar_decode L b)"

definition pack_contents :: "lib \<Rightarrow> bytes \<Rightarrow> string \<Rightarrow> pb_object option" where
  "pack_contents L b = map_of (map (\<lambda>e. (entry_name e, object_of e)) (pack_entries L b))"

text \<open>The specification of an update on the map from paths to objects.\<close>

definition apply_updates :: "pb_object list \<Rightarrow> (string \<Rightarrow> pb_object option) \<Rightarrow> string \<Rightarrow> pb_object option" where
  "apply_updates us m p =
     (case findUpdate us p of
        Some u \<Rightarrow> (if Deleted u then None else Some (stored u))
      | None \<Rightarrow> m p)"

lemma Path_object_of [simp]: "Path (object_of e) = entry_name e"
  by (simp add: object_of_def ObjectFromTarHeader_def entry_name_def Let_def)

lemma not_Deleted_object_of [simp]: "\<not> Deleted (object_of e)"
  by (simp add: object_of_def ObjectFromTarHeader_def Let_def)

lemma entry_name_entry_of [simp]: "entry_name (entry_of ob) = Path ob"
  by (simp add: entry_name_def entry_of_def object_header_def)

lemma entry_of_stored: "\<not> Deleted ob \<Longrightarrow> entry_of (stored ob) = entry_of ob"
proof -
  assume d: "\<not> Deleted ob"
  have "object_header (to_tar (stored ob)) = object_header (to_tar ob)"
    using d by (auto simp: object_header_def content_size_def TarType_to_tar stored_type stored_perm
        stored_content typeflag_defs)
  moreover have "object_body (to_tar (stored ob)) = object_body (to_tar ob)"
    using d by (auto simp: object_body_def content_size_def TarType_to_tar stored_type stored_content)
  ultimately show ?thesis by (simp add: entry_of_def)
qed

lemma foldE_pack:
  "list_all (accepted L) xs \<Longrightarrow>
   \<exists>sz. foldE (pack_body L) xs (t, e) = Inr (\<lparr>tw_size = sz, tw_entries = tw_entries t @ map entry_of xs\<rparr>, e \<and> xs = [])"
proof (induction xs arbitrary: t e)
  case Nil
  show ?case by (rule exI[of _ "tw_size t"]) simp
next
  case (Cons x xs)
  let ?t = "\<lparr>tw_size = tw_size t + (content_size (to_tar x) + int (length (Path x))),
             tw_entries = tw_entries t @ [entry_of x]\<rparr>"
  have "pack_body L x (t, e) = Inr (?t, False)"
    using Cons.prems
    by (simp add: pack_body_def WriteObject_def accepted_def entry_of_def flip: to_tar_def)
  moreover obtain sz where "foldE (pack_body L) xs (?t, False)
      = Inr (\<lparr>tw_size = sz, tw_entries = tw_entries ?t @ map entry_of xs\<rparr>, False \<and> xs = [])"
    using Cons by (metis list.pred_inject(2))
  ultimately show ?case by auto
qed

lemma NewTarWriter_entries [simp]: "tw_entries NewTarWriter = []"
  by (simp add: NewTarWriter_def)

lemma update_start_inv: "update_inv (update_start L b us)"
  by (simp add: update_inv_def update_start_def)

definition update_out :: "lib \<Rightarrow> bytes \<Rightarrow> pb_object list \<Rightarrow> pb_object list" where
  "update_out L before updates =
     (let us = sort_key Path updates; es = pack_entries L before
      in walk us es @ fresh (rev (map entry_name es)) us)"

lemma updateObjects_out:
  assumes "snd (tar_decode L before)" and "list_all (accepted L) (update_out L before updates)"
  shows "updateObjects L before updates =
    (if update_out L before updates = [] then Inl ErrEmptyPack
     else Inr (tar_encode L (map entry_of (update_out L before updates))))"
proof -
  let ?s = "update_start L before updates" and ?out = "update_out L before updates"
  have todo: "update_todo ?s = (?out, None)"
    using assms(1)
    by (auto simp: update_todo_def update_start_def FromBytes_def update_out_def pack_entries_def
        Let_def comp_def entry_name_def[abs_def] split: prod.splits)
  obtain sz where f: "foldE (pack_body L) ?out (NewTarWriter, True)
      = Inr (\<lparr>tw_size = sz, tw_entries = tw_entries NewTarWriter @ map entry_of ?out\<rparr>, True \<and> ?out = [])"
    using foldE_pack[OF assms(2)] by blast
  have "each (Suc (update_left ?s)) update_step (pack_body L) ?s (NewTarWriter, True)
      = Some (consume (pack_body L) (?out, None) (NewTarWriter, True))"
    by (subst upd.each_consume[OF update_start_inv]) (simp_all add: todo)
  then show ?thesis
    by (simp del: each.simps add: updateObjects_def packObjects_def consume_def f Let_def BytesAndReset_def)
qed

lemma findUpdate_Some_iff:
  "distinct (map Path us) \<Longrightarrow> findUpdate us p = Some u \<longleftrightarrow> u \<in> set us \<and> Path u = p"
  by (induction us) (auto intro: rev_image_eqI)

lemma findUpdate_None_iff: "findUpdate us p = None \<longleftrightarrow> p \<notin> Path ` set us"
  by (induction us) auto

lemma findUpdate_perm:
  assumes "distinct (map Path us)" and "mset vs = mset us"
  shows "findUpdate vs p = findUpdate us p"
proof -
  have "set vs = set us" using assms(2) by (rule mset_eq_setD)
  moreover have "distinct (map Path vs)"
    using assms by (metis mset_map mset_eq_imp_distinct_iff)
  ultimately have "findUpdate vs p = Some u \<longleftrightarrow> findUpdate us p = Some u" for u
    using assms(1) by (simp add: findUpdate_Some_iff)
  then show ?thesis by (metis not_Some_eq)
qed

lemma distinct_sort_paths: "distinct (map Path us) \<Longrightarrow> distinct (map Path (sort_key Path us))"
  by (metis mset_map mset_sort mset_eq_imp_distinct_iff)

lemma set_fresh:
  "distinct (map Path us) \<Longrightarrow> set (fresh seen us) = {u \<in> set us. Path u \<notin> set seen \<and> \<not> Deleted u}"
  by (induction us arbitrary: seen) (auto simp: image_iff)

lemma distinct_fresh: "distinct (map Path (fresh seen us)) \<and> set (map Path (fresh seen us)) \<inter> set seen = {}"
  by (induction us arbitrary: seen) (auto, force+)

lemma set_walk:
  "set (walk us es) = {u. \<exists>e \<in> set es. findUpdate us (entry_name e) = Some u \<and> \<not> Deleted u} \<union>
     object_of ` {e \<in> set es. findUpdate us (entry_name e) = None}"
  by (induction es) (auto simp: walk_def entry_name_def split: option.splits if_splits)

lemma findUpdate_Path: "findUpdate us p = Some u \<Longrightarrow> Path u = p"
  by (induction us) (auto split: if_splits)

lemma names_walk: "Path ` set (walk us es) \<subseteq> entry_name ` set es"
  by (auto simp: set_walk dest: findUpdate_Path)

lemma distinct_walk: "distinct (map entry_name es) \<Longrightarrow> distinct (map Path (walk us es))"
proof (induction es)
  case (Cons e es)
  have w: "walk us (e # es) = (case findUpdate us (entry_name e) of
       Some u \<Rightarrow> (if Deleted u then [] else [u]) | None \<Rightarrow> [object_of e]) @ walk us es"
    by (simp add: walk_def entry_name_def)
  have "entry_name e \<notin> Path ` set (walk us es)"
    using Cons.prems names_walk[of us es] by auto
  with Cons w show ?case by (auto split: option.splits dest: findUpdate_Path)
qed (simp add: walk_def)

lemma distinct_update_out:
  assumes "distinct (map entry_name (pack_entries L before))"
  shows "distinct (map Path (update_out L before updates))"
  using distinct_walk[OF assms, of "sort_key Path updates"]
    names_walk[of "sort_key Path updates" "pack_entries L before"]
    distinct_fresh[of "rev (map entry_name (pack_entries L before))" "sort_key Path updates"]
  by (auto simp: update_out_def Let_def)

lemma set_update_out:
  assumes "distinct (map Path updates)"
  shows "set (update_out L before updates) =
    {u \<in> set updates. \<not> Deleted u} \<union>
    object_of ` {e \<in> set (pack_entries L before). findUpdate updates (entry_name e) = None}"
proof -
  let ?us = "sort_key Path updates" and ?es = "pack_entries L before"
  have d: "distinct (map Path ?us)" by (rule distinct_sort_paths[OF assms])
  have f: "findUpdate ?us p = findUpdate updates p" for p
    by (rule findUpdate_perm[OF assms]) simp
  have "set (update_out L before updates) =
      {u. \<exists>e \<in> set ?es. findUpdate updates (entry_name e) = Some u \<and> \<not> Deleted u} \<union>
      object_of ` {e \<in> set ?es. findUpdate updates (entry_name e) = None} \<union>
      {u \<in> set updates. Path u \<notin> entry_name ` set ?es \<and> \<not> Deleted u}"
    by (simp add: update_out_def Let_def set_walk set_fresh[OF d] f)
  then show ?thesis by (auto simp: findUpdate_Some_iff[OF assms])
qed


lemma pack_okD:
  assumes "pack_ok L b"
  shows "snd (tar_decode L b)" and "distinct (map entry_name (pack_entries L b))"
    and "\<And>e. e \<in> set (pack_entries L b) \<Longrightarrow> entry_of (object_of e) = e"
    and "\<And>e. e \<in> set (pack_entries L b) \<Longrightarrow> entry_ok L e"
  using assms by (auto simp: pack_ok_def pack_entries_def list_all_iff split: prod.splits)

lemma stored_object_of: "entry_of (object_of e) = e \<Longrightarrow> stored (object_of e) = object_of e"
  by (metis object_of_entry_of not_Deleted_object_of)

lemma not_Deleted_update_out:
  "distinct (map Path updates) \<Longrightarrow> ob \<in> set (update_out L before updates) \<Longrightarrow> \<not> Deleted ob"
  by (auto simp: set_update_out)

lemma accepted_update_out:
  assumes "pack_ok L before" and "distinct (map Path updates)" and "list_all (accepted L) updates"
  shows "list_all (accepted L) (update_out L before updates)"
proof -
  have "accepted L (object_of e)" if "e \<in> set (pack_entries L before)" for e
  proof -
    have "fst (entry_of (object_of e)) = fst e" using pack_okD(3)[OF assms(1) that] by simp
    then show ?thesis
      using pack_okD(4)[OF assms(1) that] by (simp add: accepted_def entry_of_def entry_ok_def)
  qed
  with assms(2,3) show ?thesis by (auto simp: list_all_iff set_update_out)
qed

lemma tar_decode_update_out:
  assumes "lib_ok L" and "list_all (accepted L) obs"
  shows "tar_decode L (tar_encode L (map entry_of obs)) = (map entry_of obs, True)"
proof -
  have "list_all (entry_ok L) (map entry_of obs)"
    using assms(2) by (auto simp: list_all_iff accepted_def intro: entry_of_ok)
  with assms(1) show ?thesis by (simp add: lib_ok_def)
qed

lemma updateObjects_Inr:
  assumes "pack_ok L before" and "distinct (map Path updates)" and "list_all (accepted L) updates"
  shows "updateObjects L before updates = Inr after \<longleftrightarrow>
    update_out L before updates \<noteq> [] \<and> after = tar_encode L (map entry_of (update_out L before updates))"
  using updateObjects_out[OF pack_okD(1)[OF assms(1)] accepted_update_out[OF assms]] by auto

lemma pack_entries_after:
  assumes "lib_ok L" and "pack_ok L before" and "distinct (map Path updates)"
    and "list_all (accepted L) updates" and "updateObjects L before updates = Inr after"
  shows "pack_entries L after = map entry_of (update_out L before updates)"
    and "snd (tar_decode L after)"
  using assms updateObjects_Inr[OF assms(2,3,4)]
    tar_decode_update_out[OF assms(1) accepted_update_out[OF assms(2,3,4)]]
  by (auto simp: pack_entries_def)

lemma pack_ok_after:
  assumes "lib_ok L" and "pack_ok L before" and "distinct (map Path updates)"
    and "list_all (accepted L) updates" and "updateObjects L before updates = Inr after"
  shows "pack_ok L after"
proof -
  let ?out = "update_out L before updates"
  note es = pack_entries_after[OF assms]
  have "entry_of (object_of (entry_of ob)) = entry_of ob \<and> entry_ok L (entry_of ob)" if "ob \<in> set ?out" for ob
    using that not_Deleted_update_out[OF assms(3) that] accepted_update_out[OF assms(2,3,4)]
    by (auto simp: object_of_entry_of entry_of_stored list_all_iff accepted_def intro: entry_of_ok)
  moreover have "map entry_name (pack_entries L after) = map Path ?out"
    by (simp add: es(1))
  ultimately show ?thesis
    using es distinct_update_out[OF pack_okD(2)[OF assms(2)], of updates]
    by (auto simp: pack_ok_def pack_entries_def list_all_iff comp_def split: prod.splits)
qed

lemma map_of_by_key:
  "distinct (map k xs) \<Longrightarrow> map_of (map (\<lambda>x. (k x, f x)) xs) p = Some v \<longleftrightarrow> (\<exists>x \<in> set xs. k x = p \<and> f x = v)"
  by (subst map_of_eq_Some_iff) (auto simp: comp_def)

theorem updateObjects_refines:
  assumes "lib_ok L" and "pack_ok L before" and "distinct (map Path updates)"
    and "list_all (accepted L) updates" and "updateObjects L before updates = Inr after"
  shows "pack_contents L after = apply_updates updates (pack_contents L before) \<and> pack_ok L after"
proof
  let ?out = "update_out L before updates"
  have dis: "distinct (map Path ?out)" by (rule distinct_update_out[OF pack_okD(2)[OF assms(2)]])
  have after: "pack_contents L after p = Some v \<longleftrightarrow> (\<exists>ob \<in> set ?out. Path ob = p \<and> stored ob = v)" for p v
  proof -
    have "map (\<lambda>e. (entry_name e, object_of e)) (pack_entries L after) = map (\<lambda>ob. (Path ob, stored ob)) ?out"
      using not_Deleted_update_out[OF assms(3)] by (simp add: pack_entries_after(1)[OF assms] object_of_entry_of)
    then show ?thesis by (simp add: pack_contents_def map_of_by_key[OF dis])
  qed
  have before: "pack_contents L before p = Some v \<longleftrightarrow>
      (\<exists>e \<in> set (pack_entries L before). entry_name e = p \<and> object_of e = v)" for p v
    by (simp add: pack_contents_def map_of_by_key[OF pack_okD(2)[OF assms(2)]])
  show "pack_contents L after = apply_updates updates (pack_contents L before)"
  proof
    fix p
    have "pack_contents L after p = Some v \<longleftrightarrow> apply_updates updates (pack_contents L before) p = Some v" for v
    proof (cases "findUpdate updates p")
      case None
      then show ?thesis
        unfolding after apply_updates_def set_update_out[OF assms(3)]
        using stored_object_of[OF pack_okD(3)[OF assms(2)]] findUpdate_None_iff[of updates p]
        by (fastforce simp: before bex_Un)
    next
      case (Some u)
      then have u: "u \<in> set updates" "Path u = p" by (simp_all add: findUpdate_Some_iff[OF assms(3)])
      have uniq: "ob = u" if "ob \<in> set updates" "Path ob = p" for ob
        using that u assms(3) by (metis distinct_map_inj_on_set)
      have "ob = u" if "ob \<in> set ?out" "Path ob = p" for ob
        using that Some by (auto simp: set_update_out[OF assms(3)] intro: uniq)
      moreover have "u \<in> set ?out" if "\<not> Deleted u"
        using that u(1) by (simp add: set_update_out[OF assms(3)])
      ultimately have "(\<exists>ob \<in> set ?out. Path ob = p \<and> stored ob = v) \<longleftrightarrow> \<not> Deleted u \<and> stored u = v"
        using u(2) not_Deleted_update_out[OF assms(3)] by metis
      then show ?thesis using Some by (simp add: after apply_updates_def)
    qed
    then show "pack_contents L after p = apply_updates updates (pack_contents L before) p"
      by (metis not_Some_eq)
  qed
  show "pack_ok L after" by (rule pack_ok_after[OF assms])
qed

theorem updateObjects_idempotent:
  assumes "lib_ok L" and "pack_ok L before" and "distinct (map Path updates)"
    and "list_all (accepted L) updates" and "updateObjects L before updates = Inr after"
  shows "updateObjects L after updates = Inr after"
proof -
  let ?us = "sort_key Path updates" and ?out = "update_out L before updates"
  have f: "findUpdate ?us p = findUpdate updates p" for p
    by (rule findUpdate_perm[OF assms(3)]) simp
  have cell: "(case findUpdate ?us (h_Name (fst (entry_of ob))) of
      Some u \<Rightarrow> (if Deleted u then [] else [u]) | None \<Rightarrow> [object_of (entry_of ob)]) = [ob]"
    if ob: "ob \<in> set ?out" for ob
  proof (cases "ob \<in> set updates")
    case True
    then have "findUpdate updates (Path ob) = Some ob" by (simp add: findUpdate_Some_iff[OF assms(3)])
    then show ?thesis using not_Deleted_update_out[OF assms(3) ob] by (simp add: f flip: entry_name_def)
  next
    case False
    then obtain e where e: "ob = object_of e" "e \<in> set (pack_entries L before)"
      "findUpdate updates (entry_name e) = None"
      using ob by (auto simp: set_update_out[OF assms(3)])
    then have "object_of (entry_of ob) = ob" by (simp add: pack_okD(3)[OF assms(2)])
    with e show ?thesis by (simp add: f flip: entry_name_def)
  qed
  have w: "walk ?us (pack_entries L after) = ?out"
    unfolding walk_def pack_entries_after(1)[OF assms] map_map comp_def
    by (subst map_cong[OF refl cell]) simp_all
  have "set (fresh (rev (map Path ?out)) ?us) = {}"
    by (auto simp: set_fresh[OF distinct_sort_paths[OF assms(3)]] set_update_out[OF assms(3)])
  then have "update_out L after updates = ?out"
    by (simp add: update_out_def[of L after] w Let_def) (simp add: pack_entries_after(1)[OF assms] comp_def)
  then show ?thesis
    using assms(5) updateObjects_Inr[OF assms(2,3,4)] updateObjects_Inr[OF pack_ok_after[OF assms] assms(3,4)]
    by simp
qed

end
