(* ===== verification/Content.thy ===== *)
theory Content
  imports TarPack "HOL-Library.AList"
begin

text \<open>
  \<^verbatim>\<open>internal/db/content.go\<close>: content hashes and their hexadecimal form, the compressing encoder
  and decoder with the buffers they reuse between calls, and the content lookup with its
  in-memory cache in front of the \<^verbatim>\<open>dl.contents\<close> table.

  The cache (ristretto) may refuse to keep a value; \<open>adm\<close> says which values it admits. The
  lemmas show that the cache is invisible: whatever it admitted, a lookup returns what the
  table holds.
\<close>

section \<open>Hashes\<close>

record Hash =
  H1 :: bytes
  H2 :: bytes

definition HashContent :: "lib \<Rightarrow> bytes \<Rightarrow> Hash" where
  "HashContent L data = (let sha = sha256 L data in \<lparr>H1 = take 16 sha, H2 = take 16 (drop 16 sha)\<rparr>)"

definition Hash_Bytes :: "Hash \<Rightarrow> bytes" where
  "Hash_Bytes h = H1 h @ H2 h"

definition zeroHash :: Hash where
  "zeroHash = \<lparr>H1 = replicate 16 (CHR 0x00), H2 = replicate 16 (CHR 0x00)\<rparr>"

definition hextable :: string where
  "hextable = ''0123456789abcdef''"

definition byte_hex :: "byte \<Rightarrow> string" where
  "byte_hex v = (let n = of_char v :: nat in [hextable ! (n div 16), hextable ! (n mod 16)])"

definition Hex :: "Hash \<Rightarrow> string" where
  "Hex h = concat (map byte_hex (H1 h)) @ concat (map byte_hex (H2 h))"

text \<open>\<^verbatim>\<open>encoding/hex\<close>'s \<open>EncodeToString\<close>, which the client uses on the same hashes.\<close>

definition EncodeToString :: "bytes \<Rightarrow> string" where
  "EncodeToString b = concat (map byte_hex b)"

section \<open>Encoder and decoder\<close>

record content_encoder =
  ce_buffer :: bytes

definition NewContentEncoder :: content_encoder where
  "NewContentEncoder = \<lparr>ce_buffer = []\<rparr>"

definition Encode :: "lib \<Rightarrow> content_encoder \<Rightarrow> bytes \<Rightarrow> content_encoder \<times> bytes" where
  "Encode L c content =
     (let tmpOutput = ce_buffer c @ s2_encode L content
      in (c\<lparr>ce_buffer := []\<rparr>, tmpOutput))"

record content_decoder =
  cd_buffer :: bytes

definition Decode :: "lib \<Rightarrow> content_decoder \<Rightarrow> bytes \<Rightarrow> content_decoder \<times> (dberr + bytes)" where
  "Decode L c encoded =
     (let c = c\<lparr>cd_buffer := []\<rparr> in
      case s2_decode L encoded of
        None \<Rightarrow> (c, Inl ErrDecode)
      | Some out \<Rightarrow> (let c = c\<lparr>cd_buffer := cd_buffer c @ out\<rparr> in (c, Inr (cd_buffer c))))"

section \<open>Lookup\<close>

type_synonym contents_table = "(Hash \<times> bytes) list"
type_synonym content_cache = "string \<Rightarrow> bytes option"

definition cacheSize :: "string \<Rightarrow> int" where
  "cacheSize cacheSizeEnv =
     (if cacheSizeEnv \<noteq> '''' then (case ParseInt cacheSizeEnv of Some n \<Rightarrow> n | None \<Rightarrow> 1000) else 1000)"

definition read_value :: "lib \<Rightarrow> content_decoder \<Rightarrow> bool \<Rightarrow> bytes \<Rightarrow> content_decoder \<times> (dberr + bytes)" where
  "read_value L d isEncoded value = (if isEncoded then Decode L d value else (d, Inr value))"

text \<open>The loop over the hashes: serve what the cache has, collect what it has not.\<close>

fun lookup_cached :: "lib \<Rightarrow> content_decoder \<Rightarrow> content_cache \<Rightarrow> (Hash \<times> bool) list \<Rightarrow>
    (Hash \<times> bytes) list \<Rightarrow> Hash list \<Rightarrow> content_decoder \<times> (dberr + (Hash \<times> bytes) list \<times> Hash list)" where
  "lookup_cached L d cache [] contents notFound = (d, Inr (contents, notFound))"
| "lookup_cached L d cache ((h, isEncoded) # hs) contents notFound =
     (case cache (Hex h) of
        Some value \<Rightarrow>
          (case read_value L d isEncoded value of
             (d', Inl e) \<Rightarrow> (d', Inl e)
           | (d', Inr c) \<Rightarrow> lookup_cached L d' cache hs (AList.update h c contents) notFound)
      | None \<Rightarrow> lookup_cached L d cache hs contents (notFound @ [h]))"

text \<open>The loop over the rows of the query for the hashes not found.\<close>

fun lookup_rows :: "lib \<Rightarrow> (string \<Rightarrow> bytes \<Rightarrow> bool) \<Rightarrow> content_decoder \<Rightarrow> content_cache \<Rightarrow> (Hash \<times> bool) list \<Rightarrow>
    contents_table \<Rightarrow> (Hash \<times> bytes) list \<Rightarrow> content_cache \<times> (dberr + (Hash \<times> bytes) list)" where
  "lookup_rows L adm d cache hashes [] contents = (cache, Inr contents)"
| "lookup_rows L adm d cache hashes ((h, value) # rows) contents =
     (let cache' = (if adm (Hex h) value then cache(Hex h \<mapsto> value) else cache) in
      case read_value L d (map_of hashes h = Some True) value of
        (d', Inl e) \<Rightarrow> (cache', Inl e)
      | (d', Inr c) \<Rightarrow> lookup_rows L adm d' cache' hashes rows (AList.update h c contents))"

definition Lookup :: "lib \<Rightarrow> (string \<Rightarrow> bytes \<Rightarrow> bool) \<Rightarrow> content_cache \<Rightarrow> contents_table \<Rightarrow> (Hash \<times> bool) list \<Rightarrow>
    content_cache \<times> (dberr + (Hash \<times> bytes) list)" where
  "Lookup L adm cache table hashes =
     (case lookup_cached L \<lparr>cd_buffer = []\<rparr> cache hashes [] [] of
        (d, Inl e) \<Rightarrow> (cache, Inl e)
      | (d, Inr (contents, notFound)) \<Rightarrow>
          if length notFound > 0 then
            lookup_rows L adm d cache hashes (filter (\<lambda>r. fst r \<in> set notFound) table) contents
          else (cache, Inr contents))"

definition RandomContents :: "(contents_table \<Rightarrow> contents_table) \<Rightarrow> contents_table \<Rightarrow> Hash list" where
  "RandomContents sample table = map fst (sample table)"

section \<open>Hexadecimal form\<close>

definition hash_ok :: "Hash \<Rightarrow> bool" where
  "hash_ok h \<longleftrightarrow> length (H1 h) = 16 \<and> length (H2 h) = 16"

lemma HashContent_ok: "lib_ok L \<Longrightarrow> hash_ok (HashContent L b)"
  by (simp add: lib_ok_def hash_ok_def HashContent_def Let_def)

lemma zeroHash_ok [simp]: "hash_ok zeroHash"
  by (simp add: hash_ok_def zeroHash_def)

lemma Hex_EncodeToString: "Hex h = EncodeToString (Hash_Bytes h)"
  by (simp add: Hex_def EncodeToString_def Hash_Bytes_def)

lemma hextable_inj: "i < 16 \<Longrightarrow> j < 16 \<Longrightarrow> hextable ! i = hextable ! j \<longleftrightarrow> i = j"
proof -
  have "distinct hextable" "length hextable = 16" by (simp_all add: hextable_def)
  then show "i < 16 \<Longrightarrow> j < 16 \<Longrightarrow> hextable ! i = hextable ! j \<longleftrightarrow> i = j"
    by (simp add: nth_eq_iff_index_eq)
qed

lemma byte_hex_inj: "byte_hex a = byte_hex b \<longleftrightarrow> a = b"
proof
  assume h: "byte_hex a = byte_hex b"
  let ?m = "of_char a :: nat" and ?n = "of_char b :: nat"
  have "?m < 256" "?n < 256" by simp_all
  with h have "?m div 16 = ?n div 16" "?m mod 16 = ?n mod 16"
    by (auto simp: byte_hex_def Let_def hextable_inj)
  then have "?m = ?n" by (metis div_mult_mod_eq)
  then show "a = b" by simp
qed simp

lemma length_byte_hex [simp]: "length (byte_hex b) = 2"
  by (simp add: byte_hex_def Let_def)

lemma EncodeToString_inj: "EncodeToString a = EncodeToString b \<Longrightarrow> a = b"
proof (induction a arbitrary: b)
  case Nil
  then show ?case by (cases b) (auto simp: EncodeToString_def byte_hex_def Let_def)
next
  case (Cons x xs)
  then obtain y ys where b: "b = y # ys"
    by (cases b) (auto simp: EncodeToString_def byte_hex_def Let_def)
  with Cons.prems have "byte_hex x @ EncodeToString xs = byte_hex y @ EncodeToString ys"
    by (simp add: EncodeToString_def)
  then have "byte_hex x = byte_hex y \<and> EncodeToString xs = EncodeToString ys"
    by (subst (asm) append_eq_append_conv) auto
  with Cons.IH b show ?case by (simp add: byte_hex_inj)
qed

text \<open>Distinct hashes never share a cache key or a directory of the client's object cache.\<close>

lemma Hex_inj: "hash_ok h \<Longrightarrow> hash_ok k \<Longrightarrow> Hex h = Hex k \<Longrightarrow> h = k"
proof -
  assume ok: "hash_ok h" "hash_ok k" and eq: "Hex h = Hex k"
  then have "H1 h @ H2 h = H1 k @ H2 k"
    by (metis EncodeToString_inj Hash_Bytes_def Hex_EncodeToString)
  with ok show "h = k" by (auto simp: hash_ok_def)
qed

section \<open>Buffers\<close>

lemma Encode_Decode:
  assumes "lib_ok L" and "ce_buffer c = []"
  shows "snd (Decode L d (snd (Encode L c content))) = Inr content"
    and "ce_buffer (fst (Encode L c content)) = []"
  using assms by (simp_all add: Encode_def Decode_def lib_ok_def Let_def)

lemma Decode_result: "snd (Decode L d b) = (case s2_decode L b of None \<Rightarrow> Inl ErrDecode | Some c \<Rightarrow> Inr c)"
  by (simp add: Decode_def Let_def split: option.splits)

section \<open>The cache is invisible\<close>

text \<open>What the caller should get for a hash: the table's bytes, decoded if asked.\<close>

definition table_content :: "lib \<Rightarrow> contents_table \<Rightarrow> Hash \<Rightarrow> bool \<Rightarrow> bytes option" where
  "table_content L table h isEncoded =
     (case map_of table h of
        None \<Rightarrow> None
      | Some v \<Rightarrow> (if isEncoded then s2_decode L v else Some v))"

text \<open>
  The cache agrees with the table where both know a hash. It may still know a hash whose row
  has been garbage collected.
\<close>

definition coherent :: "content_cache \<Rightarrow> contents_table \<Rightarrow> bool" where
  "coherent cache table \<longleftrightarrow>
     (\<forall>h v w. hash_ok h \<longrightarrow> cache (Hex h) = Some v \<longrightarrow> map_of table h = Some w \<longrightarrow> v = w)"

definition readable :: "lib \<Rightarrow> content_cache \<Rightarrow> contents_table \<Rightarrow> (Hash \<times> bool) list \<Rightarrow> bool" where
  "readable L cache table hashes \<longleftrightarrow>
     (\<forall>h \<in> fst ` set hashes. hash_ok h) \<and>
     (\<forall>(h, isEncoded) \<in> set hashes. isEncoded \<longrightarrow>
        (\<forall>v. map_of table h = Some v \<or> cache (Hex h) = Some v \<longrightarrow> s2_decode L v \<noteq> None))"


definition value_of :: "lib \<Rightarrow> bool \<Rightarrow> bytes \<Rightarrow> bytes option" where
  "value_of L isEncoded v = (if isEncoded then s2_decode L v else Some v)"

lemma table_content_value: "table_content L table h e = Option.bind (map_of table h) (value_of L e)"
  by (simp add: table_content_def value_of_def split: option.splits)

lemma read_value_ok: "value_of L e v = Some c \<Longrightarrow> \<exists>d'. read_value L d e v = (d', Inr c)"
  by (auto simp: read_value_def value_of_def Decode_def Let_def split: if_splits)

lemma lookup_cached_correct:
  assumes "distinct (map fst hs)"
    and "\<And>h e v. (h, e) \<in> set hs \<Longrightarrow> cache (Hex h) = Some v \<Longrightarrow> value_of L e v \<noteq> None"
  shows "\<exists>d' cs. lookup_cached L d cache hs acc nf
      = (d', Inr (cs, nf @ map fst (filter (\<lambda>p. cache (Hex (fst p)) = None) hs))) \<and>
    (\<forall>h. map_of cs h = (case (map_of hs h, cache (Hex h)) of
        (Some e, Some v) \<Rightarrow> value_of L e v | _ \<Rightarrow> map_of acc h))"
  using assms
proof (induction hs arbitrary: d acc nf)
  case Nil
  then show ?case by simp
next
  case (Cons p hs)
  obtain h e where p: "p = (h, e)" by (cases p)
  have hs: "map_of hs h = None" using Cons.prems(1) by (simp add: p map_of_eq_None_iff)
  have sub: "value_of L e v \<noteq> None" if "(h, e) \<in> set hs" "cache (Hex h) = Some v" for h e v
    using Cons.prems(2)[of h e v] that by simp
  have IH: "\<exists>d' cs. lookup_cached L d cache hs acc nf
      = (d', Inr (cs, nf @ map fst (filter (\<lambda>p. cache (Hex (fst p)) = None) hs))) \<and>
    (\<forall>h. map_of cs h = (case (map_of hs h, cache (Hex h)) of
        (Some e, Some v) \<Rightarrow> value_of L e v | _ \<Rightarrow> map_of acc h))" for d acc nf
    by (rule Cons.IH) (use Cons.prems(1) sub in auto)
  show ?case
  proof (cases "cache (Hex h)")
    case None
    with IH[of d acc "nf @ [h]"] Cons.prems(1) hs p show ?thesis
      by (fastforce split: option.splits)
  next
    case (Some v)
    then obtain c where c: "value_of L e v = Some c" using Cons.prems(2)[of h e v] p by auto
    obtain d' where "read_value L d e v = (d', Inr c)" using read_value_ok[OF c] by blast
    with Some p have step: "lookup_cached L d cache (p # hs) acc nf
        = lookup_cached L d' cache hs (AList.update h c acc) nf" by simp
    from IH[of d' "AList.update h c acc" nf] Cons.prems(1) obtain d'' cs where
      r: "lookup_cached L d' cache hs (AList.update h c acc) nf
        = (d'', Inr (cs, nf @ map fst (filter (\<lambda>p. cache (Hex (fst p)) = None) hs)))"
      and m: "\<And>k. map_of cs k = (case (map_of hs k, cache (Hex k)) of
        (Some e, Some v) \<Rightarrow> value_of L e v | _ \<Rightarrow> map_of (AList.update h c acc) k)" by auto
    have "map_of cs k = (case (map_of (p # hs) k, cache (Hex k)) of
        (Some e, Some v) \<Rightarrow> value_of L e v | _ \<Rightarrow> map_of acc k)" for k
      using hs p c Some by (auto simp: m AList.update_conv' split: option.splits)
    with r step Some p show ?thesis by simp
  qed
qed

lemma lookup_rows_correct:
  assumes "distinct (map fst rows)"
    and "\<And>h v. (h, v) \<in> set rows \<Longrightarrow> value_of L (map_of hashes h = Some True) v \<noteq> None"
  shows "\<exists>cs. snd (lookup_rows L adm d cache hashes rows acc) = Inr cs \<and>
    (\<forall>h. map_of cs h = (case map_of rows h of
        Some v \<Rightarrow> value_of L (map_of hashes h = Some True) v | None \<Rightarrow> map_of acc h))"
  using assms
proof (induction rows arbitrary: d cache acc)
  case Nil
  then show ?case by simp
next
  case (Cons p rows)
  obtain h v where p: "p = (h, v)" by (cases p)
  let ?e = "map_of hashes h = Some True"
  obtain c where c: "value_of L ?e v = Some c" using Cons.prems(2)[of h v] p by auto
  obtain d' where d': "read_value L d ?e v = (d', Inr c)" using read_value_ok[OF c] by blast
  let ?cache = "if adm (Hex h) v then cache(Hex h \<mapsto> v) else cache"
  from Cons.IH[of d' ?cache "AList.update h c acc"] Cons.prems obtain cs where
    r: "snd (lookup_rows L adm d' ?cache hashes rows (AList.update h c acc)) = Inr cs"
    and m: "\<And>k. map_of cs k = (case map_of rows k of
        Some v \<Rightarrow> value_of L (map_of hashes k = Some True) v | None \<Rightarrow> map_of (AList.update h c acc) k)"
    by auto
  have "map_of rows h = None" using Cons.prems(1) by (simp add: p map_of_eq_None_iff)
  then have "map_of cs k = (case map_of (p # rows) k of
      Some v \<Rightarrow> value_of L (map_of hashes k = Some True) v | None \<Rightarrow> map_of acc k)" for k
    using c p by (auto simp: m AList.update_conv' split: option.splits)
  with r d' p show ?case by (simp add: Let_def)
qed

lemma lookup_rows_coherent:
  assumes "coherent cache table" and "set rows \<subseteq> set table" and "distinct (map fst table)"
    and "\<And>h. h \<in> fst ` set table \<Longrightarrow> hash_ok h"
  shows "coherent (fst (lookup_rows L adm d cache hashes rows acc)) table"
  using assms(1,2)
proof (induction rows arbitrary: d cache acc)
  case Nil
  then show ?case by simp
next
  case (Cons p rows)
  obtain h v where p: "p = (h, v)" by (cases p)
  let ?cache = "if adm (Hex h) v then cache(Hex h \<mapsto> v) else cache"
  have "(h, v) \<in> set table" using Cons.prems(2) by (simp add: p)
  then have v: "map_of table h = Some v" "hash_ok h"
    using assms(3) assms(4)[of h] by (simp_all add: rev_image_eqI)
  have "coherent ?cache table"
    unfolding coherent_def
  proof (intro allI impI)
    fix k x w assume k: "hash_ok k" "?cache (Hex k) = Some x" "map_of table k = Some w"
    show "x = w"
    proof (cases "Hex k = Hex h")
      case True
      with Hex_inj k(1) v(2) have "k = h" by blast
      with k v Cons.prems(1) show ?thesis by (auto simp: coherent_def split: if_splits)
    next
      case False
      with k Cons.prems(1) show ?thesis by (auto simp: coherent_def split: if_splits)
    qed
  qed
  moreover have "set rows \<subseteq> set table" using Cons.prems(2) by simp
  ultimately have IH: "coherent (fst (lookup_rows L adm d' ?cache hashes rows acc')) table" for d' acc'
    using Cons.IH by blast
  show ?case
  proof (cases "read_value L d (map_of hashes h = Some True) v")
    case (Pair d' r)
    with IH \<open>coherent ?cache table\<close> show ?thesis by (cases r) (simp_all only: p lookup_rows.simps Let_def prod.case sum.case fst_conv)
  qed
qed

theorem Lookup_table:
  assumes "distinct (map fst hashes)" and "distinct (map fst table)"
    and "\<And>h. h \<in> fst ` set table \<Longrightarrow> hash_ok h"
    and "coherent cache table" and "readable L cache table hashes"
  shows "\<exists>cache' cs. Lookup L adm cache table hashes = (cache', Inr cs) \<and> coherent cache' table \<and>
    (\<forall>h e. (h, e) \<in> set hashes \<longrightarrow> map_of table h \<noteq> None \<or> cache (Hex h) = None \<longrightarrow>
       map_of cs h = table_content L table h e)"
proof -
  have cval: "value_of L e v \<noteq> None" if "(h, e) \<in> set hashes" "cache (Hex h) = Some v" for h e v
    using that assms(5) by (auto simp: readable_def value_of_def)
  obtain d cs nf where c: "lookup_cached L \<lparr>cd_buffer = []\<rparr> cache hashes [] [] = (d, Inr (cs, nf))"
    and nf: "nf = map fst (filter (\<lambda>p. cache (Hex (fst p)) = None) hashes)"
    and m: "\<And>h. map_of cs h = (case (map_of hashes h, cache (Hex h)) of
        (Some e, Some v) \<Rightarrow> value_of L e v | _ \<Rightarrow> None)"
  proof -
    have "\<exists>d' cs. lookup_cached L \<lparr>cd_buffer = []\<rparr> cache hashes [] []
      = (d', Inr (cs, [] @ map fst (filter (\<lambda>p. cache (Hex (fst p)) = None) hashes))) \<and>
      (\<forall>h. map_of cs h = (case (map_of hashes h, cache (Hex h)) of
        (Some e, Some v) \<Rightarrow> value_of L e v | _ \<Rightarrow> map_of [] h))"
      by (rule lookup_cached_correct) (use assms(1) cval in auto)
    then obtain d' cs where "lookup_cached L \<lparr>cd_buffer = []\<rparr> cache hashes [] []
      = (d', Inr (cs, map fst (filter (\<lambda>p. cache (Hex (fst p)) = None) hashes)))"
      "\<And>h. map_of cs h = (case (map_of hashes h, cache (Hex h)) of
        (Some e, Some v) \<Rightarrow> value_of L e v | _ \<Rightarrow> map_of [] h)" by auto
    then show ?thesis by (intro that[OF _ refl]) (simp_all cong: option.case_cong)
  qed
  let ?rows = "filter (\<lambda>r. fst r \<in> set nf) table"
  have mrows: "map_of ?rows h = (if h \<in> set nf then map_of table h else None)" for h
    by (induction table) auto
  have enc: "map_of hashes h = Some e" if "(h, e) \<in> set hashes" for h e
    using that assms(1) by simp
  have rval: "value_of L (map_of hashes h = Some True) v \<noteq> None" if "(h, v) \<in> set ?rows" for h v
  proof -
    from that assms(2) have "map_of table h = Some v" by simp
    with assms(5) show ?thesis
      by (auto simp: value_of_def readable_def dest: map_of_SomeD)
  qed
  have hit: "map_of cs h = table_content L table h e"
    if "(h, e) \<in> set hashes" "map_of table h \<noteq> None" "h \<notin> set nf" for h e
  proof -
    from that enc[OF that(1)] nf obtain v where v: "cache (Hex h) = Some v" by force
    with that assms(4,5) have "map_of table h = Some v"
      by (auto simp: coherent_def readable_def image_iff)
    with v enc[OF that(1)] show ?thesis by (simp add: m table_content_value)
  qed
  show ?thesis
  proof (cases "nf = []")
    case True
    then have "cache (Hex h) \<noteq> None" if "(h, e) \<in> set hashes" for h e
      using that nf by (force simp: filter_empty_conv)
    then have "map_of cs h = table_content L table h e"
      if "(h, e) \<in> set hashes" "map_of table h \<noteq> None \<or> cache (Hex h) = None" for h e
      using that hit[of h e] True by fastforce
    with True c show ?thesis by (auto simp: Lookup_def assms(4))
  next
    case False
    have dis: "distinct (map fst ?rows)" using assms(2) by (simp add: distinct_map_filter)
    obtain ct cs' where r: "lookup_rows L adm d cache hashes ?rows cs = (ct, Inr cs')"
      and m': "\<And>h. map_of cs' h = (case map_of ?rows h of
        Some v \<Rightarrow> value_of L (map_of hashes h = Some True) v | None \<Rightarrow> map_of cs h)"
      using lookup_rows_correct[OF dis rval, of adm d cache cs]
      by (cases "lookup_rows L adm d cache hashes ?rows cs") auto
    have "coherent ct table"
      using lookup_rows_coherent[OF assms(4) _ assms(2,3), of ?rows L adm d hashes cs] r by auto
    moreover have "map_of cs' h = table_content L table h e"
      if "(h, e) \<in> set hashes" "map_of table h \<noteq> None \<or> cache (Hex h) = None" for h e
    proof (cases "h \<in> set nf")
      case True
      then have "cache (Hex h) = None" using nf by auto
      with True enc[OF that(1)] show ?thesis
        by (auto simp: m' mrows m table_content_value split: option.splits)
    next
      case False
      then have "cache (Hex h) \<noteq> None" using that(1) nf by force
      with False that hit show ?thesis by (auto simp: m' mrows)
    qed
    ultimately show ?thesis using c r False by (auto simp: Lookup_def)
  qed
qed

section \<open>What a lookup returns\<close>

text \<open>
  The bytes known for a hash, from the cache or the table. A lookup may move bytes from the
  table to the cache; it never changes what is known.
\<close>

definition content_at :: "content_cache \<Rightarrow> contents_table \<Rightarrow> Hash \<Rightarrow> bytes option" where
  "content_at cache table h = (case cache (Hex h) of Some v \<Rightarrow> Some v | None \<Rightarrow> map_of table h)"

lemma lookup_rows_content_at:
  assumes "distinct (map fst table)" and "\<And>h. h \<in> fst ` set table \<Longrightarrow> hash_ok h"
    and "set rows \<subseteq> set table" and "\<And>h. h \<in> fst ` set rows \<Longrightarrow> content_at cache table h = map_of table h"
    and "hash_ok k"
  shows "content_at (fst (lookup_rows L adm d cache hashes rows acc)) table k = content_at cache table k"
  using assms(3,4)
proof (induction rows arbitrary: d cache acc)
  case Nil
  then show ?case by simp
next
  case (Cons p rows)
  obtain h v where p: "p = (h, v)" by (cases p)
  let ?cache = "if adm (Hex h) v then cache(Hex h \<mapsto> v) else cache"
  have hv: "(h, v) \<in> set table" using Cons.prems(1) by (simp add: p)
  then have v: "map_of table h = Some v" "hash_ok h"
    using assms(1) assms(2)[of h] by (simp_all add: rev_image_eqI)
  have at: "content_at ?cache table x = content_at cache table x" if "hash_ok x" for x
  proof (cases "Hex x = Hex h")
    case True
    then have "x = h" using Hex_inj that v(2) by blast
    with Cons.prems(2)[of h] p v(1) show ?thesis by (simp add: content_at_def)
  next
    case False
    then show ?thesis by (simp add: content_at_def)
  qed
  have sub: "set rows \<subseteq> set table" using Cons.prems(1) by simp
  have "content_at ?cache table x = map_of table x" if "x \<in> fst ` set rows" for x
  proof -
    have "hash_ok x" using assms(2) sub that by blast
    then show ?thesis using at[of x] Cons.prems(2)[of x] that by (simp add: p)
  qed
  then have IH: "content_at (fst (lookup_rows L adm d' ?cache hashes rows acc')) table k = content_at ?cache table k" for d' acc'
    using Cons.IH[OF sub] by blast
  show ?case
  proof (cases "read_value L d (map_of hashes h = Some True) v")
    case (Pair d' r)
    then show ?thesis using IH at[OF assms(5)]
      by (cases r) (simp_all only: p lookup_rows.simps Let_def prod.case sum.case fst_conv)
  qed
qed

lemma Lookup_content:
  assumes "distinct (map fst hashes)" and "distinct (map fst table)"
    and "\<And>h. h \<in> fst ` set table \<Longrightarrow> hash_ok h" 
    and "\<And>h e v. (h, e) \<in> set hashes \<Longrightarrow> content_at cache table h = Some v \<Longrightarrow> value_of L e v \<noteq> None"
  shows "\<exists>cache' cs. Lookup L adm cache table hashes = (cache', Inr cs) \<and>
    (\<forall>k. hash_ok k \<longrightarrow> content_at cache' table k = content_at cache table k) \<and>
    (\<forall>h e. (h, e) \<in> set hashes \<longrightarrow> map_of cs h = Option.bind (content_at cache table h) (value_of L e))"
proof -
  have "\<exists>d' cs. lookup_cached L \<lparr>cd_buffer = []\<rparr> cache hashes [] []
      = (d', Inr (cs, [] @ map fst (filter (\<lambda>p. cache (Hex (fst p)) = None) hashes))) \<and>
      (\<forall>h. map_of cs h = (case (map_of hashes h, cache (Hex h)) of
        (Some e, Some v) \<Rightarrow> value_of L e v | _ \<Rightarrow> map_of [] h))"
    by (rule lookup_cached_correct) (use assms(1,4) in \<open>auto simp: content_at_def\<close>)
  then obtain d cs nf where c: "lookup_cached L \<lparr>cd_buffer = []\<rparr> cache hashes [] [] = (d, Inr (cs, nf))"
    and nf: "nf = map fst (filter (\<lambda>p. cache (Hex (fst p)) = None) hashes)"
    and m: "\<And>h. map_of cs h = (case (map_of hashes h, cache (Hex h)) of
        (Some e, Some v) \<Rightarrow> value_of L e v | _ \<Rightarrow> map_of [] h)" by auto
  have enc: "map_of hashes h = Some e" if "(h, e) \<in> set hashes" for h e using that assms(1) by simp
  have hit: "map_of cs h = Option.bind (content_at cache table h) (value_of L e)"
    if "(h, e) \<in> set hashes" "h \<notin> set nf" for h e
  proof -
    from that(1,2) nf obtain v where v: "cache (Hex h) = Some v" by force
    with enc[OF that(1)] show ?thesis by (simp add: m content_at_def)
  qed
  let ?rows = "filter (\<lambda>r. fst r \<in> set nf) table"
  have mrows: "map_of ?rows h = (if h \<in> set nf then map_of table h else None)" for h
    by (induction table) auto
  have miss: "cache (Hex h) = None" if "h \<in> set nf" for h using that nf by auto
  show ?thesis
  proof (cases "nf = []")
    case True
    with c hit show ?thesis by (intro exI[of _ cache] exI[of _ cs]) (simp add: Lookup_def)
  next
    case False
    have dis: "distinct (map fst ?rows)" using assms(2) by (simp add: distinct_map_filter)
    have rval: "value_of L (map_of hashes h = Some True) v \<noteq> None" if hv: "(h, v) \<in> set ?rows" for h v
    proof -
      have "map_of table h = Some v" "h \<in> set nf" using hv assms(2) by simp_all
      moreover from this obtain e where "(h, e) \<in> set hashes" using nf by auto
      ultimately show ?thesis
        using assms(4)[of h e v] miss[of h] enc[of h e] by (cases e) (simp_all add: content_at_def value_of_def)
    qed
    obtain ct cs' where r: "lookup_rows L adm d cache hashes ?rows cs = (ct, Inr cs')"
      and m': "\<And>h. map_of cs' h = (case map_of ?rows h of
        Some v \<Rightarrow> value_of L (map_of hashes h = Some True) v | None \<Rightarrow> map_of cs h)"
      using lookup_rows_correct[OF dis rval, of adm d cache cs]
      by (cases "lookup_rows L adm d cache hashes ?rows cs") auto
    have "content_at cache table h = map_of table h" if "h \<in> fst ` set ?rows" for h
    proof -
      have "cache (Hex h) = None" using that miss by auto
      then show ?thesis by (simp add: content_at_def)
    qed
    then have "content_at ct table k = content_at cache table k" if "hash_ok k" for k
      using lookup_rows_content_at[OF assms(2,3) _ _ that, of ?rows cache L adm d hashes cs] r by simp
    moreover have "map_of cs' h = Option.bind (content_at cache table h) (value_of L e)" if he: "(h, e) \<in> set hashes" for h e
    proof (cases "h \<in> set nf")
      case True
      then have "map_of cs h = None" using miss[OF True] by (simp add: m split: option.splits)
      with True enc[OF he] miss[OF True] show ?thesis
        by (cases e) (simp_all add: m' mrows content_at_def value_of_def split: option.splits)
    next
      case False
      then show ?thesis using hit[OF he] by (simp add: m' mrows)
    qed
    ultimately show ?thesis using c r False by (intro exI[of _ ct] exI[of _ cs']) (simp add: Lookup_def)
  qed
qed

end
