(* ===== verification/Tables.thy ===== *)
theory Tables
  imports Content
begin

text \<open>
  The database schema of \<^verbatim>\<open>migrations/\<close>: projects, versioned object rows, contents and cache
  versions, the three unique indexes on \<^verbatim>\<open>dl.objects\<close>, and the statements the Go code sends
  (insert, insert ignoring conflicts, update, delete) as operations on it. On top of the rows
  stand the notions the properties are phrased with: the rows live at a version, the snapshot
  of a project at a version, and rewinding a project's rows to a version.
\<close>

section \<open>Rows\<close>

record project_row =
  p_id :: int
  latest_version :: int
  pack_patterns :: "string list option"

record object_row =
  o_project :: int
  o_start :: int
  o_stop :: "int option"
  o_path :: string
  o_hash :: Hash
  o_mode :: int
  o_size :: int
  o_packed :: bool

record DB =
  projects :: "project_row list"
  objects :: "object_row list"
  contents :: contents_table
  cache_versions :: "(int \<times> Hash list) list"
  cache_seq :: int

definition empty_DB :: DB where
  "empty_DB = \<lparr>projects = [], objects = [], contents = [], cache_versions = [], cache_seq = 0\<rparr>"

section \<open>Unique indexes\<close>

text \<open>
  A key with a NULL column conflicts with nothing, so \<open>objects_idx\<close> and \<open>objects_latest_idx\<close>
  constrain the stopped rows only; \<open>identical_objects_idx\<close> is restricted to the live ones.
\<close>

definition objects_idx :: "object_row \<Rightarrow> (int \<times> int \<times> int \<times> string) option" where
  "objects_idx r = map_option (\<lambda>t. (o_project r, o_start r, t, o_path r)) (o_stop r)"

definition objects_latest_idx :: "object_row \<Rightarrow> (int \<times> int \<times> string) option" where
  "objects_latest_idx r = map_option (\<lambda>t. (o_project r, t, o_path r)) (o_stop r)"

definition identical_objects_idx :: "object_row \<Rightarrow> (int \<times> string \<times> Hash \<times> int) option" where
  "identical_objects_idx r =
     (if o_stop r = None then Some (o_project r, o_path r, o_hash r, o_mode r) else None)"

definition clash :: "('a \<Rightarrow> 'k option) \<Rightarrow> 'a \<Rightarrow> 'a \<Rightarrow> bool" where
  "clash key r s \<longleftrightarrow> key r \<noteq> None \<and> key r = key s"

definition conflicts :: "object_row \<Rightarrow> object_row \<Rightarrow> bool" where
  "conflicts r s \<longleftrightarrow> clash objects_idx r s \<or> clash objects_latest_idx r s \<or> clash identical_objects_idx r s"

definition unique_ok :: "object_row list \<Rightarrow> bool" where
  "unique_ok rs = sorted_wrt (\<lambda>r s. \<not> conflicts r s) rs"

section \<open>Statements\<close>

definition set_objects :: "object_row list \<Rightarrow> (DB, unit) dbm" where
  "set_objects rs db = (if unique_ok rs then (db\<lparr>objects := rs\<rparr>, Inr ()) else (db, Inl ErrUnique))"

text \<open>\<^verbatim>\<open>UPDATE dl.objects SET ... WHERE ...\<close>\<close>

definition update_objects :: "(object_row \<Rightarrow> bool) \<Rightarrow> (object_row \<Rightarrow> object_row) \<Rightarrow> (DB, unit) dbm" where
  "update_objects sel upd db = set_objects (map (\<lambda>r. if sel r then upd r else r) (objects db)) db"

definition delete_objects :: "(object_row \<Rightarrow> bool) \<Rightarrow> (DB, unit) dbm" where
  "delete_objects sel db = (db\<lparr>objects := filter (\<lambda>r. \<not> sel r) (objects db)\<rparr>, Inr ())"

definition insert_objects :: "object_row list \<Rightarrow> (DB, unit) dbm" where
  "insert_objects rs db = set_objects (objects db @ rs) db"

text \<open>\<^verbatim>\<open>INSERT ... ON CONFLICT DO NOTHING\<close>, row by row; the result says how many rows went in.\<close>

definition insert_or_ignore :: "object_row \<Rightarrow> object_row list \<Rightarrow> object_row list" where
  "insert_or_ignore r rs = (if list_ex (\<lambda>s. conflicts s r) rs then rs else rs @ [r])"

definition insert_ignore :: "object_row \<Rightarrow> (DB, bool) dbm" where
  "insert_ignore r db =
     (db\<lparr>objects := insert_or_ignore r (objects db)\<rparr>, Inr (\<not> list_ex (\<lambda>s. conflicts s r) (objects db)))"

definition insert_content :: "Hash \<Rightarrow> bytes \<Rightarrow> (DB, unit) dbm" where
  "insert_content h b db =
     (if map_of (contents db) h = None then (db\<lparr>contents := contents db @ [(h, b)]\<rparr>, Inr ()) else (db, Inr ()))"

definition update_projects :: "(project_row \<Rightarrow> bool) \<Rightarrow> (project_row \<Rightarrow> project_row) \<Rightarrow> (DB, unit) dbm" where
  "update_projects sel upd db =
     (db\<lparr>projects := map (\<lambda>r. if sel r then upd r else r) (projects db)\<rparr>, Inr ())"

definition find_project :: "DB \<Rightarrow> int \<Rightarrow> project_row option" where
  "find_project db p = find (\<lambda>r. p_id r = p) (projects db)"

text \<open>
  Ending a transaction without a commit. Contents are inserted on a connection of their own, so
  the ones added meanwhile survive.
\<close>

definition rollback_tx :: "DB \<Rightarrow> DB \<Rightarrow> DB" where
  "rollback_tx before now =
     before\<lparr>contents := contents before @ filter (\<lambda>c. fst c \<notin> fst ` set (contents before)) (contents now)\<rparr>"

section \<open>Versions\<close>

definition live_at :: "int \<Rightarrow> object_row \<Rightarrow> bool" where
  "live_at v r \<longleftrightarrow> o_start r \<le> v \<and> (case o_stop r of None \<Rightarrow> True | Some t \<Rightarrow> v < t)"

definition live :: "object_row \<Rightarrow> bool" where
  "live r \<longleftrightarrow> o_stop r = None"

type_synonym dlfile = "string \<times> Hash \<times> int \<times> int \<times> bool"

definition row_file :: "object_row \<Rightarrow> dlfile" where
  "row_file r = (o_path r, o_hash r, o_mode r, o_size r, o_packed r)"

definition snapshot :: "object_row list \<Rightarrow> int \<Rightarrow> int \<Rightarrow> dlfile set" where
  "snapshot rs p v = row_file ` {r \<in> set rs. o_project r = p \<and> live_at v r}"

definition reopen :: "int \<Rightarrow> object_row \<Rightarrow> object_row" where
  "reopen n r = (case o_stop r of None \<Rightarrow> r | Some t \<Rightarrow> if t > n then r\<lparr>o_stop := None\<rparr> else r)"

text \<open>The rows of a project as they were when its latest version was \<open>n\<close>.\<close>

definition rewind :: "int \<Rightarrow> int \<Rightarrow> object_row list \<Rightarrow> object_row list" where
  "rewind p n rs =
     map (\<lambda>r. if o_project r = p then reopen n r else r) (filter (\<lambda>r. \<not> (o_project r = p \<and> o_start r > n)) rs)"

text \<open>Two rows of one path hold at disjoint version intervals.\<close>

definition compat :: "object_row \<Rightarrow> object_row \<Rightarrow> bool" where
  "compat r s \<longleftrightarrow> o_project r = o_project s \<and> o_path r = o_path s \<longrightarrow>
     (\<exists>t. o_stop r = Some t \<and> t \<le> o_start s) \<or> (\<exists>t. o_stop s = Some t \<and> t \<le> o_start r)"

lemma compat_code [code]:
  "compat r s \<longleftrightarrow> (o_project r = o_project s \<and> o_path r = o_path s \<longrightarrow>
     (case o_stop r of None \<Rightarrow> False | Some t \<Rightarrow> t \<le> o_start s) \<or> (case o_stop s of None \<Rightarrow> False | Some t \<Rightarrow> t \<le> o_start r))"
  by (auto simp: compat_def split: option.splits)

definition row_within :: "int \<Rightarrow> object_row \<Rightarrow> bool" where
  "row_within n r \<longleftrightarrow> 1 \<le> o_start r \<and> o_start r \<le> n \<and>
     (case o_stop r of None \<Rightarrow> True | Some t \<Rightarrow> o_start r < t \<and> t \<le> n)"

text \<open>The invariant of the database between transactions.\<close>

definition latest_of :: "DB \<Rightarrow> int \<Rightarrow> int" where
  "latest_of db p = (case find_project db p of None \<Rightarrow> 0 | Some r \<Rightarrow> latest_version r)"

definition db_ok :: "DB \<Rightarrow> bool" where
  "db_ok db \<longleftrightarrow>
     distinct (map p_id (projects db)) \<and>
     sorted_wrt compat (objects db) \<and>
     list_all (\<lambda>r. row_within (latest_of db (o_project r)) r) (objects db)"

section \<open>Facts about rows\<close>

lemmas version_defs = live_at_def live_def reopen_def

lemma row_fields_reopen [row_simps, simp]:
  "o_project (reopen n r) = o_project r" "o_path (reopen n r) = o_path r"
  "o_start (reopen n r) = o_start r" "row_file (reopen n r) = row_file r"
  by (auto simp: reopen_def row_file_def split: option.splits)

lemma row_file_stop [row_simps, simp]: "row_file (r\<lparr>o_stop := t\<rparr>) = row_file r"
  by (simp add: row_file_def)

lemma live_at_reopen: "w \<le> n \<Longrightarrow> live_at w (reopen n r) = live_at w r"
  by (auto simp: version_defs split: option.splits)

lemma live_at_latest: "row_within n r \<Longrightarrow> live_at n r \<longleftrightarrow> live r"
  by (auto simp: row_within_def version_defs split: option.splits)

lemma row_within_mono: "row_within n r \<Longrightarrow> n \<le> m \<Longrightarrow> row_within m r"
  by (auto simp: row_within_def split: option.splits)

lemma reopen_id: "row_within n r \<Longrightarrow> reopen n r = r"
  by (auto simp: row_within_def reopen_def split: option.splits)

lemma row_within_reopen: "row_within m r \<Longrightarrow> o_start r \<le> n \<Longrightarrow> row_within n (reopen n r)"
  by (auto simp: row_within_def reopen_def split: option.splits)

lemma compat_sym: "compat r s \<Longrightarrow> compat s r"
  by (auto simp: compat_def)

lemma compat_not_conflicts:
  "compat r s \<Longrightarrow> row_within m r \<Longrightarrow> row_within n s \<Longrightarrow> \<not> conflicts r s"
  by (auto simp: conflicts_def clash_def compat_def row_within_def objects_idx_def objects_latest_idx_def
      identical_objects_idx_def split: option.splits if_splits)

lemma compat_reopen:
  assumes "compat r s" and "o_start r \<le> n" and "o_start s \<le> n"
  shows "compat (reopen n r) (reopen n s)"
  using assms by (auto simp: compat_def reopen_def split: option.splits)

lemma compat_live_at:
  "compat r s \<Longrightarrow> o_project r = o_project s \<Longrightarrow> o_path r = o_path s \<Longrightarrow> live_at v r \<Longrightarrow> \<not> live_at v s"
  by (auto simp: compat_def live_at_def split: option.splits)

lemma sorted_wrt_both:
  assumes "sorted_wrt R xs" and "\<And>x y. R x y \<Longrightarrow> R y x" and "x \<in> set xs" "y \<in> set xs" "x \<noteq> y"
  shows "R x y"
  using assms by (induction xs) auto

lemma unique_okI:
  assumes "sorted_wrt compat rs" and "\<And>r. r \<in> set rs \<Longrightarrow> \<exists>n. row_within n r"
  shows "unique_ok rs"
  unfolding unique_ok_def
  by (rule sorted_wrt_mono_rel[OF _ assms(1)]) (meson assms(2) compat_not_conflicts)

section \<open>Facts about rewinding\<close>

lemma rewind_simps [simp]:
  "rewind p n [] = []" "rewind p n (xs @ ys) = rewind p n xs @ rewind p n ys"
  by (simp_all add: rewind_def)

lemma rewind_Cons:
  "rewind p n (r # rs) = (if o_project r = p then (if o_start r > n then [] else [reopen n r]) else [r]) @ rewind p n rs"
  by (simp add: rewind_def)

lemma rewind_id:
  "(\<And>r. r \<in> set rs \<Longrightarrow> o_project r = p \<Longrightarrow> row_within n r) \<Longrightarrow> rewind p n rs = rs"
proof (induction rs)
  case (Cons r rs)
  then have "rewind p n rs = rs" by simp
  moreover have "o_project r = p \<Longrightarrow> row_within n r" using Cons.prems by simp
  ultimately show ?case by (auto simp: rewind_Cons reopen_id row_within_def)
qed simp

lemma rewind_above: "(\<And>r. r \<in> set rs \<Longrightarrow> o_project r = p \<and> o_start r > n) \<Longrightarrow> rewind p n rs = []"
  by (induction rs) (auto simp: rewind_Cons)

text \<open>Closing rows of the project at a later version leaves no trace after rewinding.\<close>

lemma rewind_stop:
  assumes "\<And>r. r \<in> set rs \<Longrightarrow> sel r \<Longrightarrow> o_project r = p \<and> o_stop r = None" and "v > n"
  shows "rewind p n (map (\<lambda>r. if sel r then r\<lparr>o_stop := Some v\<rparr> else r) rs) = rewind p n rs"
  using assms(1)
proof (induction rs)
  case (Cons r rs)
  then have "rewind p n (map (\<lambda>r. if sel r then r\<lparr>o_stop := Some v\<rparr> else r) rs) = rewind p n rs" by simp
  with Cons.prems[of r] assms(2) show ?case by (auto simp: rewind_Cons reopen_def)
qed simp

lemma in_rewind:
  "r \<in> set (rewind p n rs) \<longleftrightarrow>
     (\<exists>s \<in> set rs. \<not> (o_project s = p \<and> o_start s > n) \<and> r = (if o_project s = p then reopen n s else s))"
  unfolding rewind_def set_map set_filter image_iff by blast

lemma snapshot_rewind: "w \<le> n \<Longrightarrow> snapshot (rewind p n rs) p w = snapshot rs p w"
proof -
  assume w: "w \<le> n"
  have "{r \<in> set (rewind p n rs). o_project r = p \<and> live_at w r}
      = reopen n ` {r \<in> set rs. o_project r = p \<and> live_at w r}"
  proof (intro set_eqI iffI)
    fix x assume "x \<in> {r \<in> set (rewind p n rs). o_project r = p \<and> live_at w r}"
    then obtain s where "s \<in> set rs" "x = reopen n s" "o_project s = p" "live_at w (reopen n s)"
      unfolding mem_Collect_eq in_rewind by (metis row_fields_reopen(1))
    then show "x \<in> reopen n ` {r \<in> set rs. o_project r = p \<and> live_at w r}"
      using w by (simp add: live_at_reopen)
  next
    fix x assume "x \<in> reopen n ` {r \<in> set rs. o_project r = p \<and> live_at w r}"
    then obtain r where r: "x = reopen n r" "r \<in> set rs" "o_project r = p" "live_at w r" by blast
    moreover have "\<not> o_start r > n" using w r(4) by (simp add: live_at_def)
    ultimately show "x \<in> {r \<in> set (rewind p n rs). o_project r = p \<and> live_at w r}"
      unfolding mem_Collect_eq in_rewind using w by (metis live_at_reopen row_fields_reopen(1))
  qed
  then show ?thesis by (simp add: snapshot_def image_image)
qed

lemma snapshot_rewind_other: "q \<noteq> p \<Longrightarrow> snapshot (rewind p n rs) q w = snapshot rs q w"
proof -
  assume "q \<noteq> p"
  then have "{r \<in> set (rewind p n rs). o_project r = q \<and> live_at w r}
      = {r \<in> set rs. o_project r = q \<and> live_at w r}"
    by (fastforce simp: in_rewind split: if_splits)
  then show ?thesis by (simp add: snapshot_def)
qed

lemma snapshot_append: "snapshot (xs @ ys) p v = snapshot xs p v \<union> snapshot ys p v"
  by (auto simp: snapshot_def)

lemma snapshot_filter_other:
  "(\<And>r. r \<in> set rs \<Longrightarrow> o_project r = p \<Longrightarrow> live_at v r \<Longrightarrow> P r) \<Longrightarrow> snapshot (filter P rs) p v = snapshot rs p v"
  by (auto simp: snapshot_def)

section \<open>Facts about the invariant\<close>

lemma db_okD:
  assumes "db_ok db"
  shows "distinct (map p_id (projects db))" and "sorted_wrt compat (objects db)"
    and "r \<in> set (objects db) \<Longrightarrow> row_within (latest_of db (o_project r)) r"
  using assms by (auto simp: db_ok_def list_all_iff)

lemma db_ok_unique: "db_ok db \<Longrightarrow> unique_ok (objects db)"
  by (rule unique_okI) (auto simp: db_ok_def list_all_iff)

lemma db_ok_same_row:
  assumes "db_ok db" and "r \<in> set (objects db)" "s \<in> set (objects db)"
    and "o_project r = o_project s" "o_path r = o_path s" "live_at v r" "live_at v s"
  shows "r = s"
  using sorted_wrt_both[OF db_okD(2)[OF assms(1)] compat_sym, of r s] compat_live_at[of r s v] assms by blast

text \<open>A snapshot has at most one file per path.\<close>

lemma db_ok_snapshot_functional:
  assumes "db_ok db" and "(q, a) \<in> snapshot (objects db) p v" "(q, b) \<in> snapshot (objects db) p v"
  shows "a = b"
proof -
  obtain r s where "r \<in> set (objects db)" "s \<in> set (objects db)" "o_project r = p" "o_project s = p"
    "live_at v r" "live_at v s" and f: "row_file r = (q, a)" "row_file s = (q, b)"
    using assms(2,3) by (auto simp: snapshot_def)
  then have "r = s" using db_ok_same_row[OF assms(1), of r s v] by (simp add: row_file_def)
  with f show ?thesis by simp
qed

lemma find_project_Some: "find_project db p = Some r \<Longrightarrow> r \<in> set (projects db) \<and> p_id r = p"
  by (auto simp: find_project_def find_Some_iff)

lemma find_project_None: "find_project db p = None \<longleftrightarrow> p \<notin> p_id ` set (projects db)"
  by (auto simp: find_project_def find_None_iff)

lemma find_map_key:
  "(\<And>r. p_id (f r) = p_id r) \<Longrightarrow> find (\<lambda>r. p_id r = p) (map f rs) = map_option f (find (\<lambda>r. p_id r = p) rs)"
  by (induction rs) auto

lemma db_ok_no_rows: "db_ok db \<Longrightarrow> find_project db (o_project r) = None \<Longrightarrow> r \<notin> set (objects db)"
  using db_okD(3)[of db r] by (auto simp: latest_of_def row_within_def)

lemma empty_DB_ok: "db_ok empty_DB"
  by (simp add: db_ok_def empty_DB_def)

end
