(* ===== verification/Projects.thy ===== *)
theory Projects
  imports Tables
begin

text \<open>
  \<^verbatim>\<open>internal/db/project.go\<close>, \<^verbatim>\<open>inspect.go\<close>, and the version range of \<^verbatim>\<open>query.go\<close>: creating,
  deleting, listing and sampling projects, reading and locking the latest version, and
  comparing pack patterns.
\<close>

section \<open>Operations\<close>

definition CreateProject :: "int \<Rightarrow> string list option \<Rightarrow> (DB, unit) dbm" where
  "CreateProject project packPatterns db =
     (if find_project db project \<noteq> None then (db, Inl ErrProjectExists)
      else (db\<lparr>projects := projects db @
              [\<lparr>p_id = project, latest_version = 0, pack_patterns = packPatterns\<rparr>]\<rparr>, Inr ()))"

definition DeleteProject :: "int \<Rightarrow> (DB, unit) dbm" where
  "DeleteProject project =
     andThen (delete_objects (\<lambda>r. o_project r = project))
       (\<lambda>_ db. (db\<lparr>projects := filter (\<lambda>r. p_id r \<noteq> project) (projects db)\<rparr>, Inr ()))"

definition ListProjects :: "(DB, (int \<times> int) list) dbm" where
  "ListProjects db = (db, Inr (map (\<lambda>r. (p_id r, latest_version r)) (projects db)))"

text \<open>
  \<open>TABLESAMPLE BERNOULLI\<close> picks rows at random: \<open>sample i\<close> is the choice of the \<open>i\<close>-th attempt.
\<close>

fun random_projects :: "nat \<Rightarrow> nat \<Rightarrow> (nat \<Rightarrow> int \<Rightarrow> bool) \<Rightarrow> DB \<Rightarrow> int list \<Rightarrow> int list" where
  "random_projects 0 i sample db acc = acc"
| "random_projects (Suc n) i sample db acc =
     (let acc' = acc @ filter (sample i) (map p_id (projects db))
      in if length acc' > 0 then acc' else random_projects n (Suc i) sample db acc')"

definition RandomProjects :: "(nat \<Rightarrow> int \<Rightarrow> bool) \<Rightarrow> (DB, int list) dbm" where
  "RandomProjects sample db = (db, Inr (random_projects 5 0 sample db []))"

definition getLatestVersion :: "int \<Rightarrow> (DB, int) dbm" where
  "getLatestVersion project db =
     (db, case find_project db project of None \<Rightarrow> Inl ErrNotFound | Some r \<Rightarrow> Inr (latest_version r))"

definition LockLatestVersion :: "int \<Rightarrow> (DB, int) dbm" where
  "LockLatestVersion project db =
     (db, case find_project db project of None \<Rightarrow> Inl ErrNotFound | Some r \<Rightarrow> Inr (latest_version r))"

definition coalesced_patterns :: "DB \<Rightarrow> int \<Rightarrow> string list" where
  "coalesced_patterns db project =
     (case Option.bind (find_project db project) pack_patterns of None \<Rightarrow> [] | Some ps \<Rightarrow> ps)"

definition HasSamePackPattern :: "int \<Rightarrow> int \<Rightarrow> (DB, bool) dbm" where
  "HasSamePackPattern project_1 project_2 db =
     (db, Inr (coalesced_patterns db project_1 = coalesced_patterns db project_2))"

definition TotalObjectsCount :: "int \<Rightarrow> (DB, int) dbm" where
  "TotalObjectsCount project db =
     (db, Inr (int (length (filter (\<lambda>r. o_project r = project) (objects db)))))"

record VersionRange =
  From :: int
  To :: int

definition NewVersionRange :: "int \<Rightarrow> int option \<Rightarrow> int option \<Rightarrow> (DB, VersionRange) dbm" where
  "NewVersionRange project from to =
     (let f = (case from of None \<Rightarrow> 0 | Some x \<Rightarrow> x) in
      case to of
        None \<Rightarrow> andThen (getLatestVersion project) (\<lambda>latest. ret \<lparr>From = f, To = latest\<rparr>)
      | Some t \<Rightarrow> ret \<lparr>From = f, To = t\<rparr>)"

definition UpdateLatestVersion :: "int \<Rightarrow> int \<Rightarrow> (DB, unit) dbm" where
  "UpdateLatestVersion project version =
     update_projects (\<lambda>r. p_id r = project) (\<lambda>r. r\<lparr>latest_version := version\<rparr>)"

section \<open>Facts\<close>

lemma latest_of_append_project:
  "find_project db p = None \<Longrightarrow> p_id r = p \<Longrightarrow>
   latest_of (db\<lparr>projects := projects db @ [r]\<rparr>) q = (if q = p then latest_version r else latest_of db q)"
  by (auto simp: latest_of_def find_project_def find_append_case split: option.splits)

lemma latest_of_UpdateLatestVersion:
  assumes "UpdateLatestVersion p v db = (db', r)"
  shows "latest_of db' q = (if q = p \<and> find_project db p \<noteq> None then v else latest_of db q)"
    and "objects db' = objects db" "contents db' = contents db"
    and "map p_id (projects db') = map p_id (projects db)"
    and "find_project db' q = map_option (\<lambda>r. if p_id r = p then r\<lparr>latest_version := v\<rparr> else r) (find_project db q)"
proof -
  have db': "db' = db\<lparr>projects := map (\<lambda>r. if p_id r = p then r\<lparr>latest_version := v\<rparr> else r) (projects db)\<rparr>"
    using assms by (simp add: UpdateLatestVersion_def update_projects_def)
  show f: "find_project db' q = map_option (\<lambda>r. if p_id r = p then r\<lparr>latest_version := v\<rparr> else r) (find_project db q)" for q
    unfolding db' find_project_def by (simp add: find_map_key)
  show "latest_of db' q = (if q = p \<and> find_project db p \<noteq> None then v else latest_of db q)"
  proof (cases "find_project db q")
    case (Some r)
    then have "p_id r = q" using find_project_Some by blast
    with Some show ?thesis by (auto simp: latest_of_def f)
  qed (auto simp: latest_of_def f)
  show "objects db' = objects db" "contents db' = contents db" by (simp_all add: db')
  show "map p_id (projects db') = map p_id (projects db)" by (simp add: db')
qed

lemma CreateProject_ok:
  assumes "db_ok db" and "CreateProject p pats db = (db', r)"
  shows "db_ok db'"
proof (cases "find_project db p")
  case None
  with assms(2) have db': "db' = db\<lparr>projects := projects db @ [\<lparr>p_id = p, latest_version = 0, pack_patterns = pats\<rparr>]\<rparr>"
    by (simp add: CreateProject_def)
  have "latest_of db' (o_project s) = latest_of db (o_project s)" if "s \<in> set (objects db)" for s
  proof -
    have "o_project s \<noteq> p" using db_ok_no_rows[OF assms(1), of s] that None by auto
    then show ?thesis unfolding db' by (subst latest_of_append_project[OF None]) simp_all
  qed
  then show ?thesis
    using assms(1) None unfolding db_ok_def list_all_iff
    by (auto simp: db' find_project_None)
qed (use assms in \<open>auto simp: CreateProject_def\<close>)

lemma DeleteProject_eq:
  "DeleteProject p db = (db\<lparr>objects := filter (\<lambda>r. o_project r \<noteq> p) (objects db),
     projects := filter (\<lambda>r. p_id r \<noteq> p) (projects db)\<rparr>, Inr ())"
  by (simp add: DeleteProject_def andThen_def delete_objects_def)

lemma find_filter_other: "q \<noteq> p \<Longrightarrow> find (\<lambda>r. p_id r = q) (filter (\<lambda>r. p_id r \<noteq> p) rs) = find (\<lambda>r. p_id r = q) rs"
  by (induction rs) auto

lemma DeleteProject_ok: "db_ok db \<Longrightarrow> db_ok (fst (DeleteProject p db))"
  by (auto simp: db_ok_def DeleteProject_eq list_all_iff sorted_wrt_filter distinct_map_filter latest_of_def
      find_project_def find_filter_other)

lemma random_projects_set: "set (random_projects n i sample db acc) \<subseteq> set acc \<union> p_id ` set (projects db)"
proof (induction n arbitrary: i acc)
  case (Suc n)
  let ?acc = "acc @ filter (sample i) (map p_id (projects db))"
  have "set ?acc \<subseteq> set acc \<union> p_id ` set (projects db)" by auto
  with Suc[of "Suc i" ?acc] show ?case by (auto simp only: random_projects.simps Let_def split: if_splits)
qed simp

end
