(* ===== verification/Versioning.thy ===== *)
theory Versioning
  imports Projects
begin

text \<open>
  The contract of the operations that write a new version of a project: they leave the past
  alone. Rewinding to the version before gives the same rows as before the operation, the
  other tables keep their rows, contents only grow. What every client of such an operation
  relies on (old snapshots are stable, other projects are untouched, contents stay readable)
  is proved once from it.
\<close>

locale version_writer =
  fixes wr :: "(DB, 'a) dbm" and p :: int and v :: int
  assumes past: "wr db = (db', r) \<Longrightarrow> rewind p (v - 1) (objects db') = rewind p (v - 1) (objects db)"
    and frame: "wr db = (db', r) \<Longrightarrow>
      projects db' = projects db \<and> cache_versions db' = cache_versions db \<and> cache_seq db' = cache_seq db"
    and grows: "wr db = (db', r) \<Longrightarrow> map_of (contents db) \<subseteq>\<^sub>m map_of (contents db')"
begin

lemma history: "wr db = (db', r) \<Longrightarrow> w < v \<Longrightarrow> snapshot (objects db') p w = snapshot (objects db) p w"
  using snapshot_rewind[of w "v - 1" p "objects db'"] snapshot_rewind[of w "v - 1" p "objects db"] past by simp

lemma others: "wr db = (db', r) \<Longrightarrow> q \<noteq> p \<Longrightarrow> snapshot (objects db') q w = snapshot (objects db) q w"
  using snapshot_rewind_other[of q p "v - 1" "objects db'" w] snapshot_rewind_other[of q p "v - 1" "objects db" w] past
  by simp

lemma content_kept: "wr db = (db', r) \<Longrightarrow> map_of (contents db) h = Some b \<Longrightarrow> map_of (contents db') h = Some b"
  using grows[of db db' r] by (auto simp: map_le_def dom_def)

lemma same_project: "wr db = (db', r) \<Longrightarrow> find_project db' q = find_project db q"
  using frame by (simp add: find_project_def)

end

lemma version_writer_ret: "version_writer (ret a) p v"
  by unfold_locales auto

lemma version_writer_fail: "version_writer (fail e) p v"
  by unfold_locales auto

lemma version_writer_andThen:
  assumes "version_writer m p v" and "\<And>a. version_writer (f a) p v"
  shows "version_writer (andThen m f) p v"
proof
  fix db db' r assume run: "andThen m f db = (db', r)"
  obtain d x where m: "m db = (d, x)" by (cases "m db")
  note M = version_writer.past[OF assms(1) m] version_writer.frame[OF assms(1) m] version_writer.grows[OF assms(1) m]
  have "rewind p (v - 1) (objects db') = rewind p (v - 1) (objects db) \<and>
    (projects db' = projects db \<and> cache_versions db' = cache_versions db \<and> cache_seq db' = cache_seq db) \<and>
    map_of (contents db) \<subseteq>\<^sub>m map_of (contents db')"
  proof (cases x)
    case (Inl e)
    with run m M show ?thesis by (simp add: andThen_def)
  next
    case (Inr a)
    with run m have "f a d = (db', r)" by (simp add: andThen_def)
    with M version_writer.past[OF assms(2) this] version_writer.frame[OF assms(2) this]
      version_writer.grows[OF assms(2) this] show ?thesis by (metis map_le_trans)
  qed
  then show "rewind p (v - 1) (objects db') = rewind p (v - 1) (objects db)"
    and "projects db' = projects db \<and> cache_versions db' = cache_versions db \<and> cache_seq db' = cache_seq db"
    and "map_of (contents db) \<subseteq>\<^sub>m map_of (contents db')" by simp_all
qed

lemma version_writer_foldM:
  "(\<And>x a. version_writer (f x a) p v) \<Longrightarrow> version_writer (foldM f xs a) p v"
  by (induction xs arbitrary: a) (auto intro: version_writer_ret version_writer_andThen)

lemma version_writer_insert_content: "version_writer (insert_content h b) p v"
  by unfold_locales (auto simp: insert_content_def map_le_def map_add_def split: if_splits option.splits)

text \<open>Closing live rows of the project at version \<open>v\<close>, and inserting rows that start at \<open>v\<close>.\<close>

lemma version_writer_stop:
  assumes "\<And>r. sel r \<Longrightarrow> o_project r = p \<and> o_stop r = None"
  shows "version_writer (update_objects sel (\<lambda>r. r\<lparr>o_stop := Some v\<rparr>)) p v"
proof
  fix db db' r assume run: "update_objects sel (\<lambda>r. r\<lparr>o_stop := Some v\<rparr>) db = (db', r)"
  show "rewind p (v - 1) (objects db') = rewind p (v - 1) (objects db)"
    using run rewind_stop[of "objects db" sel p "v - 1" v] assms
    by (auto simp: update_objects_def set_objects_def split: if_splits)
qed (auto simp: update_objects_def set_objects_def split: if_splits)

lemma version_writer_insert_ignore:
  "o_project r = p \<Longrightarrow> o_start r = v \<Longrightarrow> version_writer (insert_ignore r) p v"
  by unfold_locales (auto simp: insert_ignore_def insert_or_ignore_def rewind_Cons)

lemma version_writer_insert:
  "(\<And>r. r \<in> set rs \<Longrightarrow> o_project r = p \<and> o_start r = v) \<Longrightarrow> version_writer (insert_objects rs) p v"
  by unfold_locales (auto simp: insert_objects_def set_objects_def rewind_above split: if_splits)

lemmas version_writer_intros = version_writer_ret version_writer_fail version_writer_andThen version_writer_foldM
  version_writer_insert_content version_writer_stop version_writer_insert_ignore version_writer_insert

end
