(* ===== verification/Updates.thy ===== *)
theory Updates
  imports Versioning
begin

text \<open>
  \<^verbatim>\<open>internal/db/update.go\<close>: deleting an object, updating an object, updating a packed object,
  each as a write of one new version of a project. The operations meet the contract of
  \<open>Versioning\<close>, and they implement a specification on the set of live files: what a delete, an
  update and a pack update do to a project's head.
\<close>

section \<open>Operations\<close>

definition DeleteObject :: "int \<Rightarrow> int \<Rightarrow> string \<Rightarrow> (DB, unit) dbm" where
  "DeleteObject project version path =
     update_objects (\<lambda>r. o_project r = project \<and> o_path r = path \<and> o_stop r = None)
       (\<lambda>r. r\<lparr>o_stop := Some version\<rparr>)"

definition previousPaths :: "string \<Rightarrow> string list" where
  "previousPaths path =
     (let pathChunks = Split path (CHR ''/'') in
      path # map (\<lambda>i. Join (take i pathChunks) ''/'' @ ''/'') [1..<length pathChunks])"

definition UpdateObject ::
    "lib \<Rightarrow> content_encoder \<Rightarrow> int \<Rightarrow> int \<Rightarrow> pb_object \<Rightarrow> (DB, content_encoder \<times> bool) dbm" where
  "UpdateObject L encoder project version ob =
     (let content = nil_bytes (Content ob);
          hash = HashContent L content;
          (encoder', encoded) = Encode L encoder content in
      andThen (insert_content hash encoded) (\<lambda>_.
      andThen (insert_ignore \<lparr>o_project = project, o_start = version, o_stop = None, o_path = Path ob,
                 o_hash = hash, o_mode = Mode ob, o_size = Size ob, o_packed = False\<rparr>) (\<lambda>inserted.
      let isIdentical = \<not> inserted in
      if isIdentical then ret (encoder', False)
      else
        andThen (update_objects
            (\<lambda>r. o_project r = project \<and> o_path r \<in> set (previousPaths (Path ob)) \<and> o_stop r = None
                 \<and> o_start r \<noteq> version)
            (\<lambda>r. r\<lparr>o_stop := Some version\<rparr>)) (\<lambda>_.
        ret (encoder', True)))))"

text \<open>The live packed row of a parent joined with its content; the zero hash and no bytes if there is none.\<close>

definition existing_pack :: "DB \<Rightarrow> int \<Rightarrow> string \<Rightarrow> Hash \<times> bytes" where
  "existing_pack db project parent =
     (case find (\<lambda>r. o_project r = project \<and> o_path r = parent \<and> o_packed r \<and> o_stop r = None
                     \<and> map_of (contents db) (o_hash r) \<noteq> None) (objects db) of
        None \<Rightarrow> (zeroHash, [])
      | Some r \<Rightarrow> (o_hash r, the (map_of (contents db) (o_hash r))))"

text \<open>The batch that replaces the packed row, with the insertion of its content before it.\<close>

definition write_pack :: "lib \<Rightarrow> int \<Rightarrow> int \<Rightarrow> string \<Rightarrow> bool \<Rightarrow> bytes \<Rightarrow> (DB, bool) dbm" where
  "write_pack L project version parent shouldInsert updated =
     (let newHash = HashContent L updated in
      andThen (if shouldInsert then insert_content newHash updated else ret ()) (\<lambda>_.
      andThen (update_objects
          (\<lambda>r. o_project r = project \<and> o_path r = parent \<and> o_packed r \<and> o_stop r = None)
          (\<lambda>r. r\<lparr>o_stop := Some version\<rparr>)) (\<lambda>_.
      andThen (if shouldInsert then
          insert_objects [\<lparr>o_project = project, o_start = version, o_stop = None, o_path = parent,
            o_hash = newHash, o_mode = 0, o_size = int (length updated), o_packed = True\<rparr>]
        else ret ()) (\<lambda>_.
      ret True))))"

definition UpdatePackedObjects ::
    "lib \<Rightarrow> int \<Rightarrow> int \<Rightarrow> string \<Rightarrow> pb_object list \<Rightarrow> (DB, bool) dbm" where
  "UpdatePackedObjects L project version parent updates db =
     (let (hash, content) = existing_pack db project parent in
      case (case updateObjects L content updates of
              Inr updated \<Rightarrow> Inr (True, updated)
            | Inl e \<Rightarrow> if e = ErrEmptyPack then Inr (False, []) else Inl e) of
        Inl e \<Rightarrow> fail e db
      | Inr (shouldInsert, updated) \<Rightarrow>
          if hash = HashContent L updated then ret False db
          else write_pack L project version parent shouldInsert updated db)"

section \<open>The operations write one version\<close>

lemma UpdateObject_writer: "version_writer (UpdateObject L enc p v ob) p v"
  unfolding UpdateObject_def Let_def
  by (auto split: prod.splits if_splits intro!: version_writer_intros)

lemma write_pack_writer: "version_writer (write_pack L p v parent i u) p v"
  unfolding write_pack_def Let_def by (auto intro!: version_writer_intros)

lemma UpdatePackedObjects_cases:
  obtains (failed) e where "UpdatePackedObjects L p v parent us db = (db, Inl e)"
  | (same) "UpdatePackedObjects L p v parent us db = (db, Inr False)"
  | (written) i u where "UpdatePackedObjects L p v parent us db = write_pack L p v parent i u db"
proof -
  obtain h c where e: "existing_pack db p parent = (h, c)" by (cases "existing_pack db p parent")
  let ?c = "case updateObjects L c us of Inr updated \<Rightarrow> Inr (True, updated)
            | Inl e \<Rightarrow> if e = ErrEmptyPack then Inr (False, []) else Inl e"
  show ?thesis
  proof (cases "?c")
    case (Inl x)
    with failed show ?thesis unfolding UpdatePackedObjects_def e Let_def by simp
  next
    case (Inr iu)
    then show ?thesis
      using same written unfolding UpdatePackedObjects_def e Let_def
      by (cases iu; cases "h = HashContent L (snd iu)") simp_all
  qed
qed

lemma UpdatePackedObjects_writer: "version_writer (UpdatePackedObjects L p v parent us) p v"
proof
  fix db db' r assume a: "UpdatePackedObjects L p v parent us db = (db', r)"
  have "rewind p (v - 1) (objects db') = rewind p (v - 1) (objects db) \<and>
    (projects db' = projects db \<and> cache_versions db' = cache_versions db \<and> cache_seq db' = cache_seq db) \<and>
    map_of (contents db) \<subseteq>\<^sub>m map_of (contents db')"
  proof (cases rule: UpdatePackedObjects_cases[of L p v parent us db])
    case (written i u)
    with a have w: "write_pack L p v parent i u db = (db', r)" by simp
    show ?thesis
      using version_writer.past[OF write_pack_writer w] version_writer.frame[OF write_pack_writer w]
        version_writer.grows[OF write_pack_writer w] by blast
  qed (use a in auto)
  then show "rewind p (v - 1) (objects db') = rewind p (v - 1) (objects db)"
    and "projects db' = projects db \<and> cache_versions db' = cache_versions db \<and> cache_seq db' = cache_seq db"
    and "map_of (contents db) \<subseteq>\<^sub>m map_of (contents db')" by blast+
qed

interpretation del: version_writer "DeleteObject p v path" p v for p v path
  unfolding DeleteObject_def by (rule version_writer_stop) simp

interpretation upo: version_writer "UpdateObject L enc p v ob" p v for L enc p v ob
  by (rule UpdateObject_writer)

interpretation pck: version_writer "UpdatePackedObjects L p v parent us" p v for L p v parent us
  by (rule UpdatePackedObjects_writer)

section \<open>Which rows an update replaces\<close>

text \<open>A path replaces itself and the (empty) directories it lies in.\<close>

definition covers :: "string \<Rightarrow> string \<Rightarrow> bool" where
  "covers q x \<longleftrightarrow> x = q \<or> (HasSuffix x ''/'' \<and> HasPrefix q x)"

lemma Join_take_prefix:
  "i < length xs \<Longrightarrow> 0 < i \<Longrightarrow> Join xs [c] = (Join (take i xs) [c] @ [c]) @ Join (drop i xs) [c]"
proof (induction xs arbitrary: i)
  case (Cons x xs)
  then have "xs \<noteq> []" by auto
  show ?case
  proof (cases "i = 1")
    case True
    with \<open>xs \<noteq> []\<close> show ?thesis by (simp add: Join_Cons)
  next
    case False
    then obtain j where j: "i = Suc j" "0 < j" using Cons.prems by (cases i) auto
    with Cons have "Join xs [c] = (Join (take j xs) [c] @ [c]) @ Join (drop j xs) [c]" by simp
    moreover have "take j xs \<noteq> []" using j Cons.prems by auto
    ultimately show ?thesis using j \<open>xs \<noteq> []\<close> by (simp add: Join_Cons)
  qed
qed simp

lemma Split_append:
  "Split (x @ c # y) c = Split x c @ Split y c"
proof (induction x)
  case (Cons a x)
  obtain z zs where "Split x c = z # zs" by (cases "Split x c") auto
  with Cons show ?case by simp
qed simp

lemma previousPaths_covers: "x \<in> set (previousPaths q) \<longleftrightarrow> covers q x"
proof
  let ?c = "CHR ''/''" and ?n = "length (Split q (CHR ''/''))"
  assume "x \<in> set (previousPaths q)"
  then consider "x = q" | i where "1 \<le> i" "i < ?n" "x = Join (take i (Split q ?c)) ''/'' @ ''/''"
    by (auto simp: previousPaths_def Let_def)
  then show "covers q x"
  proof cases
    case 2
    then have "q = x @ Join (drop i (Split q ?c)) ''/''"
      using Join_take_prefix[of i "Split q ?c" ?c] by (simp add: Join_Split)
    then have "HasPrefix q x" by (metis HasPrefix_append)
    with 2 show ?thesis by (auto simp: covers_def HasSuffix_iff)
  qed (simp add: covers_def)
next
  assume "covers q x"
  then consider "x = q" | y z where "x = y @ ''/''" "q = x @ z"
    by (auto simp: covers_def HasSuffix_iff HasPrefix_iff_prefix prefix_def)
  then show "x \<in> set (previousPaths q)"
  proof cases
    case 2
    let ?i = "length (Split y (CHR ''/''))"
    have s: "Split q (CHR ''/'') = Split y (CHR ''/'') @ Split z (CHR ''/'')"
      using 2 Split_append[of y "CHR ''/''" z] by simp
    have "1 \<le> ?i" by (simp add: Suc_leI)
    moreover have "?i < length (Split q (CHR ''/''))" by (simp add: s)
    moreover have "x = Join (take ?i (Split q (CHR ''/''))) ''/'' @ ''/''"
      unfolding s using 2(1) by (simp add: Join_Split)
    ultimately show ?thesis by (auto simp: previousPaths_def Let_def)
  qed (simp add: previousPaths_def Let_def)
qed

section \<open>The specification on a project's head\<close>

text \<open>The live files, and the paths already written in the version under construction.\<close>

type_synonym head = "dlfile set \<times> string set"

definition head_of :: "int \<Rightarrow> int \<Rightarrow> DB \<Rightarrow> head" where
  "head_of p v db =
     (row_file ` {r \<in> set (objects db). o_project r = p \<and> live r},
      o_path ` {r \<in> set (objects db). o_project r = p \<and> o_start r = v})"

definition spec_delete :: "string \<Rightarrow> head \<Rightarrow> head" where
  "spec_delete q st = ({f \<in> fst st. fst f \<noteq> q}, snd st)"

definition spec_update :: "string \<Rightarrow> Hash \<Rightarrow> int \<Rightarrow> int \<Rightarrow> head \<Rightarrow> head" where
  "spec_update q h m sz st =
     (if \<exists>sz' b. (q, h, m, sz', b) \<in> fst st then st
      else ({f \<in> fst st. \<not> (covers q (fst f) \<and> fst f \<notin> snd st)} \<union> {(q, h, m, sz, False)}, insert q (snd st)))"

definition spec_pack :: "string \<Rightarrow> (Hash \<times> int) option \<Rightarrow> head \<Rightarrow> head" where
  "spec_pack q new st =
     (case new of
        None \<Rightarrow> ({f \<in> fst st. fst f \<noteq> q}, snd st)
      | Some (h, sz) \<Rightarrow> ({f \<in> fst st. fst f \<noteq> q} \<union> {(q, h, 0, sz, True)}, insert q (snd st)))"

text \<open>The invariant while version \<open>v\<close> of project \<open>p\<close> is being written.\<close>

definition writable :: "int \<Rightarrow> int \<Rightarrow> DB \<Rightarrow> bool" where
  "writable p v db \<longleftrightarrow> 1 \<le> v \<and> sorted_wrt compat (objects db) \<and>
     (\<forall>r \<in> set (objects db). row_within (if o_project r = p then v else latest_of db (o_project r)) r)"

lemma latest_of_objects [simp]: "latest_of (db\<lparr>objects := rs\<rparr>) q = latest_of db q"
  by (simp add: latest_of_def find_project_def)

lemma latest_of_contents [simp]: "latest_of (db\<lparr>contents := cs\<rparr>) q = latest_of db q"
  by (simp add: latest_of_def find_project_def)

lemma writableI:
  assumes "db_ok db" and "0 \<le> latest_of db p" and "v = latest_of db p + 1"
  shows "writable p v db" and "snd (head_of p v db) = {}"
proof -
  have w: "row_within (latest_of db (o_project r)) r" if "r \<in> set (objects db)" for r
    using db_okD(3)[OF assms(1)] that by blast
  have "row_within (if o_project r = p then v else latest_of db (o_project r)) r" if "r \<in> set (objects db)" for r
    using row_within_mono[OF w[OF that], of v] w[OF that] assms(3) by auto
  then show "writable p v db" using assms db_okD(2)[OF assms(1)] unfolding writable_def by auto
  show "snd (head_of p v db) = {}"
    using w assms(3) by (fastforce simp: head_of_def row_within_def)
qed

lemma head_of_snapshot:
  assumes "writable p v db"
  shows "fst (head_of p v db) = snapshot (objects db) p v"
proof -
  have "live r \<longleftrightarrow> live_at v r" if "r \<in> set (objects db)" "o_project r = p" for r
    using live_at_latest[of v r] assms that by (auto simp: writable_def)
  then have "{r \<in> set (objects db). o_project r = p \<and> live r} = {r \<in> set (objects db). o_project r = p \<and> live_at v r}"
    by blast
  then show ?thesis by (simp add: head_of_def snapshot_def)
qed

lemma writable_within: "writable p v db \<Longrightarrow> r \<in> set (objects db) \<Longrightarrow> o_project r = p \<Longrightarrow> row_within v r"
  by (auto simp: writable_def)

lemma live_in_head: "r \<in> set (objects db) \<Longrightarrow> o_project r = p \<Longrightarrow> live r \<Longrightarrow> row_file r \<in> fst (head_of p v db)"
  by (simp add: head_of_def)

definition stop_rows :: "(object_row \<Rightarrow> bool) \<Rightarrow> int \<Rightarrow> object_row list \<Rightarrow> object_row list" where
  "stop_rows sel v rs = map (\<lambda>r. if sel r then r\<lparr>o_stop := Some v\<rparr> else r) rs"

text \<open>Closing older live rows of the project keeps the invariant, so no index objects.\<close>

lemma stop_rows_ok:
  assumes "writable p v db"
    and "\<And>r. r \<in> set (objects db) \<Longrightarrow> sel r \<Longrightarrow> o_project r = p \<and> live r \<and> o_start r \<noteq> v"
  shows "writable p v (db\<lparr>objects := stop_rows sel v (objects db)\<rparr>)"
    and "unique_ok (stop_rows sel v (objects db))"
proof -
  let ?f = "\<lambda>r. if sel r then r\<lparr>o_stop := Some v\<rparr> else r"
  have within: "row_within (if o_project r = p then v else latest_of db (o_project r)) (?f r)"
    if r: "r \<in> set (objects db)" for r
  proof (cases "sel r")
    case True
    with r assms(2) have "o_project r = p" "o_start r \<noteq> v" by auto
    moreover from this have "row_within v r" using assms(1) r by (auto simp: writable_def)
    ultimately show ?thesis using True by (auto simp: row_within_def)
  qed (use assms(1) r in \<open>auto simp: writable_def\<close>)
  have c: "sorted_wrt compat (stop_rows sel v (objects db))"
    unfolding stop_rows_def sorted_wrt_map
  proof (rule sorted_wrt_mono_rel)
    show "sorted_wrt compat (objects db)" using assms(1) by (simp add: writable_def)
    fix r s assume "r \<in> set (objects db)" "s \<in> set (objects db)" and rs: "compat r s"
    then have "sel r \<Longrightarrow> o_stop r = None" "sel s \<Longrightarrow> o_stop s = None" using assms(2) by (auto simp: live_def)
    with rs show "compat (?f r) (?f s)" by (auto simp: compat_def)
  qed
  show "writable p v (db\<lparr>objects := stop_rows sel v (objects db)\<rparr>)"
    unfolding writable_def
  proof (intro conjI ballI)
    fix x assume "x \<in> set (objects (db\<lparr>objects := stop_rows sel v (objects db)\<rparr>))"
    then obtain r where r: "r \<in> set (objects db)" "x = ?f r" by (auto simp: stop_rows_def)
    then have "o_project x = o_project r" by simp
    with within[OF r(1)] r(2) show "row_within (if o_project x = p then v
        else latest_of (db\<lparr>objects := stop_rows sel v (objects db)\<rparr>) (o_project x)) x"
      by (simp only: latest_of_objects)
  qed (use c assms(1) in \<open>simp_all add: writable_def\<close>)
  show "unique_ok (stop_rows sel v (objects db))"
    by (rule unique_okI[OF c]) (use within in \<open>force simp: stop_rows_def\<close>)
qed

lemma head_stop_rows:
  assumes "\<And>r. r \<in> set (objects db) \<Longrightarrow> o_project r = p \<Longrightarrow> live r \<Longrightarrow> sel r \<longleftrightarrow> P (o_path r)"
    and "\<And>r. r \<in> set (objects db) \<Longrightarrow> sel r \<Longrightarrow> o_project r = p"
  shows "head_of p v (db\<lparr>objects := stop_rows sel v (objects db)\<rparr>) =
    ({f \<in> fst (head_of p v db). \<not> P (fst f)}, snd (head_of p v db))"
proof -
  let ?f = "\<lambda>r. if sel r then r\<lparr>o_stop := Some v\<rparr> else r"
  have "{r \<in> set (stop_rows sel v (objects db)). o_project r = p \<and> live r}
      = {r \<in> set (objects db). o_project r = p \<and> live r \<and> \<not> P (o_path r)}"
  proof (intro set_eqI iffI)
    fix x assume "x \<in> {r \<in> set (stop_rows sel v (objects db)). o_project r = p \<and> live r}"
    then obtain r where "r \<in> set (objects db)" "x = ?f r" "o_project x = p" "live x"
      by (auto simp: stop_rows_def)
    with assms(1)[of r] show "x \<in> {r \<in> set (objects db). o_project r = p \<and> live r \<and> \<not> P (o_path r)}"
      by (cases "sel r") (simp_all add: live_def)
  next
    fix x assume "x \<in> {r \<in> set (objects db). o_project r = p \<and> live r \<and> \<not> P (o_path r)}"
    then have x: "x \<in> set (objects db)" "o_project x = p" "live x" "\<not> sel x" using assms(1) by auto
    then show "x \<in> {r \<in> set (stop_rows sel v (objects db)). o_project r = p \<and> live r}"
      by (force simp: stop_rows_def)
  qed
  moreover have "o_path ` {r \<in> set (stop_rows sel v (objects db)). o_project r = p \<and> o_start r = v}
      = o_path ` {r \<in> set (objects db). o_project r = p \<and> o_start r = v}"
  proof -
    have "{r \<in> set (stop_rows sel v (objects db)). o_project r = p \<and> o_start r = v}
      = ?f ` {r \<in> set (objects db). o_project (?f r) = p \<and> o_start (?f r) = v}"
      unfolding stop_rows_def set_map by blast
    moreover have fields: "o_project (?f r) = o_project r" "o_start (?f r) = o_start r" "o_path (?f r) = o_path r" for r
      by simp_all
    ultimately have "{r \<in> set (stop_rows sel v (objects db)). o_project r = p \<and> o_start r = v}
      = ?f ` {r \<in> set (objects db). o_project r = p \<and> o_start r = v}" by (simp only:)
    then show ?thesis by (simp only: image_image fields)
  qed
  ultimately show ?thesis by (auto simp: head_of_def row_file_def)
qed

lemma not_written:
  "q \<notin> snd (head_of p v db) \<Longrightarrow> r \<in> set (objects db) \<Longrightarrow> o_project r = p \<Longrightarrow> o_path r = q \<Longrightarrow> o_start r \<noteq> v"
  by (auto simp: head_of_def)

lemma update_objects_stop:
  "unique_ok (stop_rows sel v (objects db)) \<Longrightarrow>
   update_objects sel (\<lambda>r. r\<lparr>o_stop := Some v\<rparr>) db = (db\<lparr>objects := stop_rows sel v (objects db)\<rparr>, Inr ())"
  by (simp add: update_objects_def set_objects_def stop_rows_def)

lemma DeleteObject_refines:
  assumes "writable p v db" and "q \<notin> snd (head_of p v db)"
  shows "\<exists>db'. DeleteObject p v q db = (db', Inr ()) \<and> writable p v db' \<and>
    head_of p v db' = spec_delete q (head_of p v db)"
proof -
  let ?sel = "\<lambda>r. o_project r = p \<and> o_path r = q \<and> o_stop r = None"
  have "r \<in> set (objects db) \<Longrightarrow> ?sel r \<Longrightarrow> o_project r = p \<and> live r \<and> o_start r \<noteq> v" for r
    using not_written[OF assms(2)] by (auto simp: live_def)
  then have ok: "writable p v (db\<lparr>objects := stop_rows ?sel v (objects db)\<rparr>)" "unique_ok (stop_rows ?sel v (objects db))"
    by - (rule stop_rows_ok[OF assms(1)], blast)+
  have "head_of p v (db\<lparr>objects := stop_rows ?sel v (objects db)\<rparr>) = spec_delete q (head_of p v db)"
    by (subst head_stop_rows[where P = "\<lambda>x. x = q"]) (auto simp: spec_delete_def live_def)
  with ok show ?thesis by (auto simp: DeleteObject_def update_objects_stop)
qed

lemma writable_append:
  assumes "writable p v db" and "o_project r = p" and "row_within v r"
    and "\<And>s. s \<in> set (objects db) \<Longrightarrow> compat s r"
  shows "writable p v (db\<lparr>objects := objects db @ [r]\<rparr>)" and "unique_ok (objects db @ [r])"
proof -
  have c: "sorted_wrt compat (objects db @ [r])"
    using assms(1,4) by (simp add: writable_def sorted_wrt_append)
  show "writable p v (db\<lparr>objects := objects db @ [r]\<rparr>)"
    using assms c by (auto simp: writable_def)
  show "unique_ok (objects db @ [r])"
    by (rule unique_okI[OF c]) (use assms in \<open>auto simp: writable_def\<close>)
qed

lemma head_append:
  assumes "o_project r = p" and "live r" and "o_start r = v"
  shows "head_of p v (db\<lparr>objects := objects db @ [r]\<rparr>) =
    (insert (row_file r) (fst (head_of p v db)), insert (o_path r) (snd (head_of p v db)))"
proof -
  have "{s \<in> set (objects db @ [r]). o_project s = p \<and> live s} = insert r {s \<in> set (objects db). o_project s = p \<and> live s}"
    "{s \<in> set (objects db @ [r]). o_project s = p \<and> o_start s = v} = insert r {s \<in> set (objects db). o_project s = p \<and> o_start s = v}"
    using assms by auto
  then show ?thesis by (simp add: head_of_def)
qed

lemma compat_new:
  assumes "row_within v s" and "o_start r = v" and "o_project s = p \<Longrightarrow> o_path s = o_path r \<Longrightarrow> \<not> live s"
    and "o_project r = p"
  shows "compat s r"
  using assms by (auto simp: compat_def row_within_def live_def split: option.splits)

text \<open>A live row of a path written in this version is the one written in it.\<close>

lemma written_live:
  assumes "writable p v db" and "r \<in> set (objects db)" and "o_project r = p" and "live r"
  shows "o_path r \<in> snd (head_of p v db) \<longleftrightarrow> o_start r = v"
proof
  assume "o_path r \<in> snd (head_of p v db)"
  then obtain s where s: "s \<in> set (objects db)" "o_project s = p" "o_path s = o_path r" "o_start s = v"
    by (auto simp: head_of_def)
  have within: "row_within v r" "row_within v s" using assms s by (auto simp: writable_def)
  show "o_start r = v"
  proof (rule ccontr)
    assume "o_start r \<noteq> v"
    with s have "s \<noteq> r" by auto
    then have "compat s r"
      using sorted_wrt_both[of compat "objects db" s r] compat_sym s(1) assms(1,2) by (auto simp: writable_def)
    with s within assms(3,4) show False by (auto simp: compat_def row_within_def live_def)
  qed
qed (use assms in \<open>auto simp: head_of_def\<close>)

lemma head_of_contents [simp]: "head_of p v (db\<lparr>contents := cs\<rparr>) = head_of p v db"
  by (simp add: head_of_def)

lemma writable_contents [simp]: "writable p v (db\<lparr>contents := cs\<rparr>) = writable p v db"
  by (simp add: writable_def)

lemma insert_content_cases:
  obtains cs where "insert_content h b db = (db\<lparr>contents := cs\<rparr>, Inr ())"
proof (cases "map_of (contents db) h")
  case None
  then show ?thesis using that by (simp add: insert_content_def)
next
  case (Some x)
  then have "insert_content h b db = (db\<lparr>contents := contents db\<rparr>, Inr ())" by (simp add: insert_content_def)
  then show ?thesis by (rule that)
qed

text \<open>A new live row can only conflict with an identical live one.\<close>

lemma conflicts_live:
  "o_stop r = None \<Longrightarrow> conflicts s r \<longleftrightarrow>
     live s \<and> o_project s = o_project r \<and> o_path s = o_path r \<and> o_hash s = o_hash r \<and> o_mode s = o_mode r"
  by (auto simp: conflicts_def clash_def objects_idx_def objects_latest_idx_def identical_objects_idx_def live_def
      split: if_splits)

lemma identical_row_iff:
  "(\<exists>s \<in> set (objects db). live s \<and> o_project s = p \<and> o_path s = q \<and> o_hash s = h \<and> o_mode s = m) \<longleftrightarrow>
   (\<exists>sz b. (q, h, m, sz, b) \<in> fst (head_of p v db))"
  by (auto simp: head_of_def row_file_def)

lemma UpdateObject_refines:
  assumes "writable p v db" and "Path ob \<notin> snd (head_of p v db)"
  shows "\<exists>db' enc' changed. UpdateObject L enc p v ob db = (db', Inr (enc', changed)) \<and> writable p v db' \<and>
    head_of p v db' = spec_update (Path ob) (HashContent L (nil_bytes (Content ob))) (Mode ob) (Size ob) (head_of p v db) \<and>
    (\<not> changed \<longrightarrow> head_of p v db' = head_of p v db)"
proof -
  let ?h = "HashContent L (nil_bytes (Content ob))"
  let ?new = "\<lparr>o_project = p, o_start = v, o_stop = None, o_path = Path ob, o_hash = ?h, o_mode = Mode ob,
      o_size = Size ob, o_packed = False\<rparr>"
  let ?sel = "\<lambda>r. o_project r = p \<and> o_path r \<in> set (previousPaths (Path ob)) \<and> o_stop r = None \<and> o_start r \<noteq> v"
  let ?P = "\<lambda>x. covers (Path ob) x \<and> x \<notin> snd (head_of p v db)"
  obtain enc' b where enc: "Encode L enc (nil_bytes (Content ob)) = (enc', b)" by (cases "Encode L enc (nil_bytes (Content ob))")
  obtain cs where c: "insert_content ?h b db = (db\<lparr>contents := cs\<rparr>, Inr ())" by (rule insert_content_cases)
  let ?db = "db\<lparr>contents := cs\<rparr>"
  have w: "writable p v ?db" using assms(1) by simp
  have exi: "list_ex (\<lambda>s. conflicts s ?new) (objects db) \<longleftrightarrow>
      (\<exists>sz b. (Path ob, ?h, Mode ob, sz, b) \<in> fst (head_of p v db))"
    by (simp add: conflicts_live list_ex_iff flip: identical_row_iff)
  show ?thesis
  proof (cases "list_ex (\<lambda>s. conflicts s ?new) (objects db)")
    case True
    then have "UpdateObject L enc p v ob db = (?db, Inr (enc', False))"
      by (simp add: UpdateObject_def Let_def enc c andThen_def insert_ignore_def insert_or_ignore_def)
    moreover have "spec_update (Path ob) ?h (Mode ob) (Size ob) (head_of p v db) = head_of p v db"
      using True exi by (simp add: spec_update_def)
    ultimately show ?thesis using w by (intro exI[of _ ?db] exI[of _ enc'] exI[of _ False]) simp
  next
    case False
    let ?stop = "stop_rows ?sel v (objects ?db)"
    have sel: "r \<in> set (objects ?db) \<Longrightarrow> ?sel r \<Longrightarrow> o_project r = p \<and> live r \<and> o_start r \<noteq> v" for r
      by (simp add: live_def)
    have ok: "writable p v (?db\<lparr>objects := ?stop\<rparr>)" "unique_ok ?stop"
      by (rule stop_rows_ok[OF w], use sel in blast)+
    have app: "stop_rows ?sel v (objects ?db @ [?new]) = ?stop @ [?new]" by (simp add: stop_rows_def)
    have head: "head_of p v (?db\<lparr>objects := ?stop\<rparr>) = ({f \<in> fst (head_of p v db). \<not> ?P (fst f)}, snd (head_of p v db))"
      by (subst head_stop_rows[where P = ?P])
        (auto simp: previousPaths_covers written_live[OF assms(1)] live_def)
    have "compat s ?new" if s: "s \<in> set ?stop" for s
    proof (cases "o_project s = p \<and> o_path s = Path ob")
      case True
      have "row_within v s" using writable_within[OF ok(1), of s] True s by simp
      moreover have "\<not> live s"
      proof
        assume "live s"
        with s True have "row_file s \<in> fst (head_of p v (?db\<lparr>objects := ?stop\<rparr>))" by (simp add: head_of_def)
        with head True assms(2) show False by (simp add: row_file_def covers_def)
      qed
      ultimately show ?thesis using compat_new[of v s ?new p] by simp
    qed (auto simp: compat_def)
    then have new: "writable p v (?db\<lparr>objects := ?stop @ [?new]\<rparr>)" "unique_ok (?stop @ [?new])"
      using writable_append[OF ok(1), of ?new] assms(1) by (simp_all add: row_within_def writable_def)
    have "UpdateObject L enc p v ob db = (?db\<lparr>objects := ?stop @ [?new]\<rparr>, Inr (enc', True))"
      using False new(2) app
      by (simp add: UpdateObject_def Let_def enc c andThen_def insert_ignore_def insert_or_ignore_def update_objects_stop)
    moreover have "head_of p v (?db\<lparr>objects := ?stop @ [?new]\<rparr>) =
        spec_update (Path ob) ?h (Mode ob) (Size ob) (head_of p v db)"
      using head_append[of ?new p v "?db\<lparr>objects := ?stop\<rparr>"] head False exi
      by (simp add: spec_update_def live_def row_file_def)
    ultimately show ?thesis using new(1)
      by (intro exI[of _ "?db\<lparr>objects := ?stop @ [?new]\<rparr>"] exI[of _ enc'] exI[of _ True]) simp
  qed
qed

text \<open>The pack that an update starts from is the one in the head.\<close>

lemma existing_pack_head:
  assumes "writable p v db" and "(q, h, m, sz, True) \<in> fst (head_of p v db)" and "map_of (contents db) h = Some b"
  shows "existing_pack db p q = (h, b)"
proof -
  let ?sel = "\<lambda>r. o_project r = p \<and> o_path r = q \<and> o_packed r \<and> o_stop r = None \<and> map_of (contents db) (o_hash r) \<noteq> None"
  obtain r where r: "r \<in> set (objects db)" "o_project r = p" "live r" "row_file r = (q, h, m, sz, True)"
    using assms(2) by (auto simp: head_of_def)
  then have g: "?sel r" using assms(3) by (simp add: row_file_def live_def)
  have "find ?sel (objects db) \<noteq> None" unfolding find_None_iff using r(1) g by blast
  then obtain s where s: "find ?sel (objects db) = Some s" by blast
  have s': "s \<in> set (objects db)" "?sel s" using findSomeD[OF s] by simp_all
  have "s = r"
  proof (rule ccontr)
    assume "s \<noteq> r"
    then have "compat s r"
      using sorted_wrt_both[of compat "objects db" s r] compat_sym s'(1) r(1) assms(1) by (auto simp: writable_def)
    with s' g show False by (auto simp: compat_def)
  qed
  with s r(4) assms(3) show ?thesis by (simp add: existing_pack_def row_file_def)
qed

lemma existing_pack_none:
  assumes "\<And>f. f \<in> fst (head_of p v db) \<Longrightarrow> fst f = q \<Longrightarrow> \<not> snd (snd (snd (snd f)))"
  shows "existing_pack db p q = (zeroHash, [])"
proof -
  have "\<not> (o_project r = p \<and> o_path r = q \<and> o_packed r \<and> o_stop r = None)" if "r \<in> set (objects db)" for r
    using assms[OF live_in_head, of r] that by (auto simp: row_file_def live_def)
  then have "find (\<lambda>r. o_project r = p \<and> o_path r = q \<and> o_packed r \<and> o_stop r = None
      \<and> map_of (contents db) (o_hash r) \<noteq> None) (objects db) = None"
    unfolding find_None_iff by blast
  then show ?thesis by (simp add: existing_pack_def)
qed

lemma write_pack_refines:
  assumes "writable p v db" and "q \<notin> snd (head_of p v db)"
    and "\<And>f. f \<in> fst (head_of p v db) \<Longrightarrow> fst f = q \<Longrightarrow> snd (snd (snd (snd f)))"
  shows "\<exists>db'. write_pack L p v q i u db = (db', Inr True) \<and> writable p v db' \<and>
    head_of p v db' = spec_pack q (if i then Some (HashContent L u, int (length u)) else None) (head_of p v db)"
proof -
  let ?sel = "\<lambda>r. o_project r = p \<and> o_path r = q \<and> o_packed r \<and> o_stop r = None"
  let ?new = "\<lparr>o_project = p, o_start = v, o_stop = None, o_path = q, o_hash = HashContent L u, o_mode = 0,
      o_size = int (length u), o_packed = True\<rparr>"
  obtain cs where c: "(if i then insert_content (HashContent L u) u else ret ()) db = (db\<lparr>contents := cs\<rparr>, Inr ())"
  proof (cases i)
    case True
    then show ?thesis using insert_content_cases[of "HashContent L u" u db] that by metis
  next
    case False
    then show ?thesis using that[of "contents db"] by simp
  qed
  let ?db = "db\<lparr>contents := cs\<rparr>" let ?stop = "stop_rows ?sel v (objects ?db)"
  have w: "writable p v ?db" using assms(1) by simp
  have "r \<in> set (objects ?db) \<Longrightarrow> ?sel r \<Longrightarrow> o_project r = p \<and> live r \<and> o_start r \<noteq> v" for r
    using not_written[OF assms(2)] by (auto simp: live_def)
  then have ok: "writable p v (?db\<lparr>objects := ?stop\<rparr>)" "unique_ok ?stop"
    by - (rule stop_rows_ok[OF w], blast)+
  have packed: "o_packed r" if "r \<in> set (objects db)" "o_project r = p" "live r" "o_path r = q" for r
    using assms(3)[OF live_in_head, of r] that by (simp add: row_file_def)
  have head: "head_of p v (?db\<lparr>objects := ?stop\<rparr>) = ({f \<in> fst (head_of p v db). fst f \<noteq> q}, snd (head_of p v db))"
    by (subst head_stop_rows[where P = "\<lambda>x. x = q"]) (use packed in \<open>auto simp: live_def\<close>)
  show ?thesis
  proof (cases i)
    case False
    with c ok(2) have "write_pack L p v q i u db = (?db\<lparr>objects := ?stop\<rparr>, Inr True)"
      by (simp add: write_pack_def Let_def andThen_def update_objects_stop)
    with ok(1) head False show ?thesis by (simp add: spec_pack_def)
  next
    case True
    have "compat s ?new" if s: "s \<in> set ?stop" for s
    proof (cases "o_project s = p \<and> o_path s = q")
      case True
      have "row_within v s" using writable_within[OF ok(1), of s] True s by simp
      moreover have "\<not> live s"
      proof
        assume "live s"
        with s True have "row_file s \<in> fst (head_of p v (?db\<lparr>objects := ?stop\<rparr>))" by (simp add: head_of_def)
        with head True show False by (simp add: row_file_def)
      qed
      ultimately show ?thesis using compat_new[of v s ?new p] by simp
    qed (auto simp: compat_def)
    then have new: "writable p v (?db\<lparr>objects := ?stop @ [?new]\<rparr>)" "unique_ok (?stop @ [?new])"
      using writable_append[OF ok(1), of ?new] assms(1) by (simp_all add: row_within_def writable_def)
    with True c ok(2) have "write_pack L p v q i u db = (?db\<lparr>objects := ?stop @ [?new]\<rparr>, Inr True)"
      by (simp add: write_pack_def Let_def andThen_def update_objects_stop insert_objects_def set_objects_def)
    moreover have "head_of p v (?db\<lparr>objects := ?stop @ [?new]\<rparr>) =
        spec_pack q (Some (HashContent L u, int (length u))) (head_of p v db)"
      using head_append[of ?new p v "?db\<lparr>objects := ?stop\<rparr>"] head
      by (simp add: spec_pack_def live_def row_file_def)
    ultimately show ?thesis using new(1) True by simp
  qed
qed

text \<open>What \<open>UpdatePackedObjects\<close> decides to store: nothing for an empty pack.\<close>

definition packed_result :: "dberr + bytes \<Rightarrow> (dberr + bool \<times> bytes)" where
  "packed_result res =
     (case res of Inr u \<Rightarrow> Inr (True, u) | Inl e \<Rightarrow> if e = ErrEmptyPack then Inr (False, []) else Inl e)"

lemma UpdatePackedObjects_refines:
  assumes "writable p v db" and "q \<notin> snd (head_of p v db)"
    and "\<And>f. f \<in> fst (head_of p v db) \<Longrightarrow> fst f = q \<Longrightarrow> snd (snd (snd (snd f)))"
    and "existing_pack db p q = (h, c)" and "packed_result (updateObjects L c us) = Inr (i, u)"
  shows "\<exists>db' changed. UpdatePackedObjects L p v q us db = (db', Inr changed) \<and> writable p v db' \<and>
    head_of p v db' = (if h = HashContent L u then head_of p v db
      else spec_pack q (if i then Some (HashContent L u, int (length u)) else None) (head_of p v db)) \<and>
    (changed \<longleftrightarrow> h \<noteq> HashContent L u)"
proof (cases "h = HashContent L u")
  case True
  then have "UpdatePackedObjects L p v q us db = (db, Inr False)"
    using assms(4,5) by (simp add: UpdatePackedObjects_def packed_result_def)
  with True assms(1) show ?thesis by (intro exI[of _ db] exI[of _ False]) simp
next
  case False
  then have "UpdatePackedObjects L p v q us db = write_pack L p v q i u db"
    using assms(4,5) by (simp add: UpdatePackedObjects_def packed_result_def)
  with write_pack_refines[OF assms(1-3), of L i u] False show ?thesis by fastforce
qed

end
