(* ===== verification/Queries.thy ===== *)
theory Queries
  imports Projects
begin

text \<open>
  \<^verbatim>\<open>internal/db/queryBuilder.go\<close> and the query side of \<^verbatim>\<open>query.go\<close>: the common table expressions
  of the object query as functions on the tables, SQL's \<open>LIKE\<close> on UTF-8 text, and the pack
  manager. The lemmas show what a query returns in terms of snapshots: a query from version
  zero is the snapshot, a query between two versions is an exact difference.
\<close>

section \<open>LIKE\<close>

definition is_continuation :: "char \<Rightarrow> bool" where
  "is_continuation c \<longleftrightarrow> 128 \<le> (of_char c :: nat) \<and> (of_char c :: nat) < 192"

text \<open>The text after its first UTF-8 character.\<close>

definition next_char :: "string \<Rightarrow> string" where
  "next_char t = dropWhile is_continuation (tl t)"

lemma length_next_char: "t \<noteq> [] \<Longrightarrow> length (next_char t) < length t"
  by (cases t) (simp_all add: next_char_def length_dropWhile_le less_Suc_eq_le)

function like :: "string \<Rightarrow> string \<Rightarrow> bool" where
  "like [] t \<longleftrightarrow> t = []"
| "like (c # p) t \<longleftrightarrow>
     (if c = CHR ''%'' then like p t \<or> (if t = [] then False else like (c # p) (next_char t))
      else if c = CHR ''_'' then (if t = [] then False else like p (next_char t))
      else if c = CHR 0x5C then
        (case p of [] \<Rightarrow> False | d # p' \<Rightarrow> (case t of [] \<Rightarrow> False | x # t' \<Rightarrow> x = d \<and> like p' t'))
      else (case t of [] \<Rightarrow> False | x # t' \<Rightarrow> x = c \<and> like p t'))"
  by pat_completeness auto

termination like
  by (relation "measure (\<lambda>(p, t). length p + length t)") (auto simp: length_next_char add.commute less_SucI)

section \<open>Objects of a query\<close>

record DbObject =
  d_hash :: Hash
  d_path :: string
  d_mode :: int
  d_size :: int
  d_deleted :: bool
  d_cached :: bool
  d_packed :: bool

definition ToTarObject :: "DbObject \<Rightarrow> bytes option \<Rightarrow> tar_object" where
  "ToTarObject d content =
     (let content = (if d_cached d then Some (Hash_Bytes (d_hash d)) else content) in
      \<lparr>t_path = d_path d, t_mode = d_mode d, t_size = d_size d, t_deleted = d_deleted d,
       t_cached = d_cached d, t_packed = d_packed d, t_content = content\<rparr>)"

record queryBuilder =
  qb_project :: int
  qb_vrange :: VersionRange
  qb_objectQuery :: ObjectQuery
  qb_cacheVersions :: "int list"
  qb_argsOffset :: nat

definition newQueryBuilder :: "int \<Rightarrow> VersionRange \<Rightarrow> ObjectQuery \<Rightarrow> queryBuilder" where
  "newQueryBuilder project vrange objectQuery =
     \<lparr>qb_project = project, qb_vrange = vrange, qb_objectQuery = objectQuery,
      qb_cacheVersions = [], qb_argsOffset = 0\<rparr>"

definition withCacheVersions :: "queryBuilder \<Rightarrow> int list \<Rightarrow> queryBuilder" where
  "withCacheVersions qb cacheVersions = qb\<lparr>qb_cacheVersions := cacheVersions\<rparr>"

definition withArgsOffset :: "queryBuilder \<Rightarrow> nat \<Rightarrow> queryBuilder" where
  "withArgsOffset qb offset = qb\<lparr>qb_argsOffset := offset\<rparr>"

section \<open>Arguments of a query\<close>

datatype sql_arg = ArgInt int | ArgText string | ArgTexts "string list" | ArgInts "int list"

text \<open>Each placeholder name with the value bound to it, in the order of \<open>argNames\<close>.\<close>

definition named_args :: "queryBuilder \<Rightarrow> (string \<times> sql_arg) list" where
  "named_args qb =
     (let q = qb_objectQuery qb in
      [(''__project__'', ArgInt (qb_project qb)),
       (''__start_version__'', ArgInt (From (qb_vrange qb))),
       (''__stop_version__'', ArgInt (To (qb_vrange qb)))]
      @ (if q_Path q \<noteq> [] then
           [(''__path__'', ArgText (if q_IsPrefix q then q_Path q @ ''%'' else q_Path q))] else [])
      @ (if length (q_Ignores q) > 0 then
           [(''__ignores__'', ArgTexts (map (\<lambda>i. i @ ''%'') (q_Ignores q)))] else [])
      @ (if length (qb_cacheVersions qb) > 0 then
           [(''__cache_versions__'', ArgInts (qb_cacheVersions qb))] else []))"

text \<open>The number \<open>$n\<close> each name is replaced by, and the positional arguments.\<close>

definition replaceQueryArgs :: "queryBuilder \<Rightarrow> (string \<times> nat) list \<times> sql_arg list" where
  "replaceQueryArgs qb =
     (let args = named_args qb in
      (map (\<lambda>(idx, name). (name, qb_argsOffset qb + idx + 1)) (enumerate 0 (map fst args)), map snd args))"

definition bound :: "queryBuilder \<Rightarrow> string \<Rightarrow> sql_arg option" where
  "bound qb name = map_of (named_args qb) name"

section \<open>Common table expressions\<close>

definition starts_in :: "VersionRange \<Rightarrow> object_row \<Rightarrow> bool" where
  "starts_in vr r \<longleftrightarrow> o_start r > From vr \<and> o_start r \<le> To vr \<and>
     (case o_stop r of None \<Rightarrow> True | Some t \<Rightarrow> t > To vr)"

definition stops_in :: "VersionRange \<Rightarrow> object_row \<Rightarrow> bool" where
  "stops_in vr r \<longleftrightarrow> (case o_stop r of None \<Rightarrow> False | Some t \<Rightarrow> t > From vr \<and> t \<le> To vr)"

definition possibleObjectsCTE :: "queryBuilder \<Rightarrow> bool \<Rightarrow> DB \<Rightarrow> object_row list" where
  "possibleObjectsCTE qb withRemovals db =
     (let vr = qb_vrange qb in
      filter (\<lambda>r. o_project r = qb_project qb \<and>
        (if withRemovals then starts_in vr r \<or> (o_start r \<le> To vr \<and> stops_in vr r) else starts_in vr r))
      (objects db))"

definition pathPredicate :: "queryBuilder \<Rightarrow> string \<Rightarrow> bool" where
  "pathPredicate qb path =
     (case bound qb ''__path__'' of
        Some (ArgText a) \<Rightarrow> (if q_IsPrefix (qb_objectQuery qb) then like a path else path = a)
      | _ \<Rightarrow> True)"

definition ignoresPredicate :: "queryBuilder \<Rightarrow> string \<Rightarrow> bool" where
  "ignoresPredicate qb path =
     (case bound qb ''__ignores__'' of
        Some (ArgTexts as) \<Rightarrow> list_all (\<lambda>a. \<not> like a path) as
      | _ \<Rightarrow> True)"

definition cachedObjectHashesCTE :: "queryBuilder \<Rightarrow> DB \<Rightarrow> Hash list" where
  "cachedObjectHashesCTE qb db =
     (case bound qb ''__cache_versions__'' of
        Some (ArgInts vs) \<Rightarrow> remdups (concat (map snd (filter (\<lambda>(v, hs). v \<in> set vs) (cache_versions db))))
      | _ \<Rightarrow> [])"

definition by_path :: "lib \<Rightarrow> ('a \<Rightarrow> string) \<Rightarrow> 'a list \<Rightarrow> 'a list" where
  "by_path L path rs = sort_key (\<lambda>r. collate L (path r)) rs"

definition updatedObjectsCTE :: "lib \<Rightarrow> queryBuilder \<Rightarrow> DB \<Rightarrow> object_row list \<Rightarrow> DbObject list" where
  "updatedObjectsCTE L qb db possible_objects =
     map (\<lambda>r. \<lparr>d_hash = o_hash r, d_path = o_path r, d_mode = o_mode r, d_size = o_size r, d_deleted = False,
               d_cached = o_hash r \<in> set (cachedObjectHashesCTE qb db), d_packed = o_packed r\<rparr>)
       (by_path L o_path (filter (\<lambda>r. o_project r = qb_project qb \<and> starts_in (qb_vrange qb) r
          \<and> pathPredicate qb (o_path r) \<and> ignoresPredicate qb (o_path r)) possible_objects))"

text \<open>A removal is left out when an updated path takes the removed one's place.\<close>

definition replaced_by :: "string \<Rightarrow> string \<Rightarrow> bool" where
  "replaced_by path new \<longleftrightarrow>
     (\<not> HasSuffix path ''/'' \<and> path = new)
   \<or> (HasSuffix path ''/'' \<and> HasPrefix new path)
   \<or> (\<not> HasSuffix path ''/'' \<and> HasPrefix new (path @ ''/''))"

definition removedObjectsCTE :: "lib \<Rightarrow> queryBuilder \<Rightarrow> object_row list \<Rightarrow> DbObject list \<Rightarrow> DbObject list" where
  "removedObjectsCTE L qb possible_objects updated_objects =
     map (\<lambda>r. \<lparr>d_hash = zeroHash, d_path = o_path r, d_mode = o_mode r, d_size = 0, d_deleted = True,
               d_cached = False, d_packed = o_packed r\<rparr>)
       (by_path L o_path (filter (\<lambda>r. o_project r = qb_project qb \<and> o_start r \<le> From (qb_vrange qb)
          \<and> stops_in (qb_vrange qb) r \<and> ignoresPredicate qb (o_path r)
          \<and> \<not> list_ex (\<lambda>u. replaced_by (o_path r) (d_path u)) updated_objects) possible_objects))"

definition queryWithoutRemovals :: "lib \<Rightarrow> queryBuilder \<Rightarrow> DB \<Rightarrow> DbObject list" where
  "queryWithoutRemovals L qb db = updatedObjectsCTE L qb db (possibleObjectsCTE qb False db)"

definition queryWithRemovals :: "lib \<Rightarrow> queryBuilder \<Rightarrow> DB \<Rightarrow> DbObject list" where
  "queryWithRemovals L qb db =
     (let possible_objects = possibleObjectsCTE qb True db;
          updated_objects = updatedObjectsCTE L qb db possible_objects;
          removed_objects = removedObjectsCTE L qb possible_objects updated_objects
      in updated_objects @ removed_objects)"

definition build :: "lib \<Rightarrow> queryBuilder \<Rightarrow> DB \<Rightarrow> DbObject list" where
  "build L qb db = (if From (qb_vrange qb) = 0 then queryWithoutRemovals L qb db else queryWithRemovals L qb db)"

definition executeQuery :: "lib \<Rightarrow> queryBuilder \<Rightarrow> (DB, DbObject list) dbm" where
  "executeQuery L qb db = (db, Inr (build L qb db))"

section \<open>Pack manager\<close>

record PackManager =
  matchers :: "string list"

definition NewPackManager :: "lib \<Rightarrow> int \<Rightarrow> (DB, PackManager) dbm" where
  "NewPackManager L project db =
     (case find_project db project of
        None \<Rightarrow> (db, Inl ErrNotFound)
      | Some r \<Rightarrow>
          (let patterns = (case pack_patterns r of None \<Rightarrow> [] | Some ps \<Rightarrow> ps) in
           if list_all (re_valid L) patterns then (db, Inr \<lparr>matchers = patterns\<rparr>) else (db, Inl ErrPanic)))"

fun packed_at :: "(string \<Rightarrow> bool) \<Rightarrow> string \<Rightarrow> string list \<Rightarrow> string option" where
  "packed_at m currentPath [] = None"
| "packed_at m currentPath (split # splits) =
     (let currentPath = currentPath @ split @ ''/'' in
      if m currentPath then Some currentPath else packed_at m currentPath splits)"

definition IsPathPacked :: "lib \<Rightarrow> PackManager \<Rightarrow> string \<Rightarrow> string option" where
  "IsPathPacked L p path =
     packed_at (\<lambda>s. list_ex (\<lambda>matcher. re_match L matcher s) (matchers p)) [] (Split path (CHR ''/''))"

section \<open>LIKE on plain prefixes\<close>

definition plain :: "string \<Rightarrow> bool" where
  "plain p \<longleftrightarrow> set p \<inter> {CHR ''%'', CHR ''_'', CHR 0x5C} = {}"

lemma like_all: "like ''%'' t"
proof (induction "length t" arbitrary: t rule: less_induct)
  case less
  then show ?case by (cases "t = []") (simp_all add: length_next_char)
qed

lemma like_prefix: "plain p \<Longrightarrow> like (p @ ''%'') s \<longleftrightarrow> HasPrefix s p"
proof (induction p arbitrary: s)
  case Nil
  then show ?case using like_all[of s] by simp
next
  case (Cons c p)
  then have "plain p" "c \<noteq> CHR ''%''" "c \<noteq> CHR ''_''" "c \<noteq> CHR 0x5C" by (auto simp: plain_def)
  with Cons.IH show ?case by (cases s) (auto simp: HasPrefix_def)
qed

section \<open>Queries and snapshots\<close>

lemma set_by_path [simp]: "set (by_path L f rs) = set rs"
  by (simp add: by_path_def)

lemma starts_in_live: "starts_in vr r \<longleftrightarrow> From vr < o_start r \<and> live_at (To vr) r"
  by (auto simp: starts_in_def live_at_def split: option.splits)

definition object_file :: "DbObject \<Rightarrow> dlfile" where
  "object_file d = (d_path d, d_hash d, d_mode d, d_size d, d_packed d)"

abbreviation updates_of :: "lib \<Rightarrow> queryBuilder \<Rightarrow> DB \<Rightarrow> DbObject list" where
  "updates_of L qb db \<equiv> filter (\<lambda>d. \<not> d_deleted d) (build L qb db)"

abbreviation removals_of :: "lib \<Rightarrow> queryBuilder \<Rightarrow> DB \<Rightarrow> DbObject list" where
  "removals_of L qb db \<equiv> filter d_deleted (build L qb db)"

definition selected :: "queryBuilder \<Rightarrow> object_row \<Rightarrow> bool" where
  "selected qb r \<longleftrightarrow> o_project r = qb_project qb \<and> pathPredicate qb (o_path r) \<and> ignoresPredicate qb (o_path r)"

lemma set_updatedObjectsCTE:
  "object_file ` set (updatedObjectsCTE L qb db (possibleObjectsCTE qb w db)) =
     row_file ` {r \<in> set (objects db). selected qb r \<and> starts_in (qb_vrange qb) r}"
proof -
  have "{r \<in> set (possibleObjectsCTE qb w db). o_project r = qb_project qb \<and> starts_in (qb_vrange qb) r
      \<and> pathPredicate qb (o_path r) \<and> ignoresPredicate qb (o_path r)}
    = {r \<in> set (objects db). selected qb r \<and> starts_in (qb_vrange qb) r}"
    by (auto simp: possibleObjectsCTE_def selected_def Let_def)
  then show ?thesis
    by (simp add: updatedObjectsCTE_def image_image object_file_def row_file_def)
qed

lemma filter_deleted [simp]:
  "filter (\<lambda>d. \<not> d_deleted d) (updatedObjectsCTE L qb db rs) = updatedObjectsCTE L qb db rs"
  "filter d_deleted (updatedObjectsCTE L qb db rs) = []"
  "filter d_deleted (removedObjectsCTE L qb rs us) = removedObjectsCTE L qb rs us"
  "filter (\<lambda>d. \<not> d_deleted d) (removedObjectsCTE L qb rs us) = []"
  by (auto simp: updatedObjectsCTE_def removedObjectsCTE_def filter_id_conv filter_empty_conv)

lemma updates_of_eq: "updates_of L qb db = updatedObjectsCTE L qb db (possibleObjectsCTE qb (From (qb_vrange qb) \<noteq> 0) db)"
  by (simp add: build_def queryWithoutRemovals_def queryWithRemovals_def Let_def)

lemma removals_of_eq: "removals_of L qb db = (if From (qb_vrange qb) = 0 then []
    else removedObjectsCTE L qb (possibleObjectsCTE qb True db) (updates_of L qb db))"
  unfolding updates_of_eq
  by (simp add: build_def queryWithoutRemovals_def queryWithRemovals_def Let_def)

lemma updates_files: "object_file ` set (updates_of L qb db) =
    row_file ` {r \<in> set (objects db). selected qb r \<and> starts_in (qb_vrange qb) r}"
  unfolding updates_of_eq by (rule set_updatedObjectsCTE)

text \<open>Without a lower version the query is the part of the snapshot it selects.\<close>

lemma full_query_files:
  assumes "\<And>r. r \<in> set (objects db) \<Longrightarrow> 1 \<le> o_start r" and "From (qb_vrange qb) = 0"
  shows "object_file ` set (build L qb db) =
    {f \<in> snapshot (objects db) (qb_project qb) (To (qb_vrange qb)). pathPredicate qb (fst f) \<and> ignoresPredicate qb (fst f)}"
proof -
  have "build L qb db = updates_of L qb db"
    using assms(2) by (simp add: build_def queryWithoutRemovals_def)
  moreover have "starts_in (qb_vrange qb) r \<longleftrightarrow> live_at (To (qb_vrange qb)) r" if "r \<in> set (objects db)" for r
    using assms(1)[OF that] assms(2) by (simp add: starts_in_live)
  ultimately have "object_file ` set (build L qb db) =
      row_file ` {r \<in> set (objects db). selected qb r \<and> live_at (To (qb_vrange qb)) r}"
    using updates_files[of L qb db] by (metis (mono_tags, lifting) Collect_cong)
  then show ?thesis by (auto simp: snapshot_def selected_def row_file_def)
qed

section \<open>A query between two versions is a difference\<close>

text \<open>
  Applying a difference to a set of files: the removed paths go, so does every file an updated
  path takes the place of, and the updated files come in.
\<close>

definition apply_diff :: "dlfile set \<Rightarrow> string set \<Rightarrow> dlfile set \<Rightarrow> dlfile set" where
  "apply_diff updated removed S =
     {f \<in> S. fst f \<notin> removed \<and> \<not> (\<exists>u \<in> updated. replaced_by (fst f) (fst u))} \<union> updated"

text \<open>No file of a tree takes the place of another: no path below a file, no empty directory with content.\<close>

definition tree_ok :: "dlfile set \<Rightarrow> bool" where
  "tree_ok S \<longleftrightarrow> (\<forall>f \<in> S. \<forall>g \<in> S. replaced_by (fst f) (fst g) \<longrightarrow> fst f = fst g)"

definition whole :: "int \<Rightarrow> VersionRange \<Rightarrow> queryBuilder" where
  "whole p vr = newQueryBuilder p vr \<lparr>q_Path = [], q_IsPrefix = True, q_Ignores = []\<rparr>"

lemma whole_simps [simp]:
  "qb_project (whole p vr) = p" "qb_vrange (whole p vr) = vr"
  "pathPredicate (whole p vr) path" "ignoresPredicate (whole p vr) path"
  by (simp_all add: whole_def newQueryBuilder_def pathPredicate_def ignoresPredicate_def bound_def named_args_def)

lemma selected_whole [simp]: "selected (whole p vr) r \<longleftrightarrow> o_project r = p"
  by (simp add: selected_def)

lemma removals_paths:
  assumes "From vr \<noteq> 0"
  shows "d_path ` set (removals_of L (whole p vr) db) =
    {o_path r | r. r \<in> set (objects db) \<and> o_project r = p \<and> o_start r \<le> From vr \<and> stops_in vr r \<and>
       \<not> (\<exists>u \<in> object_file ` set (updates_of L (whole p vr) db). replaced_by (o_path r) (fst u))}"
  (is "?l = ?r")
proof -
  have possible: "r \<in> set (possibleObjectsCTE (whole p vr) True db)"
    if "r \<in> set (objects db)" "o_project r = p" "o_start r \<le> From vr" "stops_in vr r" for r
    using that by (auto simp: possibleObjectsCTE_def Let_def stops_in_def split: option.splits)
  have ex: "list_ex (\<lambda>u. replaced_by q (d_path u)) us \<longleftrightarrow> (\<exists>u \<in> object_file ` set us. replaced_by q (fst u))" for q us
    by (auto simp: list_ex_iff object_file_def)
  have "?l = o_path ` {r \<in> set (possibleObjectsCTE (whole p vr) True db). o_project r = p \<and> o_start r \<le> From vr \<and>
      stops_in vr r \<and> \<not> (\<exists>u \<in> object_file ` set (updates_of L (whole p vr) db). replaced_by (o_path r) (fst u))}"
    using assms unfolding removals_of_eq by (simp add: removedObjectsCTE_def image_image ex)
  also have "\<dots> = ?r" using possible by (auto simp: possibleObjectsCTE_def Let_def)
  finally show ?thesis .
qed

lemma live_or_stopped:
  "row_within n r \<Longrightarrow> live_at (From vr) r \<Longrightarrow> From vr \<le> To vr \<Longrightarrow> live_at (To vr) r \<or> (o_start r \<le> From vr \<and> stops_in vr r)"
  by (auto simp: live_at_def stops_in_def split: option.splits)

lemma diff_query_exact:
  assumes "db_ok db" and "0 < From vr" and "From vr \<le> To vr"
    and "tree_ok (snapshot (objects db) p (To vr))"
  shows "apply_diff (object_file ` set (updates_of L (whole p vr) db)) (d_path ` set (removals_of L (whole p vr) db))
      (snapshot (objects db) p (From vr)) = snapshot (objects db) p (To vr)"
proof -
  let ?U = "object_file ` set (updates_of L (whole p vr) db)" and ?R = "d_path ` set (removals_of L (whole p vr) db)"
  let ?S = "snapshot (objects db) p"
  have U: "?U = row_file ` {r \<in> set (objects db). o_project r = p \<and> From vr < o_start r \<and> live_at (To vr) r}"
    unfolding updates_files by (simp add: starts_in_live)
  have U_sub: "?U \<subseteq> ?S (To vr)" unfolding U snapshot_def by blast
  have R: "q \<in> ?R \<longleftrightarrow> (\<exists>r \<in> set (objects db). o_path r = q \<and> o_project r = p \<and> o_start r \<le> From vr \<and> stops_in vr r \<and>
       \<not> (\<exists>u \<in> ?U. replaced_by q (fst u)))" for q
    using assms(2) removals_paths[of vr L p db] by auto
  have keep: "f \<in> ?S (To vr)" if k: "f \<in> ?S (From vr)" "fst f \<notin> ?R" "\<not> (\<exists>u \<in> ?U. replaced_by (fst f) (fst u))" for f
  proof -
    obtain r where r: "r \<in> set (objects db)" "o_project r = p" "live_at (From vr) r" "f = row_file r"
      using k(1) unfolding snapshot_def by blast
    then have "fst f = o_path r" by (simp add: row_file_def)
    then have "\<not> (o_start r \<le> From vr \<and> stops_in vr r)" using R[of "fst f"] k(2,3) r(1,2) by auto
    then have "live_at (To vr) r" using live_or_stopped[OF db_okD(3)[OF assms(1) r(1)] r(3) assms(3)] by blast
    with r show ?thesis by (auto simp: snapshot_def)
  qed
  have stay: "f \<in> ?S (From vr) \<and> fst f \<notin> ?R \<and> \<not> (\<exists>u \<in> ?U. replaced_by (fst f) (fst u))"
    if f: "f \<in> ?S (To vr)" "f \<notin> ?U" for f
  proof -
    obtain r where r: "r \<in> set (objects db)" "o_project r = p" "live_at (To vr) r" "f = row_file r"
      using f(1) unfolding snapshot_def by blast
    then have old: "o_start r \<le> From vr" using f(2) unfolding U by fastforce
    then have live: "live_at (From vr) r" using r(3) assms(3) by (auto simp: live_at_def split: option.splits)
    have path: "fst f = o_path r" using r(4) by (simp add: row_file_def)
    have "\<not> replaced_by (fst f) (fst u)" if u: "u \<in> ?U" for u
    proof
      assume "replaced_by (fst f) (fst u)"
      then have same: "fst f = fst u" using assms(4) f(1) u U_sub unfolding tree_ok_def by blast
      obtain s where s: "s \<in> set (objects db)" "o_project s = p" "From vr < o_start s" "live_at (To vr) s" "u = row_file s"
        using u unfolding U by blast
      have "o_path s = o_path r" using same path s(5) by (simp add: row_file_def)
      then have "s = r" using db_ok_same_row[OF assms(1) s(1) r(1) _ _ s(4) r(3)] s(2) r(2) by simp
      with s(3) old show False by simp
    qed
    moreover have "fst f \<notin> ?R"
    proof
      assume "fst f \<in> ?R"
      then obtain s where s: "s \<in> set (objects db)" "o_path s = fst f" "o_project s = p" "o_start s \<le> From vr" "stops_in vr s"
        unfolding R by blast
      then have "live_at (From vr) s" by (auto simp: stops_in_def live_at_def split: option.splits)
      then have "s = r" using db_ok_same_row[OF assms(1) s(1) r(1) _ _ _ live] s(2,3) r(2) path by simp
      with s(5) r(3) show False by (auto simp: stops_in_def live_at_def split: option.splits)
    qed
    moreover have "f \<in> ?S (From vr)" unfolding snapshot_def using r(1,2,4) live by blast
    ultimately show ?thesis by blast
  qed
  show ?thesis unfolding apply_diff_def using keep stay U_sub by blast
qed

section \<open>Packing is a property of the directory\<close>

lemma packed_at_prefix:
  "packed_at m cur ss = Some par \<Longrightarrow> \<exists>pre post. ss = pre @ post \<and> pre \<noteq> [] \<and> par = cur @ concat (map (\<lambda>s. s @ ''/'') pre)"
proof (induction ss arbitrary: cur)
  case (Cons s ss)
  show ?case
  proof (cases "m (cur @ s @ ''/'')")
    case True
    with Cons.prems show ?thesis by (intro exI[of _ "[s]"] exI[of _ ss]) simp
  next
    case False
    with Cons.prems obtain pre post where "ss = pre @ post" "par = (cur @ s @ ''/'') @ concat (map (\<lambda>s. s @ ''/'') pre)"
      using Cons.IH[of "cur @ s @ ''/''"] by auto
    then show ?thesis by (intro exI[of _ "s # pre"] exI[of _ post]) simp
  qed
qed simp

lemma packed_at_append:
  "packed_at m cur (xs @ ys) = (case packed_at m cur xs of Some r \<Rightarrow> Some r
     | None \<Rightarrow> packed_at m (cur @ concat (map (\<lambda>s. s @ ''/'') xs)) ys)"
  by (induction xs arbitrary: cur) (auto simp: Let_def split: option.splits)

lemma packed_at_self:
  "packed_at m cur ss = Some par \<Longrightarrow> ss = pre @ post \<Longrightarrow> par = cur @ concat (map (\<lambda>s. s @ ''/'') pre) \<Longrightarrow>
   packed_at m cur pre = Some par"
proof (induction ss arbitrary: cur pre)
  case (Cons s ss)
  show ?case
  proof (cases pre)
    case Nil
    with Cons.prems packed_at_prefix[OF Cons.prems(1)] show ?thesis by auto
  next
    case (Cons x xs)
    with Cons.prems Cons.IH[of "cur @ s @ ''/''" xs] show ?thesis by (auto simp: Let_def split: if_splits)
  qed
qed simp

lemma Split_concat:
  "(\<And>s. s \<in> set pre \<Longrightarrow> CHR ''/'' \<notin> set s) \<Longrightarrow>
   Split (concat (map (\<lambda>s. s @ ''/'') pre) @ rest) (CHR ''/'') = pre @ Split rest (CHR ''/'')"
  by (induction pre) (simp_all add: Split_append_sep)

lemma Join_slash: "xs \<noteq> [] \<Longrightarrow> Join xs ''/'' @ ''/'' = concat (map (\<lambda>s. s @ ''/'') xs)"
proof (induction xs)
  case (Cons x xs)
  then show ?case by (cases "xs = []") (simp_all add: Join_Cons)
qed simp

lemma IsPathPacked_parent:
  assumes "IsPathPacked L pm path = Some par"
  shows "HasPrefix (path @ ''/'') par" and "IsPathPacked L pm (par @ rest) = Some par"
proof -
  let ?m = "\<lambda>s. list_ex (\<lambda>matcher. re_match L matcher s) (matchers pm)" and ?ss = "Split path (CHR ''/'')"
  let ?dirs = "\<lambda>xs. concat (map (\<lambda>s. s @ ''/'') xs)"
  have at: "packed_at ?m [] ?ss = Some par" using assms by (simp add: IsPathPacked_def)
  then obtain pre post where pre: "?ss = pre @ post" "par = ?dirs pre"
    using packed_at_prefix[OF at] by auto
  have "path @ ''/'' = ?dirs ?ss" using Join_slash[of ?ss] by (simp add: Join_Split)
  with pre show "HasPrefix (path @ ''/'') par" by simp
  have "packed_at ?m [] pre = Some par" using packed_at_self[OF at pre(1)] pre(2) by simp
  moreover have "Split (par @ rest) (CHR ''/'') = pre @ Split rest (CHR ''/'')"
    unfolding pre(2) by (rule Split_concat) (use pre(1) Split_no_sep[of _ path "CHR ''/''"] in auto)
  ultimately show "IsPathPacked L pm (par @ rest) = Some par"
    by (simp add: IsPathPacked_def packed_at_append)
qed

lemma IsPathPacked_slash: "IsPathPacked L pm path = Some par \<Longrightarrow> HasSuffix par ''/''"
proof -
  assume "IsPathPacked L pm path = Some par"
  from packed_at_prefix[OF this[unfolded IsPathPacked_def]]
  obtain pre where "pre \<noteq> []" "par = concat (map (\<lambda>s. s @ ''/'') pre)" by auto
  then show ?thesis by (cases pre rule: rev_cases) (auto simp: HasSuffix_iff)
qed

end
