(* ===== verification/Streams.thy ===== *)
theory Streams
  imports Queries
begin

text \<open>
  The streaming side of \<^verbatim>\<open>internal/db/query.go\<close>: loading contents in chunks of 200, the closures
  returned by \<^verbatim>\<open>GetObjects\<close>, \<^verbatim>\<open>GetTars\<close> and \<^verbatim>\<open>GetCacheTars\<close>, and \<^verbatim>\<open>cache.go\<close>. A closure's
  captured variables are a record; each call is a step. All of them meet the stream contract of
  \<open>Prelude\<close>, so the handlers' loops end and deliver exactly what a chunk-free, cache-free
  description says.
\<close>

section \<open>Unpacking and filtering\<close>

definition unpackObjects :: "tar_reader \<Rightarrow> dberr + pb_object list" where
  "unpackObjects r =
     (case each (Suc (length (tr_rest r))) Next
             (\<lambda>(header, content) objs. Inr (objs @ [ObjectFromTarHeader header content])) r [] of
        None \<Rightarrow> Inl ErrStuck
      | Some x \<Rightarrow> x)"

definition filterObject :: "string \<Rightarrow> ObjectQuery \<Rightarrow> pb_object \<Rightarrow> pb_object pull" where
  "filterObject path objectQuery ob =
     (if q_IsPrefix objectQuery \<and> HasPrefix (Path ob) path then Yield ob
      else if Path ob = path then Yield ob
      else SKIP)"

section \<open>Chunks of contents\<close>

definition chunkSize :: nat where
  "chunkSize = 200"

definition chunk_hashes :: "DbObject list \<Rightarrow> (Hash \<times> bool) list" where
  "chunk_hashes ds =
     fold (\<lambda>d hashes. if \<not> d_cached d then AList.update (d_hash d) (\<not> d_packed d) hashes else hashes) ds []"

definition loadChunk :: "lib \<Rightarrow> (string \<Rightarrow> bytes \<Rightarrow> bool) \<Rightarrow> contents_table \<Rightarrow> content_cache \<Rightarrow> DbObject list \<Rightarrow> nat \<Rightarrow> nat \<Rightarrow>
    content_cache \<times> (dberr + bytes option list)" where
  "loadChunk L adm table cache dbObjects startIdx csize =
     (let ds = take csize (drop startIdx dbObjects) in
      case Lookup L adm cache table (chunk_hashes ds) of
        (cache', Inl e) \<Rightarrow> (cache', Inl e)
      | (cache', Inr uncachedContents) \<Rightarrow>
          (cache', Inr (map (\<lambda>d. if d_cached d then Some (Hash_Bytes (d_hash d))
                                 else map_of uncachedContents (d_hash d)) ds)))"

record chunk_state =
  cs_idx :: nat
  cs_chunkIdx :: nat
  cs_chunk :: "bytes option list"
  cs_cache :: content_cache

text \<open>The part the closures share: reload the chunk when it is used up, then take the next object.\<close>

definition next_object :: "lib \<Rightarrow> (string \<Rightarrow> bytes \<Rightarrow> bool) \<Rightarrow> contents_table \<Rightarrow> DbObject list \<Rightarrow> chunk_state \<Rightarrow>
    chunk_state \<times> (dberr + DbObject \<times> bytes option)" where
  "next_object L adm table dbObjects s =
     (case (if cs_chunkIdx s \<ge> length (cs_chunk s) then
              (case loadChunk L adm table (cs_cache s) dbObjects (cs_idx s) chunkSize of
                 (cache', Inl e) \<Rightarrow> (s\<lparr>cs_chunkIdx := 0, cs_chunk := [], cs_cache := cache'\<rparr>, Some e)
               | (cache', Inr c) \<Rightarrow> (s\<lparr>cs_chunkIdx := 0, cs_chunk := c, cs_cache := cache'\<rparr>, None))
            else (s, None)) of
        (s1, Some e) \<Rightarrow> (s1, Inl e)
      | (s1, None) \<Rightarrow>
          (s1\<lparr>cs_idx := cs_idx s1 + 1, cs_chunkIdx := cs_chunkIdx s1 + 1\<rparr>,
           Inr (dbObjects ! cs_idx s1, cs_chunk s1 ! cs_chunkIdx s1)))"

section \<open>GetObjects\<close>

record object_stream =
  os_pos :: chunk_state
  os_packBuffer :: "pb_object list"

definition plain_object :: "DbObject \<Rightarrow> bytes option \<Rightarrow> pb_object" where
  "plain_object d content =
     \<lparr>Path = d_path d, Mode = d_mode d, Size = d_size d, Deleted = d_deleted d, Content = content\<rparr>"

definition object_step :: "lib \<Rightarrow> (string \<Rightarrow> bytes \<Rightarrow> bool) \<Rightarrow> contents_table \<Rightarrow> DbObject list \<Rightarrow> string \<Rightarrow> ObjectQuery \<Rightarrow>
    object_stream \<Rightarrow> object_stream \<times> pb_object pull" where
  "object_step L adm table dbObjects originalPath objectQuery s =
     (case os_packBuffer s of
        ob # rest \<Rightarrow> (s\<lparr>os_packBuffer := rest\<rparr>, filterObject originalPath objectQuery ob)
      | [] \<Rightarrow>
          if cs_idx (os_pos s) \<ge> length dbObjects then (s, EOF)
          else
            (case next_object L adm table dbObjects (os_pos s) of
               (pos, Inl e) \<Rightarrow> (s\<lparr>os_pos := pos\<rparr>, Fail e)
             | (pos, Inr (d, content)) \<Rightarrow>
                 if d_cached d then (s\<lparr>os_pos := pos\<rparr>, Fail ErrCachedHash)
                 else if d_packed d then
                   (case unpackObjects (FromBytes L (nil_bytes content)) of
                      Inl e \<Rightarrow> (s\<lparr>os_pos := pos\<rparr>, Fail e)
                    | Inr [] \<Rightarrow> (s\<lparr>os_pos := pos\<rparr>, Fail ErrPanic)
                    | Inr (ob # rest) \<Rightarrow>
                        (s\<lparr>os_pos := pos, os_packBuffer := rest\<rparr>, filterObject originalPath objectQuery ob))
                 else (s\<lparr>os_pos := pos\<rparr>, filterObject originalPath objectQuery (plain_object d content))))"

text \<open>
  The closure with everything it captures: the rows, the original path, the query (whose path
  is the pack parent when the path is packed) and the initial state.
\<close>

definition GetObjects :: "lib \<Rightarrow> (string \<Rightarrow> bytes \<Rightarrow> bool) \<Rightarrow> content_cache \<Rightarrow> PackManager \<Rightarrow> int \<Rightarrow> VersionRange \<Rightarrow> ObjectQuery \<Rightarrow>
    DB \<Rightarrow> dberr + DbObject list \<times> string \<times> ObjectQuery \<times> object_stream" where
  "GetObjects L adm cache packManager project vrange objectQuery db =
     (let originalPath = q_Path objectQuery;
          query = (case IsPathPacked L packManager originalPath of
                     None \<Rightarrow> objectQuery
                   | Some packParent \<Rightarrow> objectQuery\<lparr>q_Path := packParent\<rparr>);
          dbObjects = build L (newQueryBuilder project vrange query) db in
      case loadChunk L adm (contents db) cache dbObjects 0 chunkSize of
        (cache', Inl e) \<Rightarrow> Inl e
      | (cache', Inr c) \<Rightarrow>
          Inr (dbObjects, originalPath, query,
               \<lparr>os_pos = \<lparr>cs_idx = 0, cs_chunkIdx = 0, cs_chunk = c, cs_cache = cache'\<rparr>, os_packBuffer = []\<rparr>))"

section \<open>GetTars\<close>

definition TargetTarSize :: int where
  "TargetTarSize = 512 * 1024"

record tars_stream =
  ts_pos :: chunk_state
  ts_writer :: tar_writer

definition tars_step :: "lib \<Rightarrow> (string \<Rightarrow> bytes \<Rightarrow> bool) \<Rightarrow> contents_table \<Rightarrow> DbObject list \<Rightarrow>
    tars_stream \<Rightarrow> tars_stream \<times> (bytes option \<times> string option) pull" where
  "tars_step L adm table dbObjects s =
     (if cs_idx (ts_pos s) \<ge> length dbObjects then
        (if tw_size (ts_writer s) > 0 then
           (case BytesAndReset L (ts_writer s) of (bytes, w) \<Rightarrow> (s\<lparr>ts_writer := w\<rparr>, Yield (Some bytes, None)))
         else (s, EOF))
      else
        (case next_object L adm table dbObjects (ts_pos s) of
           (pos, Inl e) \<Rightarrow> (s\<lparr>ts_pos := pos\<rparr>, Fail e)
         | (pos, Inr (d, content)) \<Rightarrow>
             if d_packed d \<and> \<not> d_cached d then (s\<lparr>ts_pos := pos\<rparr>, Yield (content, Some (d_path d)))
             else
               (case WriteObject L (ToTarObject d content) (ts_writer s) of
                  Inl e \<Rightarrow> (s\<lparr>ts_pos := pos\<rparr>, Fail e)
                | Inr w \<Rightarrow>
                    if tw_size w > TargetTarSize then
                      (case BytesAndReset L w of
                         (bytes, w') \<Rightarrow> (s\<lparr>ts_pos := pos, ts_writer := w'\<rparr>, Yield (Some bytes, None)))
                    else (s\<lparr>ts_pos := pos, ts_writer := w\<rparr>, SKIP))))"

definition GetTars :: "lib \<Rightarrow> (string \<Rightarrow> bytes \<Rightarrow> bool) \<Rightarrow> content_cache \<Rightarrow> int \<Rightarrow> int list \<Rightarrow> VersionRange \<Rightarrow> ObjectQuery \<Rightarrow>
    DB \<Rightarrow> dberr + DbObject list \<times> tars_stream" where
  "GetTars L adm cache project cacheVersions vrange objectQuery db =
     (let dbObjects = build L (withCacheVersions (newQueryBuilder project vrange objectQuery) cacheVersions) db in
      case loadChunk L adm (contents db) cache dbObjects 0 chunkSize of
        (cache', Inl e) \<Rightarrow> Inl e
      | (cache', Inr c) \<Rightarrow>
          Inr (dbObjects,
               \<lparr>ts_pos = \<lparr>cs_idx = 0, cs_chunkIdx = 0, cs_chunk = c, cs_cache = cache'\<rparr>, ts_writer = NewTarWriter\<rparr>))"

section \<open>Cache tars\<close>

definition latest_cache_version :: "DB \<Rightarrow> int option" where
  "latest_cache_version db =
     (case sort_key (\<lambda>v. - v) (map fst (cache_versions db)) of [] \<Rightarrow> None | v # _ \<Rightarrow> Some v)"

definition cache_rows :: "DB \<Rightarrow> int \<Rightarrow> (Hash \<times> bytes) list" where
  "cache_rows db version =
     List.map_filter (\<lambda>h. map_option (\<lambda>b. (h, b)) (map_of (contents db) h))
       (concat (map snd (filter (\<lambda>(v, hs). v = version) (cache_versions db))))"

record cache_stream =
  ch_version :: int
  ch_rows :: "(Hash \<times> bytes) list"

definition cache_step :: "cache_stream \<Rightarrow> cache_stream \<times> (int \<times> bytes \<times> Hash) pull" where
  "cache_step s =
     (case ch_rows s of
        [] \<Rightarrow> (s, EOF)
      | (h, encoded) # rows \<Rightarrow> (s\<lparr>ch_rows := rows\<rparr>, Yield (ch_version s, encoded, h)))"

definition GetCacheTars :: "DB \<Rightarrow> cache_stream" where
  "GetCacheTars db =
     (case latest_cache_version db of
        None \<Rightarrow> \<lparr>ch_version = 0, ch_rows = []\<rparr>
      | Some v \<Rightarrow> \<lparr>ch_version = v, ch_rows = cache_rows db v\<rparr>)"

text \<open>\<^verbatim>\<open>cache.go\<close>: the packed hashes that occur most often among the live objects below a prefix.\<close>

definition cache_candidates :: "DB \<Rightarrow> string \<Rightarrow> Hash list" where
  "cache_candidates db pre =
     map o_hash (filter (\<lambda>r. like (pre @ ''%'') (o_path r) \<and> o_packed r \<and> o_stop r = None) (objects db))"

definition impactful_packed_objects :: "DB \<Rightarrow> string \<Rightarrow> nat \<Rightarrow> Hash list" where
  "impactful_packed_objects db pre n =
     (let hs = cache_candidates db pre in
      take n (sort_key (\<lambda>h. - int (count_list hs h)) (remdups hs)))"

definition CreateCache :: "string \<Rightarrow> int \<Rightarrow> (DB, int) dbm" where
  "CreateCache pre limit db =
     (if limit < 0 then (db, Inl ErrNegativeLimit)
      else
        (let version = cache_seq db + 1 in
         (db\<lparr>cache_versions := cache_versions db @ [(version, impactful_packed_objects db pre (nat limit))],
             cache_seq := version\<rparr>, Inr version)))"

section \<open>Reading an archive\<close>

definition reader_todo :: "tar_reader \<Rightarrow> tar_entry list \<times> dberr option" where
  "reader_todo r = (tr_rest r, if tr_clean r then None else Some ErrTarRead)"

interpretation rdr: pull_stream Next "\<lambda>_. True" reader_todo "\<lambda>r. length (tr_rest r)"
  by unfold_locales (auto simp: Next_def reader_todo_def split: list.splits if_splits)

lemma unpackObjects_eq:
  "unpackObjects (FromBytes L b) =
     (if snd (tar_decode L b) then Inr (map object_of (fst (tar_decode L b))) else Inl ErrTarRead)"
proof -
  let ?r = "FromBytes L b"
  have "(\<lambda>(header, content) objs. Inr (objs @ [ObjectFromTarHeader header content])) =
      (\<lambda>e objs. Inr (objs @ [object_of e]) :: dberr + pb_object list)"
    by (auto simp: fun_eq_iff object_of_def)
  then have "unpackObjects ?r = consume (\<lambda>e objs. Inr (objs @ [object_of e])) (reader_todo ?r) []"
    by (simp add: unpackObjects_def rdr.each_consume del: each.simps)
  then show ?thesis
    by (cases "tar_decode L b") (simp add: consume_def reader_todo_def foldE_append FromBytes_def)
qed

section \<open>Loading chunks\<close>

text \<open>The content of an object, without chunks: cached objects carry their hash.\<close>

definition object_content :: "lib \<Rightarrow> content_cache \<Rightarrow> contents_table \<Rightarrow> DbObject \<Rightarrow> bytes option" where
  "object_content L cache table d =
     (if d_cached d then Some (Hash_Bytes (d_hash d))
      else Option.bind (content_at cache table (d_hash d)) (value_of L (\<not> d_packed d)))"

text \<open>
  The objects of a query can be served: every stored content that must be decoded can be, and
  no hash is used both for a pack and for a plain object.
\<close>

definition servable :: "lib \<Rightarrow> content_cache \<Rightarrow> contents_table \<Rightarrow> DbObject list \<Rightarrow> bool" where
  "servable L cache table ds \<longleftrightarrow>
     distinct (map fst table) \<and> list_all (\<lambda>c. hash_ok (fst c)) table \<and>
     list_all (\<lambda>d. \<not> d_cached d \<longrightarrow> hash_ok (d_hash d) \<and>
       (case content_at cache table (d_hash d) of None \<Rightarrow> True | Some v \<Rightarrow> value_of L (\<not> d_packed d) v \<noteq> None)) ds \<and>
     list_all (\<lambda>d. list_all (\<lambda>e. \<not> d_cached d \<and> \<not> d_cached e \<and> d_hash d = d_hash e \<longrightarrow> d_packed d = d_packed e) ds) ds"

lemma servable_value:
  assumes "servable L cache table ds" and "d \<in> set ds" and "\<not> d_cached d" and "content_at cache table (d_hash d) = Some v"
  shows "value_of L (\<not> d_packed d) v \<noteq> None"
proof -
  have "\<not> d_cached d \<longrightarrow> hash_ok (d_hash d) \<and>
       (case content_at cache table (d_hash d) of None \<Rightarrow> True | Some v \<Rightarrow> value_of L (\<not> d_packed d) v \<noteq> None)"
    using assms(1,2) unfolding servable_def list_all_iff by blast
  with assms(3,4) show ?thesis by simp
qed

lemma servable_kinds:
  assumes "servable L cache table ds" and "d \<in> set ds" "e \<in> set ds" "\<not> d_cached d" "\<not> d_cached e" "d_hash d = d_hash e"
  shows "d_packed d = d_packed e"
  using assms unfolding servable_def list_all_iff by blast

lemma chunk_hashes_fold:
  "map_of (fold (\<lambda>d hashes. if \<not> d_cached d then AList.update (d_hash d) (\<not> d_packed d) hashes else hashes) ds acc) h =
     (case find (\<lambda>d. \<not> d_cached d \<and> d_hash d = h) (rev ds) of Some d \<Rightarrow> Some (\<not> d_packed d) | None \<Rightarrow> map_of acc h)"
  by (induction ds arbitrary: acc) (auto simp: find_append_case AList.update_conv' split: option.splits)

lemma distinct_chunk_hashes: "distinct (map fst (chunk_hashes ds))"
proof -
  have "distinct (map fst acc) \<Longrightarrow> distinct (map fst (fold (\<lambda>d hashes. if \<not> d_cached d
      then AList.update (d_hash d) (\<not> d_packed d) hashes else hashes) ds acc))" for acc
    by (induction ds arbitrary: acc) (simp_all add: AList.distinct_update)
  then show ?thesis by (simp add: chunk_hashes_def)
qed

lemma chunk_hashes_mem:
  assumes "(h, e) \<in> set (chunk_hashes ds)"
  shows "\<exists>d \<in> set ds. \<not> d_cached d \<and> d_hash d = h \<and> e = (\<not> d_packed d)"
proof -
  have "map_of (chunk_hashes ds) h = Some e" using assms distinct_chunk_hashes by simp
  then show ?thesis
    unfolding chunk_hashes_def chunk_hashes_fold by (auto split: option.splits dest!: findSomeD)
qed

lemma chunk_hashes_has:
  assumes "d \<in> set ds" and "\<not> d_cached d"
    and "\<And>e. e \<in> set ds \<Longrightarrow> \<not> d_cached e \<Longrightarrow> d_hash e = d_hash d \<Longrightarrow> d_packed e = d_packed d"
  shows "(d_hash d, \<not> d_packed d) \<in> set (chunk_hashes ds)"
proof -
  have "find (\<lambda>e. \<not> d_cached e \<and> d_hash e = d_hash d) (rev ds) \<noteq> None"
    unfolding find_None_iff using assms(1,2) by auto
  then obtain e where e: "find (\<lambda>e. \<not> d_cached e \<and> d_hash e = d_hash d) (rev ds) = Some e" by blast
  then have "d_packed e = d_packed d" using findSomeD[OF e] assms(3)[of e] by simp
  with e have "map_of (chunk_hashes ds) (d_hash d) = Some (\<not> d_packed d)"
    by (simp add: chunk_hashes_def chunk_hashes_fold)
  then show ?thesis by (rule map_of_SomeD)
qed

lemma loadChunk_ok:
  assumes "servable L cache table dbObjects"
  shows "\<exists>cache'. loadChunk L adm table cache dbObjects i n =
      (cache', Inr (map (object_content L cache table) (take n (drop i dbObjects)))) \<and>
    (\<forall>h. hash_ok h \<longrightarrow> content_at cache' table h = content_at cache table h)"
proof -
  let ?ds = "take n (drop i dbObjects)"
  have sub: "set ?ds \<subseteq> set dbObjects" by (meson order_trans set_drop_subset set_take_subset)
  have kinds: "d_packed e = d_packed d" if "d \<in> set ?ds" "e \<in> set ?ds" "\<not> d_cached d" "\<not> d_cached e" "d_hash e = d_hash d" for d e
    using servable_kinds[OF assms, of d e] sub that by auto
  have val: "value_of L e v \<noteq> None" if he: "(h, e) \<in> set (chunk_hashes ?ds)" "content_at cache table h = Some v" for h e v
  proof -
    obtain d where "d \<in> set dbObjects" "\<not> d_cached d" "d_hash d = h" "e = (\<not> d_packed d)"
      using chunk_hashes_mem[OF he(1)] sub by blast
    with servable_value[OF assms, of d v] he(2) show ?thesis by simp
  qed
  have "\<exists>cache' cs. Lookup L adm cache table (chunk_hashes ?ds) = (cache', Inr cs) \<and>
    (\<forall>k. hash_ok k \<longrightarrow> content_at cache' table k = content_at cache table k) \<and>
    (\<forall>h e. (h, e) \<in> set (chunk_hashes ?ds) \<longrightarrow> map_of cs h = Option.bind (content_at cache table h) (value_of L e))"
    by (rule Lookup_content[OF distinct_chunk_hashes])
      (use assms val in \<open>auto simp: servable_def list_all_iff\<close>)
  then obtain cache' cs where l: "Lookup L adm cache table (chunk_hashes ?ds) = (cache', Inr cs)"
    and k: "\<And>k. hash_ok k \<Longrightarrow> content_at cache' table k = content_at cache table k"
    and m: "\<And>h e. (h, e) \<in> set (chunk_hashes ?ds) \<Longrightarrow> map_of cs h = Option.bind (content_at cache table h) (value_of L e)"
    by blast
  have "(if d_cached d then Some (Hash_Bytes (d_hash d)) else map_of cs (d_hash d)) = object_content L cache table d"
    if "d \<in> set ?ds" for d
    using m[OF chunk_hashes_has[OF that]] kinds[OF that] by (auto simp: object_content_def)
  then have "map (\<lambda>d. if d_cached d then Some (Hash_Bytes (d_hash d)) else map_of cs (d_hash d)) ?ds =
      map (object_content L cache table) ?ds" by (intro map_cong) auto
  with l k show ?thesis by (simp add: loadChunk_def Let_def)
qed

section \<open>The position in the query result\<close>

definition pos_ok :: "lib \<Rightarrow> contents_table \<Rightarrow> DbObject list \<Rightarrow> chunk_state \<Rightarrow> bool" where
  "pos_ok L table ds s \<longleftrightarrow>
     servable L (cs_cache s) table ds \<and> cs_idx s \<le> length ds \<and> cs_chunkIdx s \<le> length (cs_chunk s) \<and>
     drop (cs_chunkIdx s) (cs_chunk s) =
       map (object_content L (cs_cache s) table) (take (length (cs_chunk s) - cs_chunkIdx s) (drop (cs_idx s) ds))"

lemma servable_hash: "servable L cache table ds \<Longrightarrow> d \<in> set ds \<Longrightarrow> \<not> d_cached d \<Longrightarrow> hash_ok (d_hash d)"
  by (auto simp: servable_def list_all_iff)

lemma object_content_cong:
  assumes "servable L cache table ds" and "\<And>h. hash_ok h \<Longrightarrow> content_at cache' table h = content_at cache table h"
  shows "d \<in> set ds \<Longrightarrow> object_content L cache' table d = object_content L cache table d"
    and "servable L cache' table ds"
proof -
  show "d \<in> set ds \<Longrightarrow> object_content L cache' table d = object_content L cache table d"
    using assms servable_hash[OF assms(1)] by (simp add: object_content_def)
  have "list_all (\<lambda>d. \<not> d_cached d \<longrightarrow> hash_ok (d_hash d) \<and> (case content_at cache' table (d_hash d) of
      None \<Rightarrow> True | Some v \<Rightarrow> value_of L (\<not> d_packed d) v \<noteq> None)) ds"
    using assms unfolding servable_def list_all_iff by metis
  with assms(1) show "servable L cache' table ds" unfolding servable_def by blast
qed

lemma step_in_chunk:
  assumes "drop ci c = map f (take (length c - ci) (drop i ds))" and "ci < length c"
  shows "i < length ds" "c ! ci = f (ds ! i)" "drop (Suc ci) c = map f (take (length c - Suc ci) (drop (Suc i) ds))"
proof -
  have "length (drop ci c) = length (map f (take (length c - ci) (drop i ds)))" using assms(1) by simp
  with assms(2) show i: "i < length ds" by (cases "i < length ds") simp_all
  have c: "drop ci c = c ! ci # drop (Suc ci) c" by (rule Cons_nth_drop_Suc[OF assms(2), symmetric])
  have "take (length c - ci) (drop i ds) = ds ! i # take (length c - Suc ci) (drop (Suc i) ds)"
    using assms(2) by (simp add: Cons_nth_drop_Suc[OF i, symmetric] take_Cons' Suc_diff_Suc)
  with assms(1) c show "c ! ci = f (ds ! i)" "drop (Suc ci) c = map f (take (length c - Suc ci) (drop (Suc i) ds))"
    by simp_all
qed

lemma next_object_ok:
  assumes "pos_ok L table ds s" and "cs_idx s < length ds"
  shows "\<exists>s'. next_object L adm table ds s = (s', Inr (ds ! cs_idx s, object_content L (cs_cache s) table (ds ! cs_idx s))) \<and>
    pos_ok L table ds s' \<and> cs_idx s' = Suc (cs_idx s) \<and>
    (\<forall>d \<in> set ds. object_content L (cs_cache s') table d = object_content L (cs_cache s) table d)"
proof -
  have serv: "servable L (cs_cache s) table ds" using assms(1) by (simp add: pos_ok_def)
  obtain s1 where s1: "(if cs_chunkIdx s \<ge> length (cs_chunk s) then
              (case loadChunk L adm table (cs_cache s) ds (cs_idx s) chunkSize of
                 (cache', Inl e) \<Rightarrow> (s\<lparr>cs_chunkIdx := 0, cs_chunk := [], cs_cache := cache'\<rparr>, Some e)
               | (cache', Inr c) \<Rightarrow> (s\<lparr>cs_chunkIdx := 0, cs_chunk := c, cs_cache := cache'\<rparr>, None))
            else (s, None)) = (s1, None)"
    and p1: "pos_ok L table ds s1" "cs_idx s1 = cs_idx s" "cs_chunkIdx s1 < length (cs_chunk s1)"
    and c1: "\<And>d. d \<in> set ds \<Longrightarrow> object_content L (cs_cache s1) table d = object_content L (cs_cache s) table d"
  proof (cases "cs_chunkIdx s \<ge> length (cs_chunk s)")
    case False
    then show ?thesis using that[of s] assms(1) by simp
  next
    case True
    let ?ds = "take chunkSize (drop (cs_idx s) ds)"
    obtain cache' where l: "loadChunk L adm table (cs_cache s) ds (cs_idx s) chunkSize =
        (cache', Inr (map (object_content L (cs_cache s) table) ?ds))"
      and k: "\<And>h. hash_ok h \<Longrightarrow> content_at cache' table h = content_at (cs_cache s) table h"
      using loadChunk_ok[OF serv] by blast
    note cong = object_content_cong[OF serv k]
    let ?s1 = "s\<lparr>cs_chunkIdx := 0, cs_chunk := map (object_content L (cs_cache s) table) ?ds, cs_cache := cache'\<rparr>"
    have "map (object_content L (cs_cache s) table) ?ds = map (object_content L cache' table) ?ds"
      by (rule map_cong[OF refl]) (metis cong(1) in_set_dropD in_set_takeD)
    then have "pos_ok L table ds ?s1" using cong(2) assms(2) by (simp add: pos_ok_def min_def)
    moreover have "0 < length ?ds" using assms(2) by (simp add: chunkSize_def)
    ultimately show ?thesis using that[of ?s1] True l cong(1) by simp
  qed
  have d: "drop (cs_chunkIdx s1) (cs_chunk s1) = map (object_content L (cs_cache s1) table)
      (take (length (cs_chunk s1) - cs_chunkIdx s1) (drop (cs_idx s1) ds))" using p1(1) by (simp add: pos_ok_def)
  note st = step_in_chunk[OF d p1(3)]
  let ?s2 = "s1\<lparr>cs_idx := cs_idx s1 + 1, cs_chunkIdx := cs_chunkIdx s1 + 1\<rparr>"
  have "pos_ok L table ds ?s2" using p1(1,3) st by (simp add: pos_ok_def)
  moreover have "next_object L adm table ds s = (?s2, Inr (ds ! cs_idx s, object_content L (cs_cache s) table (ds ! cs_idx s)))"
    using st(1,2) p1(2) c1[of "ds ! cs_idx s"] by (simp only: next_object_def s1) (simp add: p1(2))
  ultimately show ?thesis using c1 p1(2) by (intro exI[of _ ?s2]) simp
qed

section \<open>What GetObjects delivers\<close>

definition wanted :: "string \<Rightarrow> ObjectQuery \<Rightarrow> pb_object \<Rightarrow> bool" where
  "wanted path q ob \<longleftrightarrow> (q_IsPrefix q \<and> HasPrefix (Path ob) path) \<or> Path ob = path"

lemma filterObject_wanted: "filterObject path q ob = (if wanted path q ob then Yield ob else SKIP)"
  by (auto simp: filterObject_def wanted_def)

text \<open>The objects of the rows, packs opened, with the failure that ends them if there is one.\<close>

fun object_outs :: "lib \<Rightarrow> (DbObject \<Rightarrow> bytes option) \<Rightarrow> DbObject list \<Rightarrow> pb_object list \<times> dberr option" where
  "object_outs L c [] = ([], None)"
| "object_outs L c (d # ds) =
     (if d_cached d then ([], Some ErrCachedHash)
      else if d_packed d then
        (case unpackObjects (FromBytes L (nil_bytes (c d))) of
           Inl e \<Rightarrow> ([], Some e)
         | Inr [] \<Rightarrow> ([], Some ErrPanic)
         | Inr (ob # obs) \<Rightarrow> (ob # obs @ fst (object_outs L c ds), snd (object_outs L c ds)))
      else (plain_object d (c d) # fst (object_outs L c ds), snd (object_outs L c ds)))"

lemma object_outs_cong: "(\<And>d. d \<in> set ds \<Longrightarrow> c d = c' d) \<Longrightarrow> object_outs L c ds = object_outs L c' ds"
  by (induction ds) (simp_all split: sum.splits list.splits)

definition unpacked :: "lib \<Rightarrow> (DbObject \<Rightarrow> bytes option) \<Rightarrow> DbObject \<Rightarrow> nat" where
  "unpacked L c d = (case unpackObjects (FromBytes L (nil_bytes (c d))) of Inl e \<Rightarrow> 0 | Inr obs \<Rightarrow> length obs)"

definition object_todo :: "lib \<Rightarrow> contents_table \<Rightarrow> DbObject list \<Rightarrow> string \<Rightarrow> ObjectQuery \<Rightarrow> object_stream \<Rightarrow>
    pb_object list \<times> dberr option" where
  "object_todo L table ds path q s =
     (let outs = object_outs L (object_content L (cs_cache (os_pos s)) table) (drop (cs_idx (os_pos s)) ds)
      in (filter (wanted path q) (os_packBuffer s @ fst outs), snd outs))"

definition object_left :: "lib \<Rightarrow> contents_table \<Rightarrow> DbObject list \<Rightarrow> object_stream \<Rightarrow> nat" where
  "object_left L table ds s =
     length (os_packBuffer s) +
     sum_list (map (\<lambda>d. Suc (unpacked L (object_content L (cs_cache (os_pos s)) table) d)) (drop (cs_idx (os_pos s)) ds))"

abbreviation object_inv :: "lib \<Rightarrow> contents_table \<Rightarrow> DbObject list \<Rightarrow> object_stream \<Rightarrow> bool" where
  "object_inv L table ds s \<equiv> pos_ok L table ds (os_pos s)"

lemma object_next:
  assumes "pos_ok L table ds pos" and "cs_idx pos < length ds"
  obtains pos' where
    "next_object L adm table ds pos = (pos', Inr (ds ! cs_idx pos, object_content L (cs_cache pos) table (ds ! cs_idx pos)))"
    and "pos_ok L table ds pos'" and "cs_idx pos' = Suc (cs_idx pos)"
    and "drop (cs_idx pos) ds = ds ! cs_idx pos # drop (Suc (cs_idx pos)) ds"
    and "object_outs L (object_content L (cs_cache pos') table) (drop (Suc (cs_idx pos)) ds) =
      object_outs L (object_content L (cs_cache pos) table) (drop (Suc (cs_idx pos)) ds)"
    and "sum_list (map (\<lambda>d. Suc (unpacked L (object_content L (cs_cache pos') table) d)) (drop (Suc (cs_idx pos)) ds)) =
      sum_list (map (\<lambda>d. Suc (unpacked L (object_content L (cs_cache pos) table) d)) (drop (Suc (cs_idx pos)) ds))"
proof -
  obtain pos' where p: "next_object L adm table ds pos = (pos', Inr (ds ! cs_idx pos, object_content L (cs_cache pos) table (ds ! cs_idx pos)))"
    "pos_ok L table ds pos'" "cs_idx pos' = Suc (cs_idx pos)"
    and c: "\<And>d. d \<in> set ds \<Longrightarrow> object_content L (cs_cache pos') table d = object_content L (cs_cache pos) table d"
    using next_object_ok[OF assms] by blast
  have "object_outs L (object_content L (cs_cache pos') table) (drop (Suc (cs_idx pos)) ds) =
      object_outs L (object_content L (cs_cache pos) table) (drop (Suc (cs_idx pos)) ds)"
    by (rule object_outs_cong) (metis c in_set_dropD)
  moreover have "map (\<lambda>d. Suc (unpacked L (object_content L (cs_cache pos') table) d)) (drop (Suc (cs_idx pos)) ds) =
      map (\<lambda>d. Suc (unpacked L (object_content L (cs_cache pos) table) d)) (drop (Suc (cs_idx pos)) ds)"
    by (rule map_cong[OF refl]) (simp add: unpacked_def c[OF in_set_dropD])
  ultimately show ?thesis using that[OF p] Cons_nth_drop_Suc[OF assms(2)] by metis
qed

interpretation gob: pull_stream "object_step L adm table ds path q" "object_inv L table ds"
    "object_todo L table ds path q" "object_left L table ds" for L adm table ds path q
proof (rule pull_streamI)
  fix s assume inv: "object_inv L table ds s"
  let ?c = "object_content L (cs_cache (os_pos s)) table"
  show "case object_step L adm table ds path q s of
      (s', Yield x) \<Rightarrow> object_inv L table ds s' \<and>
        object_todo L table ds path q s = (x # fst (object_todo L table ds path q s'), snd (object_todo L table ds path q s')) \<and>
        object_left L table ds s' < object_left L table ds s
    | (s', SKIP) \<Rightarrow> object_inv L table ds s' \<and> object_todo L table ds path q s = object_todo L table ds path q s' \<and>
        object_left L table ds s' < object_left L table ds s
    | (s', EOF) \<Rightarrow> object_todo L table ds path q s = ([], None)
    | (s', Fail e) \<Rightarrow> object_todo L table ds path q s = ([], Some e)"
  proof (cases "os_packBuffer s")
    case (Cons ob rest)
    then show ?thesis using inv
      by (simp add: object_step_def filterObject_wanted object_todo_def object_left_def Let_def)
  next
    case Nil
    show ?thesis
    proof (cases "cs_idx (os_pos s) < length ds")
      case False
      with Nil show ?thesis by (simp add: object_step_def object_todo_def Let_def)
    next
      case True
      let ?d = "ds ! cs_idx (os_pos s)"
      obtain pos' where n: "next_object L adm table ds (os_pos s) = (pos', Inr (?d, ?c ?d))" "pos_ok L table ds pos'"
        "cs_idx pos' = Suc (cs_idx (os_pos s))" and split: "drop (cs_idx (os_pos s)) ds = ?d # drop (Suc (cs_idx (os_pos s))) ds"
        and outs: "object_outs L (object_content L (cs_cache pos') table) (drop (Suc (cs_idx (os_pos s))) ds) =
          object_outs L ?c (drop (Suc (cs_idx (os_pos s))) ds)"
        and left: "sum_list (map (\<lambda>d. Suc (unpacked L (object_content L (cs_cache pos') table) d)) (drop (Suc (cs_idx (os_pos s))) ds)) =
          sum_list (map (\<lambda>d. Suc (unpacked L ?c d)) (drop (Suc (cs_idx (os_pos s))) ds))"
        using object_next[OF inv True] by metis
      let ?u = "unpackObjects (FromBytes L (nil_bytes (?c ?d)))"
      note defs = object_step_def filterObject_wanted object_todo_def object_left_def Let_def
      show ?thesis
      proof (cases "d_cached ?d \<or> \<not> d_packed ?d")
        case c: True
        then show ?thesis using True Nil n split outs left
          by (auto simp: defs split: if_splits)
      next
        case False
        then show ?thesis
        proof (cases ?u)
          case (Inl e)
          then show ?thesis using False True Nil n split by (simp add: defs)
        next
          case (Inr obs)
          then show ?thesis
          proof (cases obs)
            case Nil
            then show ?thesis using Inr False True \<open>os_packBuffer s = []\<close> n split by (simp add: defs)
          next
            case (Cons ob rest)
            then show ?thesis using Inr False True \<open>os_packBuffer s = []\<close> n split outs left
              by (simp add: defs unpacked_def)
          qed
        qed
      qed
    qed
  qed
qed

section \<open>What GetTars delivers\<close>

fun tar_outs :: "lib \<Rightarrow> (DbObject \<Rightarrow> bytes option) \<Rightarrow> tar_writer \<Rightarrow> DbObject list \<Rightarrow> (bytes option \<times> string option) list \<times> dberr option" where
  "tar_outs L c w [] = (if tw_size w > 0 then [(Some (fst (BytesAndReset L w)), None)] else [], None)"
| "tar_outs L c w (d # ds) =
     (if d_packed d \<and> \<not> d_cached d then
        ((c d, Some (d_path d)) # fst (tar_outs L c w ds), snd (tar_outs L c w ds))
      else
        (case WriteObject L (ToTarObject d (c d)) w of
           Inl e \<Rightarrow> ([], Some e)
         | Inr w' \<Rightarrow>
             if tw_size w' > TargetTarSize then
               (let r = tar_outs L c (snd (BytesAndReset L w')) ds in ((Some (fst (BytesAndReset L w')), None) # fst r, snd r))
             else tar_outs L c w' ds))"

lemma tar_outs_cong: "(\<And>d. d \<in> set ds \<Longrightarrow> c d = c' d) \<Longrightarrow> tar_outs L c w ds = tar_outs L c' w ds"
  by (induction ds arbitrary: w) (simp_all split: sum.splits)

definition tars_todo :: "lib \<Rightarrow> contents_table \<Rightarrow> DbObject list \<Rightarrow> tars_stream \<Rightarrow> (bytes option \<times> string option) list \<times> dberr option" where
  "tars_todo L table ds s =
     tar_outs L (object_content L (cs_cache (ts_pos s)) table) (ts_writer s) (drop (cs_idx (ts_pos s)) ds)"

definition tars_left :: "DbObject list \<Rightarrow> tars_stream \<Rightarrow> nat" where
  "tars_left ds s = 2 * (length ds - cs_idx (ts_pos s)) + (if tw_size (ts_writer s) > 0 then 1 else 0)"

abbreviation tars_inv :: "lib \<Rightarrow> contents_table \<Rightarrow> DbObject list \<Rightarrow> tars_stream \<Rightarrow> bool" where
  "tars_inv L table ds s \<equiv> pos_ok L table ds (ts_pos s)"

lemma tars_step_ok:
  assumes inv: "tars_inv L table ds s"
  shows "case tars_step L adm table ds s of
      (s', Yield x) \<Rightarrow> tars_inv L table ds s' \<and>
        tars_todo L table ds s = (x # fst (tars_todo L table ds s'), snd (tars_todo L table ds s')) \<and> tars_left ds s' < tars_left ds s
    | (s', SKIP) \<Rightarrow> tars_inv L table ds s' \<and> tars_todo L table ds s = tars_todo L table ds s' \<and> tars_left ds s' < tars_left ds s
    | (s', EOF) \<Rightarrow> tars_todo L table ds s = ([], None)
    | (s', Fail e) \<Rightarrow> tars_todo L table ds s = ([], Some e)"
proof (cases "cs_idx (ts_pos s) < length ds")
  case False
  then show ?thesis using inv
    by (simp add: tars_step_def tars_todo_def tars_left_def BytesAndReset_def)
next
  case True
  let ?c = "object_content L (cs_cache (ts_pos s)) table" and ?d = "ds ! cs_idx (ts_pos s)"
  let ?rest = "drop (Suc (cs_idx (ts_pos s))) ds"
  obtain pos' where n: "next_object L adm table ds (ts_pos s) = (pos', Inr (?d, ?c ?d))" "pos_ok L table ds pos'"
    "cs_idx pos' = Suc (cs_idx (ts_pos s))"
    and c: "\<And>d. d \<in> set ds \<Longrightarrow> object_content L (cs_cache pos') table d = ?c d"
    using next_object_ok[OF inv True] by blast
  have split: "drop (cs_idx (ts_pos s)) ds = ?d # ?rest" by (rule Cons_nth_drop_Suc[OF True, symmetric])
  have outs: "tar_outs L (object_content L (cs_cache pos') table) w ?rest = tar_outs L ?c w ?rest" for w
    by (rule tar_outs_cong) (metis c in_set_dropD)
  have len: "length ds - cs_idx (ts_pos s) = Suc (length ds - Suc (cs_idx (ts_pos s)))" using True by simp
  have less: "2 * (length ds - Suc (cs_idx (ts_pos s))) + (if P then 1 else 0) <
      2 * (length ds - cs_idx (ts_pos s)) + (if Q then 1 else (0 :: nat))" for P Q
    using len by simp
  note defs = tars_step_def tars_todo_def tars_left_def
  show ?thesis
  proof (cases "d_packed ?d \<and> \<not> d_cached ?d")
    case packed: True
    with True n split outs less show ?thesis by (simp add: defs)
  next
    case plain: False
    then have np: "(d_packed ?d \<and> \<not> d_cached ?d) = False" by blast
    show ?thesis
    proof (cases "WriteObject L (ToTarObject ?d (?c ?d)) (ts_writer s)")
      case (Inl e)
      with True n split show ?thesis by (simp add: defs np del: de_Morgan_conj)
    next
      case (Inr w)
      then show ?thesis
      proof (cases "tw_size w > TargetTarSize")
        case big: True
        show ?thesis using True n split outs Inr big
          by (simp add: defs np Let_def BytesAndReset_def len)
      next
        case False
        with True n split outs less[of "tw_size w > 0"] Inr show ?thesis by (simp add: defs np)
      qed
    qed
  qed
qed

interpretation gtr: pull_stream "tars_step L adm table ds" "tars_inv L table ds" "tars_todo L table ds" "tars_left ds"
  for L adm table ds
  by (rule pull_streamI) (rule tars_step_ok)

interpretation gct: pull_stream cache_step "\<lambda>_. True" "\<lambda>s. (map (\<lambda>(h, b). (ch_version s, b, h)) (ch_rows s), None)"
    "\<lambda>s. length (ch_rows s)"
  by (rule pull_streamI) (auto simp: cache_step_def split: list.splits)

text \<open>The entries of the plain objects, in order, and how many bytes an entry counts for.\<close>

definition object_entry :: "(DbObject \<Rightarrow> bytes option) \<Rightarrow> DbObject \<Rightarrow> tar_entry" where
  "object_entry c d = (object_header (ToTarObject d (c d)), object_body (ToTarObject d (c d)))"

definition in_tar :: "DbObject \<Rightarrow> bool" where
  "in_tar d \<longleftrightarrow> \<not> (d_packed d \<and> \<not> d_cached d)"

definition entry_size :: "tar_entry \<Rightarrow> int" where
  "entry_size e = h_Size (fst e) + int (length (h_Name (fst e)))"

definition entries_size :: "tar_entry list \<Rightarrow> int" where
  "entries_size es = sum_list (map entry_size es)"

definition tar_sent :: "lib \<Rightarrow> (bytes option \<times> string option) list \<Rightarrow> tar_entry list list" where
  "tar_sent L outs = map (\<lambda>o'. pack_entries L (nil_bytes (fst o'))) (filter (\<lambda>o'. snd o' = None) outs)"

definition packs_sent :: "(bytes option \<times> string option) list \<Rightarrow> (string \<times> bytes option) list" where
  "packs_sent outs = List.map_filter (\<lambda>o'. map_option (\<lambda>p. (p, fst o')) (snd o')) outs"

definition writer_ok :: "lib \<Rightarrow> tar_writer \<Rightarrow> bool" where
  "writer_ok L w \<longleftrightarrow> tw_size w = entries_size (tw_entries w) \<and> tw_size w \<le> TargetTarSize \<and>
     list_all (\<lambda>e. entry_ok L e \<and> h_Name (fst e) \<noteq> []) (tw_entries w)"

lemma entry_size_pos: "entry_ok L e \<Longrightarrow> h_Name (fst e) \<noteq> [] \<Longrightarrow> 0 < entry_size e"
  by (cases "h_Name (fst e)") (auto simp: entry_ok_def entry_size_def)

lemma writer_empty:
  assumes "writer_ok L w"
  shows "tw_size w > 0 \<longleftrightarrow> tw_entries w \<noteq> []"
proof -
  have "es \<noteq> [] \<Longrightarrow> list_all (\<lambda>e. entry_ok L e \<and> h_Name (fst e) \<noteq> []) es \<Longrightarrow> 0 < entries_size es" for es
  proof (induction es)
    case (Cons e es)
    then show ?case using entry_size_pos[of L e] by (cases "es = []") (auto simp: entries_size_def)
  qed simp
  with assms show ?thesis by (cases "tw_entries w = []") (auto simp: writer_ok_def entries_size_def)
qed

lemma pack_entries_written:
  "lib_ok L \<Longrightarrow> list_all (\<lambda>e. entry_ok L e \<and> h_Name (fst e) \<noteq> []) es \<Longrightarrow> pack_entries L (tar_encode L es) = es"
  by (simp add: pack_entries_def lib_ok_def list_all_iff)

lemma pack_read_to_end:
  "lib_ok L \<Longrightarrow> list_all (\<lambda>e. entry_ok L e \<and> h_Name (fst e) \<noteq> []) es \<Longrightarrow> snd (tar_decode L (tar_encode L es))"
  by (simp add: lib_ok_def list_all_iff)

lemma WriteObject_entry:
  assumes "tar_accepts L (object_header (ToTarObject d (c d)))" and "d_path d \<noteq> []"
    and "tw_size w = entries_size (tw_entries w)" "list_all (\<lambda>e. entry_ok L e \<and> h_Name (fst e) \<noteq> []) (tw_entries w)"
  shows "\<exists>w'. WriteObject L (ToTarObject d (c d)) w = Inr w' \<and> tw_entries w' = tw_entries w @ [object_entry c d] \<and>
    tw_size w' = entries_size (tw_entries w') \<and> list_all (\<lambda>e. entry_ok L e \<and> h_Name (fst e) \<noteq> []) (tw_entries w')"
  using assms
  by (auto simp: WriteObject_def object_entry_def entries_size_def entry_size_def entry_ok_def object_header_def
      object_body_def content_size_def ToTarObject_def Let_def)

theorem tar_outs_spec:
  assumes "lib_ok L" and "writer_ok L w"
    and "\<And>d. d \<in> set ds \<Longrightarrow> in_tar d \<Longrightarrow> tar_accepts L (object_header (ToTarObject d (c d))) \<and> d_path d \<noteq> []"
  shows "snd (tar_outs L c w ds) = None" (is ?P)
    and "concat (tar_sent L (fst (tar_outs L c w ds))) = tw_entries w @ map (object_entry c) (filter in_tar ds)" (is ?Q)
    and "packs_sent (fst (tar_outs L c w ds)) = map (\<lambda>d. (d_path d, c d)) (filter (\<lambda>d. \<not> in_tar d) ds)" (is ?R)
    and "list_all (\<lambda>es. entries_size (butlast es) \<le> TargetTarSize) (tar_sent L (fst (tar_outs L c w ds)))" (is ?B)
    and "list_all (\<lambda>o'. snd o' = None \<longrightarrow> snd (tar_decode L (nil_bytes (fst o')))) (fst (tar_outs L c w ds))" (is ?E)
proof -
  have "?P \<and> ?Q \<and> ?R \<and> ?B \<and> ?E"
    using assms(2,3)
  proof (induction ds arbitrary: w)
    case Nil
    have "list_all (\<lambda>e. entry_ok L e \<and> h_Name (fst e) \<noteq> []) (tw_entries w)" using Nil(1) by (simp add: writer_ok_def)
    note enc = pack_entries_written[OF assms(1) this] pack_read_to_end[OF assms(1) this]
    have "entries_size (butlast (tw_entries w)) \<le> TargetTarSize"
    proof (cases "tw_entries w" rule: rev_cases)
      case (snoc es e)
      with Nil(1) entry_size_pos[of L e] show ?thesis by (simp add: writer_ok_def entries_size_def)
    qed (simp add: TargetTarSize_def entries_size_def)
    with enc writer_empty[OF Nil(1)] show ?case
      by (auto simp: tar_sent_def packs_sent_def BytesAndReset_def nil_bytes_def List.map_filter_def)
  next
    case (Cons d ds)
    have rest: "\<And>d. d \<in> set ds \<Longrightarrow> in_tar d \<Longrightarrow> tar_accepts L (object_header (ToTarObject d (c d))) \<and> d_path d \<noteq> []"
      using Cons.prems(2) by simp
    show ?case
    proof (cases "in_tar d")
      case False
      with Cons.IH[OF Cons.prems(1) rest] show ?thesis
        by (simp add: in_tar_def tar_sent_def packs_sent_def List.map_filter_def)
    next
      case True
      then have np: "(d_packed d \<and> \<not> d_cached d) = False" by (simp add: in_tar_def)
      obtain w' where w': "WriteObject L (ToTarObject d (c d)) w = Inr w'" "tw_entries w' = tw_entries w @ [object_entry c d]"
        "tw_size w' = entries_size (tw_entries w')" "list_all (\<lambda>e. entry_ok L e \<and> h_Name (fst e) \<noteq> []) (tw_entries w')"
        using WriteObject_entry[of L d c w] Cons.prems True by (auto simp: writer_ok_def)
      show ?thesis
      proof (cases "tw_size w' > TargetTarSize")
        case big: True
        have "writer_ok L (snd (BytesAndReset L w'))"
          by (simp add: writer_ok_def BytesAndReset_def entries_size_def TargetTarSize_def)
        note IH = Cons.IH[OF this rest]
        have "entries_size (butlast (tw_entries w')) \<le> TargetTarSize"
          using Cons.prems(1) w'(2) by (simp add: writer_ok_def)
        with IH True big w' pack_entries_written[OF assms(1) w'(4)] pack_read_to_end[OF assms(1) w'(4)] show ?thesis
          by (simp add: np tar_sent_def packs_sent_def BytesAndReset_def nil_bytes_def List.map_filter_def Let_def)
      next
        case False
        then have "writer_ok L w'" using w' by (simp add: writer_ok_def)
        with Cons.IH[OF this rest] True False w' show ?thesis by (simp add: np)
      qed
    qed
  qed
  then show ?P ?Q ?R ?B ?E by blast+
qed

end
