(* ===== verification/Clones.thy ===== *)
theory Clones
  imports Updates Queries
begin

text \<open>
  \<^verbatim>\<open>internal/db/copy.go\<close>: copying a template's live objects into a new project, and cloning a
  version of one project over the head of another. The lemmas show that afterwards the target's
  head is the source's snapshot.
\<close>

section \<open>Operations\<close>

definition CopyAllObjects :: "int \<Rightarrow> int \<Rightarrow> (DB, unit) dbm" where
  "CopyAllObjects source target =
     andThen (HasSamePackPattern source target) (\<lambda>samePackPatterns.
     if \<not> samePackPatterns then fail ErrPackMismatch
     else
       andThen (\<lambda>db. insert_objects (map (\<lambda>r. r\<lparr>o_project := target\<rparr>)
           (filter (\<lambda>r. o_project r = source \<and> o_stop r = None) (objects db))) db) (\<lambda>_ db.
       case find_project db source of
         None \<Rightarrow> if find_project db target = None then ret () db else fail ErrNotNull db
       | Some r \<Rightarrow> update_projects (\<lambda>r. p_id r = target) (\<lambda>t. t\<lparr>latest_version := latest_version r\<rparr>) db))"

definition clone_row :: "int \<Rightarrow> int \<Rightarrow> DbObject \<Rightarrow> object_row" where
  "clone_row target version d =
     \<lparr>o_project = target, o_start = version, o_stop = None, o_path = d_path d, o_hash = d_hash d,
      o_mode = d_mode d, o_size = d_size d, o_packed = d_packed d\<rparr>"

definition clone_remove :: "lib \<Rightarrow> queryBuilder \<Rightarrow> queryBuilder \<Rightarrow> int \<Rightarrow> int \<Rightarrow> (DB, unit) dbm" where
  "clone_remove L sourceBuilder targetBuilder target newTargetVersion db =
     (let live_source_objects = build L sourceBuilder db;
          to_remove = filter (\<lambda>d. d \<notin> set live_source_objects) (build L targetBuilder db) in
      update_objects (\<lambda>r. o_project r = target \<and> o_path r \<in> d_path ` set to_remove \<and> o_stop r = None)
        (\<lambda>r. r\<lparr>o_stop := Some newTargetVersion\<rparr>) db)"

definition clone_insert :: "lib \<Rightarrow> queryBuilder \<Rightarrow> int \<Rightarrow> int \<Rightarrow> (DB, unit) dbm" where
  "clone_insert L sourceBuilder target newTargetVersion db =
     (let live_source_objects = build L sourceBuilder db in
      foldM (\<lambda>d _. andThen (insert_ignore (clone_row target newTargetVersion d)) (\<lambda>_. ret ()))
        (filter (\<lambda>d. \<not> d_deleted d) live_source_objects) () db)"

definition CloneToProject :: "lib \<Rightarrow> int \<Rightarrow> int \<Rightarrow> int \<Rightarrow> int \<Rightarrow> (DB, unit) dbm" where
  "CloneToProject L source target version newTargetVersion =
     (let objectQuery = \<lparr>q_Path = [], q_IsPrefix = True, q_Ignores = []\<rparr>;
          sourceBuilder = newQueryBuilder source \<lparr>From = 0, To = version\<rparr> objectQuery;
          targetBuilder = withArgsOffset (newQueryBuilder target \<lparr>From = 0, To = newTargetVersion - 1\<rparr> objectQuery)
            (length (snd (replaceQueryArgs sourceBuilder))) in
      andThen (clone_remove L sourceBuilder targetBuilder target newTargetVersion)
        (\<lambda>_. clone_insert L sourceBuilder target newTargetVersion))"

section \<open>Cloning writes one version\<close>

lemma version_writer_read:
  assumes "\<And>d. version_writer (f d) p v"
  shows "version_writer (\<lambda>db. f db db) p v"
proof
  fix db db' r assume "f db db = (db', r)"
  then show "rewind p (v - 1) (objects db') = rewind p (v - 1) (objects db)"
    and "projects db' = projects db \<and> cache_versions db' = cache_versions db \<and> cache_seq db' = cache_seq db"
    and "map_of (contents db) \<subseteq>\<^sub>m map_of (contents db')"
    by (fact version_writer.past[OF assms] version_writer.frame[OF assms] version_writer.grows[OF assms])+
qed

lemma clone_remove_writer: "version_writer (clone_remove L sb tb p v) p v"
  unfolding clone_remove_def[abs_def] Let_def by (rule version_writer_read) (rule version_writer_stop, simp)

lemma clone_insert_writer: "version_writer (clone_insert L sb p v) p v"
  unfolding clone_insert_def[abs_def] Let_def
  by (rule version_writer_read) (intro version_writer_foldM version_writer_andThen version_writer_insert_ignore
      version_writer_ret; simp add: clone_row_def)

interpretation cln: version_writer "CloneToProject L source p version v" p v for L source p version v
  unfolding CloneToProject_def Let_def
  by (rule version_writer_andThen[OF clone_remove_writer clone_insert_writer])

section \<open>The result of cloning\<close>

lemma bound_offset [simp]: "bound (withArgsOffset qb n) = bound qb"
  by (rule ext) (simp add: bound_def named_args_def withArgsOffset_def)

lemma withArgsOffset_sel [simp]:
  "qb_project (withArgsOffset qb n) = qb_project qb" "qb_vrange (withArgsOffset qb n) = qb_vrange qb"
  "qb_objectQuery (withArgsOffset qb n) = qb_objectQuery qb"
  by (simp_all add: withArgsOffset_def)

lemma predicates_offset [simp]:
  "pathPredicate (withArgsOffset qb n) = pathPredicate qb"
  "ignoresPredicate (withArgsOffset qb n) = ignoresPredicate qb"
  "possibleObjectsCTE (withArgsOffset qb n) = possibleObjectsCTE qb"
  "cachedObjectHashesCTE (withArgsOffset qb n) = cachedObjectHashesCTE qb"
  unfolding fun_eq_iff pathPredicate_def ignoresPredicate_def possibleObjectsCTE_def cachedObjectHashesCTE_def
    bound_offset withArgsOffset_sel by (rule allI refl)+

lemma build_offset [simp]: "build L (withArgsOffset qb n) db = build L qb db"
  by (simp add: build_def queryWithoutRemovals_def queryWithRemovals_def updatedObjectsCTE_def removedObjectsCTE_def)

text \<open>One file per path, among the files already there and those to come.\<close>

definition one_per_path :: "dlfile set \<Rightarrow> bool" where
  "one_per_path A \<longleftrightarrow> (\<forall>f \<in> A. \<forall>g \<in> A. fst f = fst g \<longrightarrow> f = g)"

lemma insert_clone_row:
  assumes "writable p v db" and "one_per_path (insert (object_file d) (fst (head_of p v db)))"
  shows "\<exists>db' b. insert_ignore (clone_row p v d) db = (db', Inr b) \<and> writable p v db' \<and>
    fst (head_of p v db') = insert (object_file d) (fst (head_of p v db))"
proof -
  let ?new = "clone_row p v d"
  have f: "row_file ?new = object_file d" "o_project ?new = p" "o_start ?new = v" "live ?new" "o_stop ?new = None"
    by (simp_all add: clone_row_def row_file_def object_file_def live_def)
  have same: "row_file s = row_file ?new" if "s \<in> set (objects db)" "live s" "o_project s = p" "o_path s = o_path ?new" for s
  proof -
    have "row_file s \<in> fst (head_of p v db)" using live_in_head that by blast
    with assms(2) f(1) that(4) show ?thesis unfolding one_per_path_def by (metis fst_conv insert_iff row_file_def)
  qed
  show ?thesis
  proof (cases "list_ex (\<lambda>s. conflicts s ?new) (objects db)")
    case True
    then obtain s where s: "s \<in> set (objects db)" "live s" "o_project s = p" "o_path s = o_path ?new"
      using f(2) by (auto simp: list_ex_iff conflicts_live[OF f(5)])
    then have "object_file d \<in> fst (head_of p v db)" using live_in_head[of s db p v] same[OF s] f(1) by simp
    with True assms(1) show ?thesis
      by (intro exI[of _ db] exI[of _ False]) (simp add: insert_ignore_def insert_or_ignore_def insert_absorb)
  next
    case False
    have "compat s ?new" if s: "s \<in> set (objects db)" for s
    proof (cases "o_project s = p \<and> o_path s = o_path ?new")
      case True
      have "\<not> live s"
      proof
        assume "live s"
        then have "conflicts s ?new" using same[OF s] True f(2) by (auto simp: conflicts_live[OF f(5)] row_file_def)
        with False s show False by (auto simp: list_ex_iff)
      qed
      with True show ?thesis using compat_new[OF writable_within[OF assms(1) s] f(3), of p] f(2) by simp
    qed (auto simp: compat_def f(2))
    moreover have "row_within v ?new" using assms(1) by (simp add: row_within_def clone_row_def writable_def)
    ultimately have "writable p v (db\<lparr>objects := objects db @ [?new]\<rparr>)"
      using writable_append(1)[OF assms(1) f(2)] by blast
    with False head_append[OF f(2,4,3), of db] f(1) show ?thesis
      by (intro exI[of _ "db\<lparr>objects := objects db @ [?new]\<rparr>"] exI[of _ True])
        (simp add: insert_ignore_def insert_or_ignore_def)
  qed
qed

lemma clone_insert_fold:
  assumes "writable p v db" and "one_per_path (fst (head_of p v db) \<union> object_file ` set ds)"
  shows "\<exists>db'. foldM (\<lambda>d _. andThen (insert_ignore (clone_row p v d)) (\<lambda>_. ret ())) ds () db = (db', Inr ()) \<and>
    writable p v db' \<and> fst (head_of p v db') = fst (head_of p v db) \<union> object_file ` set ds"
  using assms
proof (induction ds arbitrary: db)
  case (Cons d ds)
  have "one_per_path (insert (object_file d) (fst (head_of p v db)))"
    using Cons.prems(2) unfolding one_per_path_def by (simp only: list.set image_insert Un_iff insert_iff) blast
  then obtain db1 b where db1: "insert_ignore (clone_row p v d) db = (db1, Inr b)" "writable p v db1"
    "fst (head_of p v db1) = insert (object_file d) (fst (head_of p v db))"
    using insert_clone_row[OF Cons.prems(1)] by blast
  have "one_per_path (fst (head_of p v db1) \<union> object_file ` set ds)"
    using Cons.prems(2) unfolding db1(3) by (simp add: insert_commute)
  with Cons.IH[OF db1(2)] db1(1,3) show ?case by (auto simp: andThen_def)
qed simp

lemma one_per_path_snapshot: "db_ok db \<Longrightarrow> one_per_path (snapshot (objects db) p w)"
  unfolding one_per_path_def using db_ok_snapshot_functional by (metis prod.collapse)

lemma whole_query:
  assumes "\<And>r. r \<in> set (objects db) \<Longrightarrow> 1 \<le> o_start r"
  shows "object_file ` set (build L (whole p \<lparr>From = 0, To = w\<rparr>) db) = snapshot (objects db) p w"
    and "d \<in> set (build L (whole p \<lparr>From = 0, To = w\<rparr>) db) \<Longrightarrow> \<not> d_deleted d \<and> \<not> d_cached d"
proof -
  show "object_file ` set (build L (whole p \<lparr>From = 0, To = w\<rparr>) db) = snapshot (objects db) p w"
    using assms by (subst full_query_files) simp_all
  show "d \<in> set (build L (whole p \<lparr>From = 0, To = w\<rparr>) db) \<Longrightarrow> \<not> d_deleted d \<and> \<not> d_cached d"
    by (auto simp: build_def queryWithoutRemovals_def updatedObjectsCTE_def cachedObjectHashesCTE_def bound_def
        named_args_def whole_def newQueryBuilder_def)
qed

lemma object_file_inj:
  "object_file d = object_file e \<Longrightarrow> d_deleted d = d_deleted e \<Longrightarrow> d_cached d = d_cached e \<Longrightarrow> d = e"
  by (simp add: object_file_def)

lemma clone_remove_head:
  assumes "db_ok db" and "0 \<le> latest_of db p" and "v = latest_of db p + 1"
  shows "\<exists>db'. clone_remove L (whole source \<lparr>From = 0, To = version\<rparr>) (whole p \<lparr>From = 0, To = v - 1\<rparr>) p v db = (db', Inr ()) \<and>
    writable p v db' \<and>
    fst (head_of p v db') = snapshot (objects db) p (v - 1) \<inter> snapshot (objects db) source version"
proof -
  let ?S = "snapshot (objects db) source version" and ?T = "snapshot (objects db) p (v - 1)"
  let ?src = "build L (whole source \<lparr>From = 0, To = version\<rparr>) db" and ?tgt = "build L (whole p \<lparr>From = 0, To = v - 1\<rparr>) db"
  let ?rm = "filter (\<lambda>d. d \<notin> set ?src) ?tgt"
  let ?sel = "\<lambda>r. o_project r = p \<and> o_path r \<in> d_path ` set ?rm \<and> o_stop r = None"
  have start: "1 \<le> o_start r" if "r \<in> set (objects db)" for r
    using db_okD(3)[OF assms(1) that] by (simp add: row_within_def)
  note src = whole_query[where db = db and L = L and p = source and w = version, OF start]
  note tgt = whole_query[where db = db and L = L and p = p and w = "v - 1", OF start]
  have w: "writable p v db" and N: "snd (head_of p v db) = {}" using writableI[OF assms] .
  have T: "fst (head_of p v db) = ?T"
  proof -
    have "live_at v r \<longleftrightarrow> live_at (v - 1) r" if "r \<in> set (objects db)" "o_project r = p" for r
    proof -
      have "row_within (v - 1) r" using db_okD(3)[OF assms(1) that(1)] that(2) assms(3) by simp
      then show ?thesis using live_at_latest[of v r] live_at_latest[of "v - 1" r] row_within_mono[of "v - 1" r v] by simp
    qed
    then have "snapshot (objects db) p v = ?T" unfolding snapshot_def by (metis (mono_tags, lifting) Collect_cong)
    then show ?thesis using head_of_snapshot[OF w] by simp
  qed
  have in_src: "d \<in> set ?src \<longleftrightarrow> object_file d \<in> ?S" if "d \<in> set ?tgt" for d
    using src tgt(2)[OF _ that] object_file_inj[of d] start by (metis (no_types, lifting) image_iff)
  have rm: "d_path ` set ?rm = fst ` (?T - ?S)"
  proof -
    have "object_file ` set ?rm = object_file ` set ?tgt - ?S"
      using in_src by (auto simp del: object_file_def)
    also have "\<dots> = ?T - ?S" using tgt(1) start by simp
    finally have "object_file ` set ?rm = ?T - ?S" .
    then have "fst ` object_file ` set ?rm = fst ` (?T - ?S)" by simp
    then show ?thesis by (simp add: image_image object_file_def)
  qed
  have "r \<in> set (objects db) \<Longrightarrow> ?sel r \<Longrightarrow> o_project r = p \<and> live r \<and> o_start r \<noteq> v" for r
    using not_written[of "o_path r" p v db r] N by (simp add: live_def)
  then have ok: "writable p v (db\<lparr>objects := stop_rows ?sel v (objects db)\<rparr>)" "unique_ok (stop_rows ?sel v (objects db))"
    by - (rule stop_rows_ok[OF w], blast)+
  have "head_of p v (db\<lparr>objects := stop_rows ?sel v (objects db)\<rparr>) = ({f \<in> ?T. fst f \<notin> fst ` (?T - ?S)}, {})"
  proof -
    have "head_of p v (db\<lparr>objects := stop_rows ?sel v (objects db)\<rparr>) =
        ({f \<in> fst (head_of p v db). fst f \<notin> fst ` (?T - ?S)}, snd (head_of p v db))"
      by (rule head_stop_rows) (simp_all only: rm live_def simp_thms)
    then show ?thesis by (simp only: T N)
  qed
  moreover have "{f \<in> ?T. fst f \<notin> fst ` (?T - ?S)} = ?T \<inter> ?S"
    using one_per_path_snapshot[OF assms(1), of p "v - 1"] unfolding one_per_path_def by blast
  ultimately show ?thesis using ok by (simp add: clone_remove_def Let_def update_objects_stop)
qed

lemma CloneToProject_whole:
  "CloneToProject L source p version v =
     andThen (clone_remove L (whole source \<lparr>From = 0, To = version\<rparr>) (whole p \<lparr>From = 0, To = v - 1\<rparr>) p v)
       (\<lambda>_. clone_insert L (whole source \<lparr>From = 0, To = version\<rparr>) p v)"
  by (simp add: CloneToProject_def whole_def Let_def clone_remove_def[abs_def])

lemma CloneToProject_result:
  assumes "db_ok db" and "0 \<le> latest_of db p" and "v = latest_of db p + 1" and "source = p \<longrightarrow> version < v"
  shows "\<exists>db'. CloneToProject L source p version v db = (db', Inr ()) \<and> writable p v db' \<and>
    snapshot (objects db') p v = snapshot (objects db) source version"
proof -
  let ?sb = "whole source \<lparr>From = 0, To = version\<rparr>" and ?S = "snapshot (objects db) source version"
  obtain db1 where r: "clone_remove L ?sb (whole p \<lparr>From = 0, To = v - 1\<rparr>) p v db = (db1, Inr ())"
    "writable p v db1" "fst (head_of p v db1) = snapshot (objects db) p (v - 1) \<inter> ?S"
    using clone_remove_head[OF assms(1-3)] by blast
  have S: "snapshot (objects db1) source version = ?S"
    using version_writer.history[OF clone_remove_writer r(1)] version_writer.others[OF clone_remove_writer r(1)] assms(4)
    by (cases "source = p") simp_all
  have start: "1 \<le> o_start s" if "s \<in> set (objects db1)" for s
    using r(2) that by (auto simp: writable_def row_within_def)
  note src = whole_query[where db = db1 and L = L and p = source and w = version, OF start]
  have all: "filter (\<lambda>d. \<not> d_deleted d) (build L ?sb db1) = build L ?sb db1"
    using src(2) by (simp add: filter_id_conv)
  have files: "object_file ` set (build L ?sb db1) = ?S" using src(1) S by simp
  have "one_per_path (fst (head_of p v db1) \<union> object_file ` set (build L ?sb db1))"
    using one_per_path_snapshot[OF assms(1), of source version] unfolding files r(3)
    by (metis inf_le2 sup.absorb2)
  then obtain db' where "foldM (\<lambda>d _. andThen (insert_ignore (clone_row p v d)) (\<lambda>_. ret ())) (build L ?sb db1) () db1 = (db', Inr ())"
    and w: "writable p v db'" and h: "fst (head_of p v db') = fst (head_of p v db1) \<union> object_file ` set (build L ?sb db1)"
    using clone_insert_fold[OF r(2)] by blast
  then have "CloneToProject L source p version v db = (db', Inr ())"
    by (simp add: CloneToProject_whole andThen_def r(1) clone_insert_def all)
  moreover have "snapshot (objects db') p v = ?S"
    using head_of_snapshot[OF w] h unfolding files r(3) by auto
  ultimately show ?thesis using w by blast
qed

section \<open>Copying a template\<close>

lemma CopyAllObjects_result:
  assumes "db_ok db" and "source \<noteq> target" and "find_project db source = Some s" and "find_project db target = Some t"
    and "coalesced_patterns db source = coalesced_patterns db target"
    and "\<And>r. r \<in> set (objects db) \<Longrightarrow> o_project r \<noteq> target"
  shows "\<exists>db'. CopyAllObjects source target db = (db', Inr ()) \<and> db_ok db' \<and> latest_of db' target = latest_version s \<and>
    snapshot (objects db') target (latest_version s) = snapshot (objects db) source (latest_version s)"
proof -
  let ?copy = "map (\<lambda>r. r\<lparr>o_project := target\<rparr>) (filter (\<lambda>r. o_project r = source \<and> o_stop r = None) (objects db))"
  obtain db2 x where u: "UpdateLatestVersion target (latest_version s) (db\<lparr>objects := objects db @ ?copy\<rparr>) = (db2, x)"
    by (cases "UpdateLatestVersion target (latest_version s) (db\<lparr>objects := objects db @ ?copy\<rparr>)")
  note L = latest_of_UpdateLatestVersion[OF u]
  have exists: "find_project (db\<lparr>objects := objects db @ ?copy\<rparr>) q = find_project db q" for q by (simp add: find_project_def)
  have lat: "latest_of db2 q = (if q = target then latest_version s else latest_of db q)" for q
    using L(1)[of q] assms(4) exists by simp
  have src: "latest_of db source = latest_version s" using assms(3) by (simp add: latest_of_def)
  have within: "row_within (latest_of db2 (o_project r)) r" if "r \<in> set (objects db @ ?copy)" for r
  proof (cases "r \<in> set (objects db)")
    case True
    with db_okD(3)[OF assms(1) True] assms(6)[OF True] show ?thesis by (simp add: lat)
  next
    case False
    with that obtain s' where "s' \<in> set (objects db)" "o_project s' = source" "r = s'\<lparr>o_project := target\<rparr>" by auto
    with db_okD(3)[OF assms(1), of s'] show ?thesis by (simp add: lat src row_within_def split: option.splits)
  qed
  have c: "sorted_wrt compat (objects db @ ?copy)"
  proof -
    have "sorted_wrt compat ?copy"
      unfolding sorted_wrt_map
      by (rule sorted_wrt_mono_rel[OF _ sorted_wrt_filter[OF db_okD(2)[OF assms(1)]]]) (auto simp: compat_def)
    moreover have "compat a b" if "a \<in> set (objects db)" "b \<in> set ?copy" for a b
      using assms(6)[OF that(1)] that(2) by (auto simp: compat_def)
    ultimately show ?thesis using db_okD(2)[OF assms(1)] by (simp add: sorted_wrt_append)
  qed
  have "unique_ok (objects db @ ?copy)" by (rule unique_okI[OF c]) (use within in blast)
  then have "CopyAllObjects source target db = (db2, Inr ())"
    using assms(3,5) u exists[of source]
    by (auto simp: CopyAllObjects_def HasSamePackPattern_def andThen_def insert_objects_def set_objects_def
        UpdateLatestVersion_def update_projects_def)
  moreover have "db_ok db2"
    using within c L(2,4) db_okD(1)[OF assms(1)] by (simp add: db_ok_def list_all_iff)
  moreover have "snapshot (objects db2) target (latest_version s) = snapshot (objects db) source (latest_version s)"
  proof -
    have "live_at (latest_version s) r \<longleftrightarrow> o_stop r = None" if "r \<in> set (objects db)" "o_project r = source" for r
      using live_at_latest[of "latest_version s" r] db_okD(3)[OF assms(1) that(1)] that(2) src by (simp add: live_def)
    then have live: "{r \<in> set (objects db). o_project r = source \<and> live_at (latest_version s) r} =
        {r \<in> set (objects db). o_project r = source \<and> o_stop r = None}" by blast
    have "snapshot ?copy target (latest_version s) =
        row_file ` {r \<in> set (objects db). o_project r = source \<and> o_stop r = None \<and> live_at (latest_version s) r}"
    proof -
      have "{r \<in> set ?copy. o_project r = target \<and> live_at (latest_version s) r} =
          (\<lambda>r. r\<lparr>o_project := target\<rparr>) ` {r \<in> set (objects db). o_project r = source \<and> o_stop r = None
             \<and> live_at (latest_version s) (r\<lparr>o_project := target\<rparr>)}" by auto
      then show ?thesis by (simp add: snapshot_def image_image row_file_def live_at_def)
    qed
    also have "{r \<in> set (objects db). o_project r = source \<and> o_stop r = None \<and> live_at (latest_version s) r} =
        {r \<in> set (objects db). o_project r = source \<and> live_at (latest_version s) r}" using live by blast
    also have "row_file ` \<dots> = snapshot (objects db) source (latest_version s)" by (simp only: snapshot_def)
    finally have "snapshot ?copy target (latest_version s) = snapshot (objects db) source (latest_version s)" .
    moreover have "snapshot (objects db) target (latest_version s) = {}"
      using assms(6) by (auto simp: snapshot_def)
    ultimately show ?thesis using L(2) by (simp add: snapshot_append)
  qed
  ultimately show ?thesis using lat by simp
qed

end
