(* ===== verification/Resets.thy ===== *)
theory Resets
  imports Versioning
begin

text \<open>
  \<^verbatim>\<open>internal/db/reset.go\<close>: truncating everything, resetting a project to a version, dropping
  the projects not listed. Resetting to a version is rewinding: it never violates an index,
  keeps the invariant, and undoes whatever was written above the version.
\<close>

section \<open>Operations\<close>

definition ResetAll :: "(DB, unit) dbm" where
  "ResetAll db = (db\<lparr>projects := [], objects := [], contents := []\<rparr>, Inr ())"

definition ResetProject :: "int \<Rightarrow> int \<Rightarrow> (DB, unit) dbm" where
  "ResetProject project version =
     andThen (update_projects (\<lambda>r. p_id r = project) (\<lambda>r. r\<lparr>latest_version := version\<rparr>)) (\<lambda>_.
     andThen (delete_objects (\<lambda>r. o_project r = project \<and> o_start r > version)) (\<lambda>_.
     update_objects (\<lambda>r. o_project r = project \<and> (case o_stop r of None \<Rightarrow> False | Some t \<Rightarrow> t > version))
       (\<lambda>r. r\<lparr>o_stop := None\<rparr>)))"

definition DropOtherProjects :: "int list \<Rightarrow> (DB, unit) dbm" where
  "DropOtherProjects ps =
     andThen (\<lambda>db. (db\<lparr>projects := filter (\<lambda>r. p_id r \<in> set ps) (projects db)\<rparr>, Inr ()))
       (\<lambda>_. delete_objects (\<lambda>r. o_project r \<notin> set ps))"

section \<open>Resetting is rewinding\<close>

lemma ResetProject_eq:
  "ResetProject p n db =
     (let db1 = fst (UpdateLatestVersion p n db);
          kept = filter (\<lambda>r. \<not> (o_project r = p \<and> o_start r > n)) (objects db) in
      if unique_ok (rewind p n (objects db)) then (db1\<lparr>objects := rewind p n (objects db)\<rparr>, Inr ())
      else (db1\<lparr>objects := kept\<rparr>, Inl ErrUnique))"
proof -
  have "(\<lambda>r. if o_project r = p \<and> (case o_stop r of None \<Rightarrow> False | Some t \<Rightarrow> t > n) then r\<lparr>o_stop := None\<rparr> else r)
      = (\<lambda>r. if o_project r = p then reopen n r else r)"
    by (rule ext) (auto simp: reopen_def split: option.splits)
  then show ?thesis
    by (simp add: ResetProject_def UpdateLatestVersion_def andThen_def update_projects_def delete_objects_def
        update_objects_def set_objects_def rewind_def Let_def)
qed

lemma rewind_sorted:
  assumes "sorted_wrt compat rs" 
  shows "sorted_wrt compat (rewind p n rs)"
  unfolding rewind_def sorted_wrt_map
proof (rule sorted_wrt_mono_rel[OF _ sorted_wrt_filter[OF assms]])
  fix r s assume rs: "r \<in> set (filter (\<lambda>r. \<not> (o_project r = p \<and> o_start r > n)) rs)"
    "s \<in> set (filter (\<lambda>r. \<not> (o_project r = p \<and> o_start r > n)) rs)" "compat r s"
  show "compat (if o_project r = p then reopen n r else r) (if o_project s = p then reopen n s else s)"
  proof (cases "o_project r = o_project s")
    case True
    with rs compat_reopen[of r s n] show ?thesis by auto
  qed (auto simp: compat_def)
qed

lemma ResetProject_ok:
  assumes "db_ok db"
  shows "\<exists>db'. ResetProject p n db = (db', Inr ()) \<and> db_ok db' \<and> objects db' = rewind p n (objects db) \<and>
    latest_of db' q = (if q = p \<and> find_project db p \<noteq> None then n else latest_of db q) \<and>
    contents db' = contents db"
proof -
  obtain db1 x where d: "UpdateLatestVersion p n db = (db1, x)" by (cases "UpdateLatestVersion p n db")
  note L = latest_of_UpdateLatestVersion[OF d]
  have within: "row_within (latest_of db1 (o_project r)) r" if r: "r \<in> set (rewind p n (objects db))" for r
  proof -
    obtain s where s: "s \<in> set (objects db)" "\<not> (o_project s = p \<and> o_start s > n)"
      "r = (if o_project s = p then reopen n s else s)" using r unfolding in_rewind by blast
    have "find_project db (o_project s) \<noteq> None" using db_ok_no_rows[OF assms, of s] s(1) by blast
    with s db_okD(3)[OF assms s(1)] show ?thesis
      by (cases "o_project s = p") (simp_all add: L(1) row_within_reopen)
  qed
  have c: "sorted_wrt compat (rewind p n (objects db))" by (rule rewind_sorted[OF db_okD(2)[OF assms]])
  have "unique_ok (rewind p n (objects db))" by (rule unique_okI[OF c]) (use within in blast)
  then have "ResetProject p n db = (db1\<lparr>objects := rewind p n (objects db)\<rparr>, Inr ())"
    by (simp add: ResetProject_eq d)
  moreover have "latest_of (db1\<lparr>objects := rs\<rparr>) q' = latest_of db1 q'" for rs q'
    by (simp add: latest_of_def find_project_def)
  moreover have "db_ok (db1\<lparr>objects := rewind p n (objects db)\<rparr>)"
    using within c L(4) db_okD(1)[OF assms] by (simp add: db_ok_def list_all_iff calculation(2))
  ultimately show ?thesis using L by simp
qed

text \<open>Resetting to the version before a write gives back the rows and projects from before it.\<close>

lemma reset_undoes_write:
  assumes "db_ok db" and "version_writer wr p v" and "find_project db p = Some pr" "latest_version pr = v - 1"
    and "wr db = (db1, r)" and "UpdateLatestVersion p v db1 = (db2, r')"
  shows "\<exists>db'. ResetProject p (v - 1) db2 = (db', Inr ()) \<and> objects db' = objects db \<and> projects db' = projects db"
proof -
  note W = version_writer.past[OF assms(2,5)] version_writer.frame[OF assms(2,5)]
  note L = latest_of_UpdateLatestVersion[OF assms(6)]
  have old: "row_within (v - 1) s" if "s \<in> set (objects db)" "o_project s = p" for s
    using db_okD(3)[OF assms(1) that(1)] that(2) assms(3,4) by (simp add: latest_of_def)
  have rows: "rewind p (v - 1) (objects db2) = objects db"
    unfolding L(2) W(1) by (rule rewind_id) (rule old)
  then have u: "unique_ok (rewind p (v - 1) (objects db2))" using db_ok_unique[OF assms(1)] by simp
  let ?set = "\<lambda>n rs. map (\<lambda>r. if p_id r = p then r\<lparr>latest_version := n\<rparr> else r) rs"
  have db2: "projects db2 = ?set v (projects db)"
    using assms(6) W(2) by (auto simp: UpdateLatestVersion_def update_projects_def)
  have "r = pr" if "r \<in> set (projects db)" "p_id r = p" for r
    using distinct_map_inj_on_set[OF db_okD(1)[OF assms(1)] that(1), of pr] find_project_Some[OF assms(3)] that by simp
  then have "?set (v - 1) (?set v (projects db)) = projects db"
    using assms(4) by (auto intro!: map_idI)
  then show ?thesis using u rows db2
    by (simp add: ResetProject_eq UpdateLatestVersion_def update_projects_def Let_def)
qed

lemma DropOtherProjects_eq:
  "DropOtherProjects ps db = (db\<lparr>projects := filter (\<lambda>r. p_id r \<in> set ps) (projects db),
     objects := filter (\<lambda>r. o_project r \<in> set ps) (objects db)\<rparr>, Inr ())"
  by (simp add: DropOtherProjects_def andThen_def delete_objects_def)

lemma find_filter_in: "q \<in> A \<Longrightarrow> find (\<lambda>r. p_id r = q) (filter (\<lambda>r. p_id r \<in> A) rs) = find (\<lambda>r. p_id r = q) rs"
  by (induction rs) auto

lemma DropOtherProjects_ok: "db_ok db \<Longrightarrow> db_ok (fst (DropOtherProjects ps db))"
  by (auto simp: db_ok_def DropOtherProjects_eq list_all_iff sorted_wrt_filter distinct_map_filter latest_of_def
      find_project_def find_filter_in)

end
