(* ===== verification/Collector.thy ===== *)
theory Collector
  imports Queries
begin

text \<open>
  \<^verbatim>\<open>internal/db/gc.go\<close>: deleting object rows that stopped long ago and contents that no row
  refers to. The lemmas show what collection may not touch: every snapshot and every
  difference from the kept versions on, and every content a row refers to.
\<close>

section \<open>Operations\<close>

definition collectable :: "DB \<Rightarrow> int \<Rightarrow> int \<Rightarrow> int \<Rightarrow> object_row \<Rightarrow> bool" where
  "collectable db project keep fromVersion r \<longleftrightarrow>
     o_project r = project \<and> o_start r > fromVersion \<and>
     (case (o_stop r, find_project db project) of
        (Some t, Some pr) \<Rightarrow> t \<le> latest_version pr - keep
      | _ \<Rightarrow> False)"

definition GcProjectObjects :: "int \<Rightarrow> int \<Rightarrow> int \<Rightarrow> (DB, Hash list) dbm" where
  "GcProjectObjects project keep fromVersion db =
     (case find_project db project of
        Some pr \<Rightarrow> if \<not> is_int64 (latest_version pr - keep) then (db, Inl ErrNumericRange)
          else (db\<lparr>objects := filter (\<lambda>r. \<not> collectable db project keep fromVersion r) (objects db)\<rparr>,
                Inr (map o_hash (filter (collectable db project keep fromVersion) (objects db))))
      | None \<Rightarrow> (db, Inr []))"

fun GcProjectsObjects :: "int list \<Rightarrow> int \<Rightarrow> int \<Rightarrow> (DB, Hash list) dbm" where
  "GcProjectsObjects [] keep fromVersion = ret []"
| "GcProjectsObjects (project # ps) keep fromVersion =
     andThen (GcProjectObjects project keep fromVersion) (\<lambda>h.
     andThen (GcProjectsObjects ps keep fromVersion) (\<lambda>hashes. ret (h @ hashes)))"

text \<open>The loop does not end for a chunk size of zero.\<close>

partial_function (option) chunk_from :: "nat \<Rightarrow> 'a list list \<Rightarrow> 'a list \<Rightarrow> 'a list list option" where
  "chunk_from chunkSize chunks items =
     (if chunkSize < length items
      then chunk_from chunkSize (chunks @ [take chunkSize items]) (drop chunkSize items)
      else Some (chunks @ [items]))"

declare chunk_from.simps [code]

definition chunk :: "'a list \<Rightarrow> nat \<Rightarrow> 'a list list option" where
  "chunk items chunkSize = chunk_from chunkSize [] items"

definition unreferenced :: "DB \<Rightarrow> Hash list \<Rightarrow> Hash \<Rightarrow> bool" where
  "unreferenced db hashes h \<longleftrightarrow> h \<in> set hashes \<and> h \<notin> o_hash ` set (objects db)"

definition gc_chunk :: "Hash list \<Rightarrow> int \<Rightarrow> (DB, int) dbm" where
  "gc_chunk hashChunk rowsAffected db =
     (db\<lparr>contents := filter (\<lambda>c. \<not> unreferenced db hashChunk (fst c)) (contents db)\<rparr>,
      Inr (rowsAffected + int (length (filter (\<lambda>c. unreferenced db hashChunk (fst c)) (contents db)))))"

fun gc_chunks :: "Hash list list \<Rightarrow> int \<Rightarrow> (DB, int) dbm" where
  "gc_chunks [] rowsAffected = ret rowsAffected"
| "gc_chunks (c # cs) rowsAffected = andThen (gc_chunk c rowsAffected) (gc_chunks cs)"

definition GcContentHashes :: "Hash list \<Rightarrow> (DB, int) dbm" where
  "GcContentHashes hashes =
     (if length hashes = 0 then ret 0
      else case chunk hashes 500 of None \<Rightarrow> fail ErrStuck | Some cs \<Rightarrow> gc_chunks cs 0)"

section \<open>Chunks\<close>

lemma chunk_from_ok:
  "0 < n \<Longrightarrow> \<exists>cs. chunk_from n acc items = Some (acc @ cs) \<and> concat cs = items \<and> (\<forall>c \<in> set cs. length c \<le> n)"
proof (induction "length items" arbitrary: items acc rule: less_induct)
  case less
  show ?case
  proof (cases "n < length items")
    case True
    with less.prems have "length (drop n items) < length items" by simp
    then obtain cs where cs: "chunk_from n (acc @ [take n items]) (drop n items) = Some ((acc @ [take n items]) @ cs)"
      "concat cs = drop n items" "\<forall>c \<in> set cs. length c \<le> n"
      using less.hyps[of "drop n items" "acc @ [take n items]"] less.prems by blast
    have "chunk_from n acc items = Some (acc @ (take n items # cs))"
      using True cs(1) by (subst chunk_from.simps) simp
    then show ?thesis using cs by (intro exI[of _ "take n items # cs"]) simp
  next
    case False
    then have "chunk_from n acc items = Some (acc @ [items])" by (subst chunk_from.simps) simp
    with False show ?thesis by (intro exI[of _ "[items]"]) simp
  qed
qed

lemma chunk_ok:
  "0 < n \<Longrightarrow> \<exists>cs. chunk items n = Some cs \<and> concat cs = items \<and> (\<forall>c \<in> set cs. length c \<le> n)"
  using chunk_from_ok[of n "[]" items] by (simp add: chunk_def)

section \<open>Contents\<close>

lemma gc_chunks_eq:
  "gc_chunks cs n db =
     (db\<lparr>contents := filter (\<lambda>c. \<not> unreferenced db (concat cs) (fst c)) (contents db)\<rparr>,
      Inr (n + int (length (filter (\<lambda>c. unreferenced db (concat cs) (fst c)) (contents db)))))"
proof (induction cs arbitrary: n db)
  case Nil
  then show ?case by (simp add: unreferenced_def)
next
  case (Cons c cs)
  let ?db = "db\<lparr>contents := filter (\<lambda>x. \<not> unreferenced db c (fst x)) (contents db)\<rparr>"
  have u: "unreferenced ?db hs h = unreferenced db hs h" for hs h by (simp add: unreferenced_def)
  have app: "unreferenced db (c @ concat cs) h \<longleftrightarrow> unreferenced db c h \<or> (\<not> unreferenced db c h \<and> unreferenced db (concat cs) h)" for h
    by (auto simp: unreferenced_def)
  have count: "length (filter (\<lambda>x. P x \<or> (\<not> P x \<and> Q x)) xs) = length (filter P xs) + length (filter Q (filter (\<lambda>x. \<not> P x) xs))"
    for P Q and xs :: "(Hash \<times> bytes) list" by (induction xs) auto
  have "gc_chunks (c # cs) n db = gc_chunks cs (n + int (length (filter (\<lambda>x. unreferenced db c (fst x)) (contents db)))) ?db"
    by (simp add: andThen_def gc_chunk_def)
  also have "\<dots> = (?db\<lparr>contents := filter (\<lambda>x. \<not> unreferenced db (concat cs) (fst x)) (contents ?db)\<rparr>,
      Inr (n + int (length (filter (\<lambda>x. unreferenced db c (fst x)) (contents db))) +
        int (length (filter (\<lambda>x. unreferenced db (concat cs) (fst x)) (contents ?db)))))"
    unfolding Cons.IH u ..
  also have "\<dots> = (db\<lparr>contents := filter (\<lambda>x. \<not> unreferenced db (concat (c # cs)) (fst x)) (contents db)\<rparr>,
      Inr (n + int (length (filter (\<lambda>x. unreferenced db (concat (c # cs)) (fst x)) (contents db)))))"
    unfolding concat.simps app count by (auto intro!: arg_cong[where f = "\<lambda>cs. db\<lparr>contents := cs\<rparr>"] filter_cong)
  finally show ?case .
qed

lemma GcContentHashes_eq:
  "GcContentHashes hashes db =
     (db\<lparr>contents := filter (\<lambda>c. \<not> unreferenced db hashes (fst c)) (contents db)\<rparr>,
      Inr (int (length (filter (\<lambda>c. unreferenced db hashes (fst c)) (contents db)))))"
proof (cases "hashes = []")
  case True
  then show ?thesis by (simp add: GcContentHashes_def unreferenced_def)
next
  case False
  obtain cs where "chunk hashes 500 = Some cs" "concat cs = hashes" using chunk_ok[of 500 hashes] by auto
  with False show ?thesis by (simp add: GcContentHashes_def gc_chunks_eq)
qed

lemma map_of_filter_key: "map_of (filter (\<lambda>c. P (fst c)) xs) h = (if P h then map_of xs h else None)"
  by (induction xs) auto

lemma GcContentHashes_lookup:
  "map_of (contents (fst (GcContentHashes hashes db))) h =
     (if unreferenced db hashes h then None else map_of (contents db) h)"
  using map_of_filter_key[of "\<lambda>h. \<not> unreferenced db hashes h" "contents db" h] by (simp add: GcContentHashes_eq)

section \<open>Rows\<close>

lemma GcProjectObjects_frame:
  assumes "GcProjectObjects p keep from db = (db', r)"
  shows "projects db' = projects db" "contents db' = contents db" "cache_versions db' = cache_versions db"
    and "objects db' = filter (\<lambda>r. \<not> collectable db p keep from r) (objects db) \<or> objects db' = objects db"
  using assms by (auto simp: GcProjectObjects_def split: option.splits if_splits)

lemma collectable_stop:
  "collectable db p keep from r \<Longrightarrow> o_project r = p \<and> (\<exists>t. o_stop r = Some t \<and> t \<le> latest_of db p - keep)"
  by (auto simp: collectable_def latest_of_def split: option.splits)

lemma GcProjectObjects_snapshot:
  assumes "GcProjectObjects p keep from db = (db', r)" and "q = p \<longrightarrow> latest_of db p - keep \<le> w"
  shows "snapshot (objects db') q w = snapshot (objects db) q w"
proof -
  have "snapshot (filter (\<lambda>r. \<not> collectable db p keep from r) (objects db)) q w = snapshot (objects db) q w"
    using assms(2) by (intro snapshot_filter_other) (auto simp: live_at_def dest!: collectable_stop)
  with GcProjectObjects_frame(4)[OF assms(1)] show ?thesis by metis
qed

text \<open>Queries that start no earlier than the kept versions see no difference, row by row.\<close>

lemma possible_filter:
  assumes "\<And>r. r \<in> set (objects db) \<Longrightarrow> o_project r = qb_project qb \<Longrightarrow> drop_it r \<Longrightarrow>
      \<not> starts_in (qb_vrange qb) r \<and> \<not> (w \<and> stops_in (qb_vrange qb) r)"
  shows "possibleObjectsCTE qb w (db\<lparr>objects := filter (\<lambda>r. \<not> drop_it r) (objects db)\<rparr>) = possibleObjectsCTE qb w db"
  using assms by (auto simp: possibleObjectsCTE_def Let_def intro!: filter_cong)

lemma GcProjectObjects_query:
  assumes "GcProjectObjects p keep from db = (db', r)" and "qb_project qb = p"
    and "latest_of db p - keep \<le> To (qb_vrange qb)"
    and "From (qb_vrange qb) = 0 \<or> latest_of db p - keep \<le> From (qb_vrange qb)"
  shows "build L qb db' = build L qb db"
proof -
  let ?dead = "collectable db p keep from" let ?db = "db\<lparr>objects := filter (\<lambda>r. \<not> ?dead r) (objects db)\<rparr>"
  have "\<not> starts_in (qb_vrange qb) s \<and> \<not> (From (qb_vrange qb) \<noteq> 0 \<and> stops_in (qb_vrange qb) s)" if "?dead s" for s
    using collectable_stop[OF that] assms(3,4) by (auto simp: starts_in_def stops_in_def)
  then have "possibleObjectsCTE qb (From (qb_vrange qb) \<noteq> 0) ?db = possibleObjectsCTE qb (From (qb_vrange qb) \<noteq> 0) db"
    by (intro possible_filter) blast
  then have "build L qb ?db = build L qb db"
    by (cases "From (qb_vrange qb) = 0")
      (simp_all add: build_def queryWithoutRemovals_def queryWithRemovals_def updatedObjectsCTE_def cachedObjectHashesCTE_def)
  moreover have "db' = ?db \<or> db' = db"
    using assms(1) by (auto simp: GcProjectObjects_def split: option.splits if_splits)
  ultimately show ?thesis by blast
qed

end
