(* ===== verification/Auths.thy ===== *)
theory Auths
  imports GoStrings
begin

text \<open>
  \<^verbatim>\<open>internal/auth/auth.go\<close>, \<^verbatim>\<open>internal/environment/environment.go\<close>, the token interceptors of
  \<^verbatim>\<open>pkg/server/server.go\<close> and the three access checks at the top of \<^verbatim>\<open>pkg/api/fs.go\<close>.

  Verifying a Paseto signature is not part of the repository: \<open>verify\<close> maps a token to the
  subject of its payload, or to \<open>None\<close> when the signature does not verify.
\<close>

section \<open>Roles\<close>

datatype Role = NoRole | ProjectRole | AdminRole | SharedReaderRole

record Auth =
  Role :: Role
  Project :: "int option"

definition noAuth :: Auth where "noAuth = \<lparr>Role = NoRole, Project = None\<rparr>"
definition adminAuth :: Auth where "adminAuth = \<lparr>Role = AdminRole, Project = None\<rparr>"
definition sharedReaderAuth :: Auth where "sharedReaderAuth = \<lparr>Role = SharedReaderRole, Project = None\<rparr>"

text \<open>\<open>None\<close> is the dereference of a missing project.\<close>

definition Auth_String :: "Auth \<Rightarrow> string option" where
  "Auth_String a =
     (case Role a of
        NoRole \<Rightarrow> Some ''none''
      | ProjectRole \<Rightarrow> map_option (\<lambda>p. ''project['' @ FormatInt p @ '']'') (Project a)
      | AdminRole \<Rightarrow> Some ''admin''
      | SharedReaderRole \<Rightarrow> Some ''sharedReader'')"

datatype auth_error = ErrVerify | ErrSubject

definition Validate :: "(string \<Rightarrow> string option) \<Rightarrow> string \<Rightarrow> Auth \<times> auth_error option" where
  "Validate verify token =
     (case verify token of
        None \<Rightarrow> (noAuth, Some ErrVerify)
      | Some subject \<Rightarrow>
          if subject = ''admin'' then (adminAuth, None)
          else if subject = ''shared-reader'' then (sharedReaderAuth, None)
          else (case ParseInt subject of
                  None \<Rightarrow> (noAuth, Some ErrSubject)
                | Some project \<Rightarrow> (\<lparr>Role = ProjectRole, Project = Some project\<rparr>, None)))"

section \<open>Environments\<close>

text \<open>The zero value of \<^verbatim>\<open>Env\<close> is none of the three.\<close>

datatype Env = UnsetEnv | Dev | Test | Prod

definition Env_String :: "Env \<Rightarrow> string" where
  "Env_String e = (case e of Dev \<Rightarrow> ''dev'' | Test \<Rightarrow> ''test'' | Prod \<Rightarrow> ''prod'' | UnsetEnv \<Rightarrow> ''unknown'')"

definition ToLower :: "string \<Rightarrow> string" where
  "ToLower s = map (\<lambda>c. let n = of_char c :: nat in if 65 \<le> n \<and> n \<le> 90 then char_of (n + 32) else c) s"

definition LoadEnvironment :: "string \<Rightarrow> Env option" where
  "LoadEnvironment envStr =
     (let s = ToLower envStr in
      if s = ''dev'' then Some Dev else if s = ''test'' then Some Test else if s = ''prod'' then Some Prod else None)"

section \<open>Status codes and interceptors\<close>

datatype code =
    InvalidArgument | NotFound | AlreadyExists | PermissionDenied | Unauthenticated
  | Unimplemented | Internal | Unavailable

definition getToken :: "string list \<Rightarrow> string option" where
  "getToken values =
     (case values of
        [v] \<Rightarrow> if HasPrefix v ''Bearer '' then Some (TrimPrefix v ''Bearer '') else None
      | _ \<Rightarrow> None)"

text \<open>A context is the authentication stored in it, if any.\<close>

type_synonym ctx = "Auth option"

definition ValidateTokenUnary ::
    "(string \<Rightarrow> string option) \<Rightarrow> string list option \<Rightarrow> string \<Rightarrow> (ctx \<Rightarrow> 's \<Rightarrow> 's \<times> (code + 'r)) \<Rightarrow> ctx \<Rightarrow> 's \<Rightarrow> 's \<times> (code + 'r)" where
  "ValidateTokenUnary verify authorization fullMethod handler ctx s =
     (case authorization of
        None \<Rightarrow> (s, Inl InvalidArgument)
      | Some values \<Rightarrow>
          if fullMethod = ''/grpc.health.v1.Health/Check'' then handler ctx s
          else
            (case getToken values of
               None \<Rightarrow> (s, Inl Unauthenticated)
             | Some token \<Rightarrow>
                 (case Validate verify token of
                    (reqAuth, err) \<Rightarrow>
                      if err \<noteq> None \<or> Role reqAuth = NoRole then (s, Inl PermissionDenied)
                      else handler (Some reqAuth) s)))"

text \<open>
  The stream interceptor hands on the stream it was given. The authentication reaches the
  handler only if that stream is already a wrapped one, whose context \<^verbatim>\<open>WrapServerStream\<close> then
  replaces in place; in the server's chain the logging interceptor has wrapped it before.
\<close>

definition validateTokenStream ::
    "(string \<Rightarrow> string option) \<Rightarrow> bool \<Rightarrow> string list option \<Rightarrow> (ctx \<Rightarrow> 's \<Rightarrow> 's \<times> (code + 'r)) \<Rightarrow> ctx \<Rightarrow> 's \<Rightarrow> 's \<times> (code + 'r)" where
  "validateTokenStream verify alreadyWrapped authorization handler ctx s =
     (case authorization of
        None \<Rightarrow> (s, Inl InvalidArgument)
      | Some values \<Rightarrow>
          (case getToken values of
             None \<Rightarrow> (s, Inl Unauthenticated)
           | Some token \<Rightarrow>
               (case Validate verify token of
                  (reqAuth, err) \<Rightarrow>
                    if err \<noteq> None \<or> Role reqAuth = NoRole then (s, Inl PermissionDenied)
                    else handler (if alreadyWrapped then Some reqAuth else ctx) s)))"

section \<open>Access checks\<close>

text \<open>
  A context without authentication makes the type assertion panic; the recovery interceptor
  turns a panic into \<open>Internal\<close>.
\<close>

definition requireAdminAuth :: "ctx \<Rightarrow> code option" where
  "requireAdminAuth ctx =
     (case ctx of
        None \<Rightarrow> Some Internal
      | Some a \<Rightarrow> if Role a = AdminRole then None else Some PermissionDenied)"

definition requireProjectAuth :: "ctx \<Rightarrow> code + int" where
  "requireProjectAuth ctx =
     (case ctx of
        None \<Rightarrow> Inl Internal
      | Some a \<Rightarrow>
          if Role a = AdminRole then Inr (- 1)
          else if Role a = ProjectRole then (case Project a of None \<Rightarrow> Inl Internal | Some p \<Rightarrow> Inr p)
          else Inl PermissionDenied)"

definition requireSharedReaderAuth :: "ctx \<Rightarrow> code option" where
  "requireSharedReaderAuth ctx =
     (case ctx of
        None \<Rightarrow> Some Internal
      | Some a \<Rightarrow>
          if Role a = AdminRole then None
          else if Role a = ProjectRole then None
          else if Role a = SharedReaderRole then None
          else Some PermissionDenied)"

section \<open>Facts\<close>

text \<open>What a verified token gives access to.\<close>

lemma Validate_roles:
  assumes "Validate verify token = (a, None)"
  shows "Role a = AdminRole \<longleftrightarrow> verify token = Some ''admin''"
    and "Role a = SharedReaderRole \<longleftrightarrow> verify token = Some ''shared-reader''"
    and "Role a = ProjectRole \<longleftrightarrow> (\<exists>s p. verify token = Some s \<and> ParseInt s = Some p \<and> Project a = Some p)"
    and "Role a \<noteq> NoRole"
proof -
  have np: "ParseInt ''admin'' = None" "ParseInt ''shared-reader'' = None" by (simp_all add: ParseInt_def parse_magnitude_def char_digit_def)
  show "Role a = AdminRole \<longleftrightarrow> verify token = Some ''admin''"
    and "Role a = SharedReaderRole \<longleftrightarrow> verify token = Some ''shared-reader''"
    and "Role a = ProjectRole \<longleftrightarrow> (\<exists>s p. verify token = Some s \<and> ParseInt s = Some p \<and> Project a = Some p)"
    and "Role a \<noteq> NoRole"
    using assms np by (auto simp: Validate_def adminAuth_def sharedReaderAuth_def split: option.splits if_splits)
qed

lemma requireProjectAuth_own:
  "requireProjectAuth (Some a) = Inr p \<Longrightarrow> p > - 1 \<Longrightarrow> Role a = ProjectRole \<and> Project a = Some p"
  by (auto simp: requireProjectAuth_def split: if_splits option.splits)

lemma getToken_Bearer: "getToken [''Bearer '' @ t] = Some t"
  by (simp add: getToken_def TrimPrefix_def HasPrefix_def)

lemma getToken_Some: "getToken vs = Some t \<longleftrightarrow> vs = [''Bearer '' @ t]"
proof
  assume "getToken vs = Some t"
  then obtain v where "vs = [v]" "HasPrefix v ''Bearer ''" "t = TrimPrefix v ''Bearer ''"
    by (auto simp: getToken_def split: list.splits if_splits)
  then show "vs = [''Bearer '' @ t]" by (auto simp: TrimPrefix_def HasPrefix_iff_prefix prefix_def)
qed (simp only: getToken_Bearer)

end
