(* ===== verification/Handlers.thy ===== *)
theory Handlers
  imports Updates Streams Clones Resets Collector Auths
begin

text \<open>
  \<^verbatim>\<open>pkg/api/fs.go\<close>: every handler of the Fs service as a function from the request's context,
  the request and the database to the new database and a status code or response. A handler
  checks access, opens a transaction, calls the components and commits; any other way out rolls
  the transaction back (the deferred \<^verbatim>\<open>close\<close>).

  The surroundings that may fail or choose are fields of \<open>Fs\<close>: whether a connection is
  obtained, whether the commit succeeds, whether the n-th message can be sent, what the content
  cache holds and admits, and the order in which Go iterates over a map. A stream loop that
  never ended would be the value \<open>None\<close>; the lemmas show that it always ends.
\<close>

section \<open>The service\<close>

record Fs =
  fs_lib :: lib
  fs_Env :: Env
  fs_Connect :: bool
  fs_Commit :: bool
  fs_Send :: "nat \<Rightarrow> bool"
  fs_cache :: content_cache
  fs_admits :: "string \<Rightarrow> bytes \<Rightarrow> bool"
  fs_order :: "(string \<times> pb_object list) list \<Rightarrow> (string \<times> pb_object list) list"

type_synonym 'a handler = "DB \<Rightarrow> DB \<times> (code + 'a)"

text \<open>Open a transaction, run the body with its error codes, commit or roll back.\<close>

definition in_tx :: "Fs \<Rightarrow> (DB \<Rightarrow> DB \<times> (code + bool \<times> 'a)) \<Rightarrow> 'a handler" where
  "in_tx F body db =
     (if \<not> fs_Connect F then (db, Inl Unavailable)
      else
        (case body db of
           (db', Inl c) \<Rightarrow> (rollback_tx db db', Inl c)
         | (db', Inr (commits, a)) \<Rightarrow>
             if \<not> commits then (rollback_tx db db', Inr a)
             else if fs_Commit F then (db', Inr a)
             else (rollback_tx db db', Inl Internal)))"

definition coded :: "(dberr \<Rightarrow> code) \<Rightarrow> (DB, 'a) dbm \<Rightarrow> DB \<Rightarrow> DB \<times> (code + 'a)" where
  "coded f m db = (case m db of (db', Inl e) \<Rightarrow> (db', Inl (f e)) | (db', Inr a) \<Rightarrow> (db', Inr a))"

definition thenC :: "('s \<Rightarrow> 's \<times> ('c + 'a)) \<Rightarrow> ('a \<Rightarrow> 's \<Rightarrow> 's \<times> ('c + 'b)) \<Rightarrow> 's \<Rightarrow> 's \<times> ('c + 'b)" where
  "thenC m f s = (case m s of (s', Inl c) \<Rightarrow> (s', Inl c) | (s', Inr a) \<Rightarrow> f a s')"

definition done_tx :: "bool \<Rightarrow> 'a \<Rightarrow> DB \<Rightarrow> DB \<times> (code + bool \<times> 'a)" where
  "done_tx commits a db = (db, Inr (commits, a))"

definition stop_tx :: "code \<Rightarrow> DB \<Rightarrow> DB \<times> (code + 'a)" where
  "stop_tx c db = (db, Inl c)"

definition internal :: "dberr \<Rightarrow> code" where
  "internal e = Internal"

definition not_found :: "dberr \<Rightarrow> code" where
  "not_found e = (if e = ErrNotFound then NotFound else Internal)"

definition admin_only :: "ctx \<Rightarrow> 'a handler \<Rightarrow> 'a handler" where
  "admin_only ctx h db = (case requireAdminAuth ctx of Some c \<Rightarrow> (db, Inl c) | None \<Rightarrow> h db)"

section \<open>Projects\<close>

record NewProjectRequest =
  np_Id :: int
  np_Template :: "int option"
  np_PackPatterns :: "string list"

definition Fs_NewProject :: "Fs \<Rightarrow> ctx \<Rightarrow> NewProjectRequest \<Rightarrow> unit handler" where
  "Fs_NewProject F ctx req =
     admin_only ctx (in_tx F
       (thenC (coded (\<lambda>e. if e = ErrProjectExists then AlreadyExists else Internal)
          (CreateProject (np_Id req) (if np_PackPatterns req = [] then None else Some (np_PackPatterns req)))) (\<lambda>_.
        thenC (case np_Template req of
                 None \<Rightarrow> (\<lambda>db. (db, Inr ()))
               | Some template \<Rightarrow> coded internal (CopyAllObjects template (np_Id req))) (\<lambda>_.
        done_tx True ()))))"

record CloneToProjectRequest =
  cp_Source :: int
  cp_Version :: int
  cp_Target :: int

definition Fs_CloneToProject :: "Fs \<Rightarrow> ctx \<Rightarrow> CloneToProjectRequest \<Rightarrow> int handler" where
  "Fs_CloneToProject F ctx req =
     admin_only ctx (in_tx F
       (thenC (coded internal (HasSamePackPattern (cp_Source req) (cp_Target req))) (\<lambda>samePackPatterns.
        if \<not> samePackPatterns then stop_tx InvalidArgument
        else
          thenC (coded internal (LockLatestVersion (cp_Target req))) (\<lambda>latestVersion.
          let newVersion = wrap64 (latestVersion + 1) in
          thenC (coded internal (CloneToProject (fs_lib F) (cp_Source req) (cp_Target req) (cp_Version req) newVersion)) (\<lambda>_.
          thenC (coded internal (UpdateLatestVersion (cp_Target req) newVersion)) (\<lambda>_.
          done_tx True newVersion))))))"

definition Fs_DeleteProject :: "Fs \<Rightarrow> ctx \<Rightarrow> int \<Rightarrow> unit handler" where
  "Fs_DeleteProject F ctx project =
     admin_only ctx (in_tx F (thenC (coded internal (DeleteProject project)) (\<lambda>_. done_tx True ())))"

definition Fs_ListProjects :: "Fs \<Rightarrow> ctx \<Rightarrow> (int \<times> int) list handler" where
  "Fs_ListProjects F ctx =
     admin_only ctx (in_tx F (thenC (coded internal ListProjects) (done_tx False)))"

section \<open>Reading\<close>

definition validateObjectQuery :: "ObjectQuery \<Rightarrow> code option" where
  "validateObjectQuery query =
     (if \<not> q_IsPrefix query \<and> length (q_Ignores query) > 0 then Some InvalidArgument
      else if \<not> list_all (\<lambda>ignore. HasPrefix ignore (q_Path query)) (q_Ignores query) then Some InvalidArgument
      else None)"

record GetRequest =
  g_Project :: int
  g_FromVersion :: "int option"
  g_ToVersion :: "int option"
  g_Queries :: "ObjectQuery list"
  g_AvailableCacheVersions :: "int list"

definition project_access :: "ctx \<Rightarrow> int \<Rightarrow> 'a handler \<Rightarrow> 'a handler" where
  "project_access ctx reqProject h db =
     (case requireProjectAuth ctx of
        Inl c \<Rightarrow> (db, Inl c)
      | Inr project \<Rightarrow> if project > - 1 \<and> reqProject \<noteq> project then (db, Inl PermissionDenied) else h db)"

text \<open>The loop over one query's stream: send each object with the version.\<close>

definition send :: "Fs \<Rightarrow> 'a \<Rightarrow> 'a list \<Rightarrow> dberr + 'a list" where
  "send F msg sent = (if fs_Send F (length sent) then Inr (sent @ [msg]) else Inl ErrSend)"

definition query_objects :: "Fs \<Rightarrow> PackManager \<Rightarrow> int \<Rightarrow> VersionRange \<Rightarrow> (pb_object \<Rightarrow> 'b \<Rightarrow> dberr + 'b) \<Rightarrow> ObjectQuery \<Rightarrow> 'b \<Rightarrow>
    DB \<Rightarrow> DB \<times> (code + 'b)" where
  "query_objects F packManager project vrange use query acc db =
     (case GetObjects (fs_lib F) (fs_admits F) (fs_cache F) packManager project vrange query db of
        Inl e \<Rightarrow> (db, Inl Internal)
      | Inr (dbObjects, originalPath, objectQuery, s) \<Rightarrow>
          (case loop (object_step (fs_lib F) (fs_admits F) (contents db) dbObjects originalPath objectQuery) use s acc of
             None \<Rightarrow> (db, Inl Internal)
           | Some (Inl e) \<Rightarrow> (db, Inl Internal)
           | Some (Inr acc') \<Rightarrow> (db, Inr acc')))"

fun over_queries :: "(ObjectQuery \<Rightarrow> 'b \<Rightarrow> DB \<Rightarrow> DB \<times> (code + 'b)) \<Rightarrow> ObjectQuery list \<Rightarrow> 'b \<Rightarrow> DB \<Rightarrow> DB \<times> (code + 'b)" where
  "over_queries f [] acc db = (db, Inr acc)"
| "over_queries f (query # queries) acc db =
     (case validateObjectQuery query of
        Some c \<Rightarrow> (db, Inl c)
      | None \<Rightarrow> thenC (f query acc) (over_queries f queries) db)"

definition Fs_Get :: "Fs \<Rightarrow> ctx \<Rightarrow> GetRequest \<Rightarrow> (int \<times> pb_object) list handler" where
  "Fs_Get F ctx req =
     project_access ctx (g_Project req) (in_tx F
       (thenC (coded not_found (NewVersionRange (g_Project req) (g_FromVersion req) (g_ToVersion req))) (\<lambda>vrange.
        thenC (coded internal (NewPackManager (fs_lib F) (g_Project req))) (\<lambda>packManager.
        thenC (over_queries (query_objects F packManager (g_Project req) vrange
            (\<lambda>ob. send F (To vrange, ob))) (g_Queries req) []) (done_tx False)))))"

record GetUnaryResponse =
  gu_Version :: int
  gu_Objects :: "pb_object list"

definition Fs_GetUnary :: "Fs \<Rightarrow> ctx \<Rightarrow> GetRequest \<Rightarrow> GetUnaryResponse handler" where
  "Fs_GetUnary F ctx req =
     project_access ctx (g_Project req) (in_tx F
       (thenC (coded not_found (NewVersionRange (g_Project req) (g_FromVersion req) (g_ToVersion req))) (\<lambda>vrange.
        thenC (coded internal (NewPackManager (fs_lib F) (g_Project req))) (\<lambda>packManager.
        thenC (over_queries (query_objects F packManager (g_Project req) vrange
            (\<lambda>ob response. Inr (response\<lparr>gu_Version := To vrange, gu_Objects := gu_Objects response @ [ob]\<rparr>)))
          (g_Queries req) \<lparr>gu_Version = 0, gu_Objects = []\<rparr>) (done_tx False)))))"

definition query_tars :: "Fs \<Rightarrow> GetRequest \<Rightarrow> VersionRange \<Rightarrow> ObjectQuery \<Rightarrow> (int \<times> bytes option \<times> string option) list \<Rightarrow>
    DB \<Rightarrow> DB \<times> (code + (int \<times> bytes option \<times> string option) list)" where
  "query_tars F req vrange query acc db =
     (case GetTars (fs_lib F) (fs_admits F) (fs_cache F) (g_Project req) (g_AvailableCacheVersions req) vrange query db of
        Inl e \<Rightarrow> (db, Inl Internal)
      | Inr (dbObjects, s) \<Rightarrow>
          (case loop (tars_step (fs_lib F) (fs_admits F) (contents db) dbObjects)
                  (\<lambda>tar. send F (To vrange, tar)) s acc of
             None \<Rightarrow> (db, Inl Internal)
           | Some (Inl e) \<Rightarrow> (db, Inl Internal)
           | Some (Inr acc') \<Rightarrow> (db, Inr acc')))"

definition Fs_GetCompress :: "Fs \<Rightarrow> ctx \<Rightarrow> GetRequest \<Rightarrow> (int \<times> bytes option \<times> string option) list handler" where
  "Fs_GetCompress F ctx req =
     project_access ctx (g_Project req) (in_tx F
       (thenC (coded not_found (NewVersionRange (g_Project req) (g_FromVersion req) (g_ToVersion req))) (\<lambda>vrange.
        thenC (over_queries (query_tars F req vrange) (g_Queries req) []) (done_tx False))))"

record InspectResponse =
  i_Project :: int
  i_LatestVersion :: int
  i_LiveObjectsCount :: int
  i_TotalObjectsCount :: int

definition Fs_Inspect :: "Fs \<Rightarrow> ctx \<Rightarrow> int \<Rightarrow> InspectResponse handler" where
  "Fs_Inspect F ctx project =
     admin_only ctx (in_tx F
       (thenC (coded not_found (NewVersionRange project None None)) (\<lambda>vrange.
        thenC (coded internal (NewPackManager (fs_lib F) project)) (\<lambda>packManager.
        thenC (query_objects F packManager project vrange (\<lambda>ob n. Inr (n + 1))
            \<lparr>q_Path = [], q_IsPrefix = True, q_Ignores = []\<rparr> 0) (\<lambda>live_objects_count.
        thenC (coded internal (TotalObjectsCount project)) (\<lambda>total_objects_count.
        done_tx False \<lparr>i_Project = project, i_LatestVersion = To vrange, i_LiveObjectsCount = live_objects_count,
          i_TotalObjectsCount = total_objects_count\<rparr>))))))"

definition Fs_GetCache :: "Fs \<Rightarrow> ctx \<Rightarrow> (int \<times> bytes \<times> bytes) list handler" where
  "Fs_GetCache F ctx db =
     (case requireSharedReaderAuth ctx of
        Some c \<Rightarrow> (db, Inl c)
      | None \<Rightarrow>
          in_tx F (\<lambda>db.
            case loop cache_step
                   (\<lambda>(version, tar, hash). send F (version, tar, Hash_Bytes hash)) (GetCacheTars db) [] of
              Some (Inr msgs) \<Rightarrow> done_tx False msgs db
            | _ \<Rightarrow> stop_tx Internal db) db)"

section \<open>Updating\<close>

record update_buffers =
  ub_project :: int
  ub_packManager :: "PackManager option"
  ub_objectBuffer :: "pb_object list"
  ub_packedBuffer :: "(string \<times> pb_object list) list"

definition buffer_packed :: "string \<Rightarrow> pb_object \<Rightarrow> (string \<times> pb_object list) list \<Rightarrow> (string \<times> pb_object list) list" where
  "buffer_packed parent ob buf =
     AList.update parent ((case map_of buf parent of None \<Rightarrow> [] | Some obs \<Rightarrow> obs) @ [ob]) buf"

text \<open>One received message.\<close>

definition receive :: "lib \<Rightarrow> DB \<Rightarrow> int \<times> pb_object \<Rightarrow> update_buffers \<Rightarrow> code + update_buffers" where
  "receive L db req b =
     (let project = (if ub_project b = - 1 then fst req else ub_project b) in
      if project \<noteq> fst req then Inl InvalidArgument
      else
        (case (case ub_packManager b of Some pm \<Rightarrow> Inr pm | None \<Rightarrow> snd (NewPackManager L project db)) of
           Inl e \<Rightarrow> Inl Internal
         | Inr pm \<Rightarrow>
             (let b' = b\<lparr>ub_project := project, ub_packManager := Some pm\<rparr> in
              case IsPathPacked L pm (Path (snd req)) of
                Some packParent \<Rightarrow> Inr (b'\<lparr>ub_packedBuffer := buffer_packed packParent (snd req) (ub_packedBuffer b')\<rparr>)
              | None \<Rightarrow> Inr (b'\<lparr>ub_objectBuffer := ub_objectBuffer b' @ [snd req]\<rparr>))))"

text \<open>The receive loop, ended by the end of the stream or by a receive error.\<close>

fun receive_all :: "lib \<Rightarrow> DB \<Rightarrow> (int \<times> pb_object) list \<Rightarrow> code option \<Rightarrow> update_buffers \<Rightarrow> code + update_buffers" where
  "receive_all L db [] recvErr b = (case recvErr of Some c \<Rightarrow> Inl c | None \<Rightarrow> Inr b)"
| "receive_all L db (req # reqs) recvErr b =
     (case receive L db req b of Inl c \<Rightarrow> Inl c | Inr b' \<Rightarrow> receive_all L db reqs recvErr b')"

definition update_object :: "lib \<Rightarrow> int \<Rightarrow> int \<Rightarrow> pb_object \<Rightarrow> content_encoder \<times> bool \<Rightarrow> (DB, content_encoder \<times> bool) dbm" where
  "update_object L project nextVersion ob st =
     (case st of (encoder, shouldUpdateVersion) \<Rightarrow>
        if Deleted ob then andThen (DeleteObject project nextVersion (Path ob)) (\<lambda>_. ret (encoder, True))
        else
          andThen (UpdateObject L encoder project nextVersion ob) (\<lambda>(encoder', contentChanged).
          ret (encoder', shouldUpdateVersion \<or> contentChanged)))"

definition update_packed :: "lib \<Rightarrow> int \<Rightarrow> int \<Rightarrow> string \<times> pb_object list \<Rightarrow> bool \<Rightarrow> (DB, bool) dbm" where
  "update_packed L project nextVersion entry shouldUpdateVersion =
     andThen (UpdatePackedObjects L project nextVersion (fst entry) (snd entry)) (\<lambda>contentChanged.
     ret (shouldUpdateVersion \<or> contentChanged))"

text \<open>The two writing phases, for the buffered objects and packs.\<close>

definition write_update :: "Fs \<Rightarrow> int \<Rightarrow> int \<Rightarrow> pb_object list \<Rightarrow> (string \<times> pb_object list) list \<Rightarrow> (DB, bool) dbm" where
  "write_update F project nextVersion objectBuffer packedBuffer =
     andThen (foldM (update_object (fs_lib F) project nextVersion) objectBuffer (NewContentEncoder, False)) (\<lambda>(encoder, should).
     foldM (update_packed (fs_lib F) project nextVersion) (fs_order F packedBuffer) should)"

definition update_body :: "Fs \<Rightarrow> int \<Rightarrow> (int \<times> pb_object) list \<Rightarrow> code option \<Rightarrow> DB \<Rightarrow> DB \<times> (code + bool \<times> int)" where
  "update_body F authProject reqs recvErr db =
     (case receive_all (fs_lib F) db reqs recvErr
             \<lparr>ub_project = authProject, ub_packManager = None, ub_objectBuffer = [], ub_packedBuffer = []\<rparr> of
        Inl c \<Rightarrow> (db, Inl c)
      | Inr b \<Rightarrow>
          if length (ub_objectBuffer b) = 0 \<and> length (ub_packedBuffer b) = 0 then done_tx False (- 1) db
          else
            thenC (coded not_found (LockLatestVersion (ub_project b))) (\<lambda>latestVersion.
            let nextVersion = wrap64 (latestVersion + 1) in
            thenC (coded internal (write_update F (ub_project b) nextVersion (ub_objectBuffer b) (ub_packedBuffer b))) (\<lambda>shouldUpdateVersion.
            if \<not> shouldUpdateVersion then done_tx False latestVersion
            else
              thenC (coded internal (UpdateLatestVersion (ub_project b) nextVersion)) (\<lambda>_.
              done_tx True nextVersion))) db)"

definition Fs_Update :: "Fs \<Rightarrow> ctx \<Rightarrow> (int \<times> pb_object) list \<Rightarrow> code option \<Rightarrow> int handler" where
  "Fs_Update F ctx reqs recvErr db =
     (case requireProjectAuth ctx of
        Inl c \<Rightarrow> (db, Inl c)
      | Inr authProject \<Rightarrow> in_tx F (update_body F authProject reqs recvErr) db)"

section \<open>Administration\<close>

definition Fs_Rollback :: "Fs \<Rightarrow> ctx \<Rightarrow> int \<Rightarrow> int \<Rightarrow> unit handler" where
  "Fs_Rollback F ctx project version =
     admin_only ctx (in_tx F (thenC (coded internal (ResetProject project version)) (\<lambda>_. done_tx True ())))"

definition dev_or_test :: "Fs \<Rightarrow> 'a handler \<Rightarrow> 'a handler" where
  "dev_or_test F h db = (if fs_Env F \<noteq> Dev \<and> fs_Env F \<noteq> Test then (db, Inl Unimplemented) else h db)"

definition Fs_Snapshot :: "Fs \<Rightarrow> ctx \<Rightarrow> (int \<times> int) list handler" where
  "Fs_Snapshot F ctx =
     dev_or_test F (admin_only ctx (in_tx F (thenC (coded internal ListProjects) (done_tx False))))"

fun reset_projects :: "(int \<times> int) list \<Rightarrow> (DB, unit) dbm" where
  "reset_projects [] = ret ()"
| "reset_projects ((project, version) # ps) = andThen (ResetProject project version) (\<lambda>_. reset_projects ps)"

definition Fs_Reset :: "Fs \<Rightarrow> ctx \<Rightarrow> (int \<times> int) list \<Rightarrow> unit handler" where
  "Fs_Reset F ctx ps =
     dev_or_test F (admin_only ctx (in_tx F
       (thenC (if length ps = 0 then coded internal ResetAll
               else coded internal (andThen (reset_projects ps) (\<lambda>_. DropOtherProjects (map fst ps)))) (\<lambda>_.
        done_tx True ()))))"

record GcResponse =
  gc_Count :: int
  gc_Projects :: "int list"

definition Fs_GcProject :: "Fs \<Rightarrow> ctx \<Rightarrow> int \<Rightarrow> int \<Rightarrow> int option \<Rightarrow> GcResponse handler" where
  "Fs_GcProject F ctx project keepVersions reqFrom =
     admin_only ctx
       (if keepVersions \<le> 0 then stop_tx InvalidArgument
        else
          (let fromVersion = (case reqFrom of None \<Rightarrow> 0 | Some v \<Rightarrow> v) in
           thenC (coded internal (GcProjectObjects project keepVersions fromVersion)) (\<lambda>hashes.
           thenC (coded internal (GcContentHashes hashes)) (\<lambda>cnt db.
           (db, Inr \<lparr>gc_Count = cnt, gc_Projects = [project]\<rparr>)))))"

definition Fs_GcRandomProjects :: "Fs \<Rightarrow> ctx \<Rightarrow> (nat \<Rightarrow> int \<Rightarrow> bool) \<Rightarrow> int \<Rightarrow> int option \<Rightarrow> GcResponse handler" where
  "Fs_GcRandomProjects F ctx sample keepVersions reqFrom =
     admin_only ctx
       (if keepVersions \<le> 0 then stop_tx InvalidArgument
        else
          (let fromVersion = (case reqFrom of None \<Rightarrow> 0 | Some v \<Rightarrow> v) in
           thenC (coded internal (RandomProjects sample)) (\<lambda>ps.
           thenC (coded internal (GcProjectsObjects ps keepVersions fromVersion)) (\<lambda>hashes.
           thenC (coded internal (GcContentHashes hashes)) (\<lambda>cnt db.
           (db, Inr \<lparr>gc_Count = cnt, gc_Projects = ps\<rparr>))))))"

definition Fs_GcContents :: "Fs \<Rightarrow> ctx \<Rightarrow> (contents_table \<Rightarrow> contents_table) \<Rightarrow> int handler" where
  "Fs_GcContents F ctx sample =
     admin_only ctx (\<lambda>db. coded internal (GcContentHashes (RandomContents sample (contents db))) db)"

end
