(* ===== verification/Service.thy ===== *)
theory Service
  imports Handlers
begin

text \<open>
  Lemmas about the handlers of \<open>Handlers\<close>: what a transaction leaves behind when it fails, the
  shape of a successful update, and the effect of its two writing phases on the project's head.
\<close>

section \<open>Transactions\<close>

lemma rollback_tx_sel [simp]:
  "objects (rollback_tx a b) = objects a" "projects (rollback_tx a b) = projects a"
  "cache_versions (rollback_tx a b) = cache_versions a" "cache_seq (rollback_tx a b) = cache_seq a"
  by (simp_all add: rollback_tx_def)

lemma rollback_tx_contents: "map_of (contents a) \<subseteq>\<^sub>m map_of (contents (rollback_tx a b))"
  by (auto simp: rollback_tx_def map_le_def map_add_def split: option.splits)

lemma latest_of_rollback [simp]: "latest_of (rollback_tx a b) q = latest_of a q"
  by (simp add: latest_of_def find_project_def)

lemma db_ok_rollback [simp]: "db_ok (rollback_tx a b) = db_ok a"
  by (simp add: db_ok_def)

text \<open>A transaction that does not end well leaves the rows as they were.\<close>

lemma in_tx_Inl:
  assumes "in_tx F body db = (db', Inl c)"
  shows "objects db' = objects db \<and> projects db' = projects db \<and> cache_versions db' = cache_versions db \<and>
    map_of (contents db) \<subseteq>\<^sub>m map_of (contents db')"
  using assms by (auto simp: in_tx_def rollback_tx_contents split: if_splits prod.splits sum.splits)

lemma in_tx_Inr:
  assumes "in_tx F body db = (db', Inr a)"
  shows "\<exists>d commits. body db = (d, Inr (commits, a)) \<and> db' = (if commits then d else rollback_tx db d)"
  using assms by (auto simp: in_tx_def split: if_splits prod.splits sum.splits)

lemma thenC_Inr: "thenC m f s = (t, Inr b) \<longleftrightarrow> (\<exists>s' a. m s = (s', Inr a) \<and> f a s' = (t, Inr b))"
  by (auto simp: thenC_def split: prod.splits sum.splits)

lemma coded_Inr: "coded f m db = (d, Inr a) \<longleftrightarrow> m db = (d, Inr a)"
  by (auto simp: coded_def split: prod.splits sum.splits)

lemma done_tx_eq: "done_tx c a db = (d, x) \<longleftrightarrow> d = db \<and> x = Inr (c, a)"
  by (auto simp: done_tx_def)

lemma LockLatestVersion_Inr:
  "LockLatestVersion p db = (d, Inr v) \<longleftrightarrow> d = db \<and> (\<exists>pr. find_project db p = Some pr \<and> latest_version pr = v)"
  by (auto simp: LockLatestVersion_def split: option.splits)

lemma getLatestVersion_Inr:
  "getLatestVersion p db = (d, Inr v) \<longleftrightarrow> d = db \<and> (\<exists>pr. find_project db p = Some pr \<and> latest_version pr = v)"
  by (auto simp: getLatestVersion_def split: option.splits)

lemmas tx_simps = thenC_Inr coded_Inr done_tx_eq LockLatestVersion_Inr

section \<open>The shape of an update\<close>

lemma update_object_writer: "version_writer (update_object L p v ob st) p v"
  unfolding update_object_def
  by (auto split: prod.splits intro!: version_writer_andThen version_writer_ret
      del.version_writer_axioms upo.version_writer_axioms)

lemma update_packed_writer: "version_writer (update_packed L p v e s) p v"
  unfolding update_packed_def
  by (intro version_writer_andThen version_writer_ret pck.version_writer_axioms)

lemma write_update_writer: "version_writer (write_update F p v obs packs) p v"
  unfolding write_update_def
  by (auto split: prod.splits intro!: version_writer_andThen version_writer_foldM update_object_writer update_packed_writer)

lemma update_body_Inr:
  assumes "update_body F a reqs recvErr db = (d, Inr (commits, v))" and "commits"
  shows "\<exists>p pr obs packs d1. find_project db p = Some pr \<and> v = wrap64 (latest_version pr + 1) \<and>
    write_update F p v obs packs db = (d1, Inr True) \<and> UpdateLatestVersion p v d1 = (d, Inr ())"
proof -
  from assms obtain b where "receive_all (fs_lib F) db reqs recvErr
      \<lparr>ub_project = a, ub_packManager = None, ub_objectBuffer = [], ub_packedBuffer = []\<rparr> = Inr b"
    by (auto simp: update_body_def split: sum.splits)
  with assms show ?thesis
    by (auto simp: update_body_def tx_simps Let_def split: if_splits) metis+
qed

text \<open>Either the rows are the old ones, or one version of one project was written on top of them.\<close>

lemma Fs_Update_cases:
  assumes "Fs_Update F ctx reqs recvErr db = (db', r)"
  obtains (same) "objects db' = objects db" "projects db' = projects db" "map_of (contents db) \<subseteq>\<^sub>m map_of (contents db')"
  | (written) p pr v obs packs d1 where "find_project db p = Some pr" "v = wrap64 (latest_version pr + 1)" "r = Inr v"
      "write_update F p v obs packs db = (d1, Inr True)" "UpdateLatestVersion p v d1 = (db', Inr ())"
proof (cases "requireProjectAuth ctx")
  case (Inl c)
  with assms same show ?thesis by (auto simp: Fs_Update_def)
next
  case (Inr a)
  then have tx: "in_tx F (update_body F a reqs recvErr) db = (db', r)" using assms by (simp add: Fs_Update_def)
  show ?thesis
  proof (cases r)
    case (Inl c)
    with in_tx_Inl[of F "update_body F a reqs recvErr" db db' c] tx same show ?thesis by simp
  next
    case (Inr v)
    then obtain d commits where d: "update_body F a reqs recvErr db = (d, Inr (commits, v))"
      "db' = (if commits then d else rollback_tx db d)"
      using in_tx_Inr[of F "update_body F a reqs recvErr" db db' v] tx by auto
    show ?thesis
    proof (cases commits)
      case True
      with update_body_Inr[OF d(1)] d(2) written Inr show ?thesis by auto
    next
      case False
      with d(2) same rollback_tx_contents show ?thesis by simp
    qed
  qed
qed

lemma Fs_Update_history:
  assumes "Fs_Update F ctx reqs recvErr db = (db', r)" and "w \<le> latest_of db q" and "is_int64 (latest_of db q + 1)"
  shows "snapshot (objects db') q w = snapshot (objects db) q w" and "map_of (contents db) \<subseteq>\<^sub>m map_of (contents db')"
proof -
  have "snapshot (objects db') q w = snapshot (objects db) q w \<and> map_of (contents db) \<subseteq>\<^sub>m map_of (contents db')"
    using assms(1)
  proof (cases rule: Fs_Update_cases)
    case same
    then show ?thesis by simp
  next
    case (written p pr v obs packs d1)
    note L = latest_of_UpdateLatestVersion[OF written(5)]
    have "w < v" if "q = p" using that assms(2,3) written(1,2) by (simp add: latest_of_def wrap64_id)
    then have "snapshot (objects d1) q w = snapshot (objects db) q w"
      using version_writer.history[OF write_update_writer written(4)] version_writer.others[OF write_update_writer written(4)]
      by (cases "q = p") auto
    then show ?thesis using L(2,3) version_writer.grows[OF write_update_writer written(4)] by simp
  qed
  then show "snapshot (objects db') q w = snapshot (objects db) q w" "map_of (contents db) \<subseteq>\<^sub>m map_of (contents db')"
    by blast+
qed

lemma Fs_Update_other_latest:
  assumes "Fs_Update F ctx reqs recvErr db = (db', r)"
  shows "latest_of db' q = latest_of db q \<or> (\<exists>v. r = Inr v \<and> v = wrap64 (latest_of db q + 1) \<and> latest_of db' q = v)"
  using assms
proof (cases rule: Fs_Update_cases)
  case same
  then show ?thesis by (simp add: latest_of_def find_project_def)
next
  case (written p pr v obs packs d1)
  note L = latest_of_UpdateLatestVersion[OF written(5)]
  have "find_project d1 q = find_project db q" for q
    using version_writer.same_project[OF write_update_writer written(4)] .
  then show ?thesis using L(1)[of q] written by (auto simp: latest_of_def)
qed

text \<open>Rolling back to the version before an update gives back the rows from before it.\<close>

lemma Rollback_undoes_Update:
  assumes "db_ok db" and "Fs_Update F ctx reqs recvErr db = (db1, Inr v)" and "latest_of db1 p = v"
    and "is_int64 (latest_of db p + 1)" and "latest_of db1 p \<noteq> latest_of db p"
    and "requireAdminAuth ctx' = None" and "fs_Connect F'" and "fs_Commit F'"
  shows "\<exists>db2. Fs_Rollback F' ctx' p (latest_of db p) db1 = (db2, Inr ()) \<and>
    objects db2 = objects db \<and> projects db2 = projects db"
  using assms(2)
proof (cases rule: Fs_Update_cases)
  case same
  then show ?thesis using assms(5) by (simp add: latest_of_def find_project_def)
next
  case (written p' pr v' obs packs d1)
  have same: "find_project d1 q = find_project db q" for q
    using version_writer.same_project[OF write_update_writer written(4)] .
  have p: "p = p'"
    using latest_of_UpdateLatestVersion(1)[OF written(5), of p] assms(5) same by (auto simp: latest_of_def split: if_splits)
  then have lat: "latest_version pr = latest_of db p" using written(1) by (simp add: latest_of_def)
  then have v: "v' = latest_of db p + 1" using written(2) assms(4) by (simp add: wrap64_id)
  obtain db2 where r: "ResetProject p (v' - 1) db1 = (db2, Inr ())" "objects db2 = objects db" "projects db2 = projects db"
    using reset_undoes_write[OF assms(1) write_update_writer, of p pr v' F obs packs d1 _ db1] written p lat v by auto
  then have "Fs_Rollback F' ctx' p (latest_of db p) db1 = (db2, Inr ())"
    using assms(6-8) v by (simp add: Fs_Rollback_def admin_only_def in_tx_def thenC_def coded_def done_tx_def)
  with r show ?thesis by blast
qed

section \<open>The effect of an update on the head\<close>

definition spec_object :: "lib \<Rightarrow> pb_object \<Rightarrow> head \<Rightarrow> head" where
  "spec_object L ob st =
     (if Deleted ob then spec_delete (Path ob) st
      else spec_update (Path ob) (HashContent L (nil_bytes (Content ob))) (Mode ob) (Size ob) st)"

lemma spec_object_written: "snd (spec_object L ob st) \<subseteq> insert (Path ob) (snd st)"
  by (auto simp: spec_object_def spec_delete_def spec_update_def)

lemma update_object_refines:
  assumes "writable p v db" and "Path ob \<notin> snd (head_of p v db)"
  shows "\<exists>db' enc' sh'. update_object L p v ob (enc, sh) db = (db', Inr (enc', sh')) \<and> writable p v db' \<and>
    head_of p v db' = spec_object L ob (head_of p v db) \<and> (sh \<longrightarrow> sh') \<and> (\<not> sh' \<longrightarrow> head_of p v db' = head_of p v db)"
proof (cases "Deleted ob")
  case True
  obtain db' where "DeleteObject p v (Path ob) db = (db', Inr ())" "writable p v db'"
    "head_of p v db' = spec_delete (Path ob) (head_of p v db)" using DeleteObject_refines[OF assms] by blast
  with True show ?thesis
    by (intro exI[of _ db'] exI[of _ enc] exI[of _ True]) (simp add: update_object_def andThen_def spec_object_def)
next
  case False
  obtain db' enc' ch where "UpdateObject L enc p v ob db = (db', Inr (enc', ch))" "writable p v db'"
    "head_of p v db' = spec_object L ob (head_of p v db)" "\<not> ch \<longrightarrow> head_of p v db' = head_of p v db"
    using UpdateObject_refines[OF assms, of L enc] False by (auto simp: spec_object_def)
  with False show ?thesis
    by (intro exI[of _ db'] exI[of _ enc'] exI[of _ "sh \<or> ch"]) (simp add: update_object_def andThen_def)
qed

lemma disjoint_step: "x \<notin> A \<Longrightarrow> insert x A \<inter> N = {} \<Longrightarrow> M \<subseteq> insert x N \<Longrightarrow> A \<inter> M = {}"
  by blast

lemma update_objects_fold:
  assumes "writable p v db" and "distinct (map Path obs)" and "Path ` set obs \<inter> snd (head_of p v db) = {}"
  shows "\<exists>db' enc' sh'. foldM (update_object L p v) obs (enc, sh) db = (db', Inr (enc', sh')) \<and> writable p v db' \<and>
    head_of p v db' = fold (spec_object L) obs (head_of p v db) \<and> (sh \<longrightarrow> sh') \<and> (\<not> sh' \<longrightarrow> head_of p v db' = head_of p v db)"
  using assms
proof (induction obs arbitrary: db enc sh)
  case (Cons ob obs)
  obtain d e s where d: "update_object L p v ob (enc, sh) db = (d, Inr (e, s))" "writable p v d"
    "head_of p v d = spec_object L ob (head_of p v db)" "sh \<longrightarrow> s" "\<not> s \<longrightarrow> head_of p v d = head_of p v db"
    using update_object_refines[OF Cons.prems(1), of ob L enc sh] Cons.prems(3) by auto
  have "Path ` set obs \<inter> snd (head_of p v d) = {}"
  proof -
    have "Path ob \<notin> Path ` set obs" "insert (Path ob) (Path ` set obs) \<inter> snd (head_of p v db) = {}"
      using Cons.prems(2,3) by simp_all
    then show ?thesis unfolding d(3) by (rule disjoint_step) (rule spec_object_written)
  qed
  then obtain db' e' s' where "foldM (update_object L p v) obs (e, s) d = (db', Inr (e', s'))" "writable p v db'"
    "head_of p v db' = fold (spec_object L) obs (head_of p v d)" "s \<longrightarrow> s'" "\<not> s' \<longrightarrow> head_of p v db' = head_of p v d"
    using Cons.IH[OF d(2), of e s] Cons.prems(2) by auto
  with d show ?case by (intro exI[of _ db'] exI[of _ e'] exI[of _ s']) (auto simp: andThen_def)
qed simp

text \<open>The content of every live pack at a path is in the table.\<close>

definition packs_known :: "int \<Rightarrow> int \<Rightarrow> DB \<Rightarrow> string \<Rightarrow> bool" where
  "packs_known p v db q \<longleftrightarrow>
     (\<forall>f \<in> fst (head_of p v db). fst f = q \<longrightarrow> snd (snd (snd (snd f))) \<and> map_of (contents db) (fst (snd f)) \<noteq> None)"

definition spec_packed :: "lib \<Rightarrow> (string \<Rightarrow> Hash \<times> bytes) \<Rightarrow> string \<times> pb_object list \<Rightarrow> head \<Rightarrow> head" where
  "spec_packed L existing entry st =
     (case (existing (fst entry), packed_result (updateObjects L (snd (existing (fst entry))) (snd entry))) of
        ((h, c), Inl e) \<Rightarrow> st
      | ((h, c), Inr (i, u)) \<Rightarrow>
          if h = HashContent L u then st
          else spec_pack (fst entry) (if i then Some (HashContent L u, int (length u)) else None) st)"

lemma spec_packed_other:
  "snd (spec_packed L ex e st) \<subseteq> insert (fst e) (snd st)"
  "q \<noteq> fst e \<Longrightarrow> {f \<in> fst (spec_packed L ex e st). fst f = q} = {f \<in> fst st. fst f = q}"
  by (auto simp: spec_packed_def spec_pack_def split: prod.splits sum.splits option.splits if_splits)

lemma existing_pack_cong:
  assumes "writable p v db" and "writable p v db'" and "packs_known p v db q"
    and "{f \<in> fst (head_of p v db'). fst f = q} = {f \<in> fst (head_of p v db). fst f = q}"
    and "map_of (contents db) \<subseteq>\<^sub>m map_of (contents db')"
  shows "existing_pack db' p q = existing_pack db p q" and "packs_known p v db' q"
proof -
  have kept: "map_of (contents db') h = Some b" if "map_of (contents db) h = Some b" for h b
    using assms(5) that by (auto simp: map_le_def dom_def)
  have mem: "f \<in> fst (head_of p v db') \<longleftrightarrow> f \<in> fst (head_of p v db)" if "fst f = q" for f
    using assms(4) that by blast
  show "packs_known p v db' q"
    unfolding packs_known_def
  proof (intro ballI impI)
    fix f assume f: "f \<in> fst (head_of p v db')" "fst f = q"
    then have "snd (snd (snd (snd f))) \<and> map_of (contents db) (fst (snd f)) \<noteq> None"
      using mem[OF f(2)] assms(3) unfolding packs_known_def by blast
    then show "snd (snd (snd (snd f))) \<and> map_of (contents db') (fst (snd f)) \<noteq> None" using kept by force
  qed
  show "existing_pack db' p q = existing_pack db p q"
  proof (cases "\<exists>f \<in> fst (head_of p v db). fst f = q")
    case True
    then obtain h m sz b where f: "(q, h, m, sz, b) \<in> fst (head_of p v db)" by (metis prod.collapse)
    then obtain c where c: "b" "map_of (contents db) h = Some c" using assms(3) by (fastforce simp: packs_known_def)
    have f': "(q, h, m, sz, b) \<in> fst (head_of p v db')" using f mem by simp
    show ?thesis
      using existing_pack_head[OF assms(1), of q h m sz c] existing_pack_head[OF assms(2), of q h m sz c] f f' c kept[OF c(2)]
      by simp
  next
    case False
    then show ?thesis using existing_pack_none[of p v db q] existing_pack_none[of p v db' q] mem by metis
  qed
qed

lemma update_packed_refines:
  assumes "writable p v db" and "fst e \<notin> snd (head_of p v db)" and "packs_known p v db (fst e)"
    and "packed_result (updateObjects L (snd (existing_pack db p (fst e))) (snd e)) = Inr r"
  shows "\<exists>db' sh'. update_packed L p v e sh db = (db', Inr sh') \<and> writable p v db' \<and>
    head_of p v db' = spec_packed L (existing_pack db p) e (head_of p v db) \<and>
    (sh \<longrightarrow> sh') \<and> (\<not> sh' \<longrightarrow> head_of p v db' = head_of p v db)"
proof -
  obtain h c where ex: "existing_pack db p (fst e) = (h, c)" by (cases "existing_pack db p (fst e)")
  obtain i u where r: "r = (i, u)" by (cases r)
  obtain db' ch where u: "UpdatePackedObjects L p v (fst e) (snd e) db = (db', Inr ch)" "writable p v db'"
    "head_of p v db' = (if h = HashContent L u then head_of p v db
      else spec_pack (fst e) (if i then Some (HashContent L u, int (length u)) else None) (head_of p v db))"
    "ch \<longleftrightarrow> h \<noteq> HashContent L u"
    using UpdatePackedObjects_refines[OF assms(1,2) _ ex, of L "snd e" i u] assms(3,4) r ex
    by (auto simp: packs_known_def)
  have "head_of p v db' = spec_packed L (existing_pack db p) e (head_of p v db)"
    using u(3) ex assms(4) r by (simp add: spec_packed_def)
  with u show ?thesis
    by (intro exI[of _ db'] exI[of _ "sh \<or> ch"]) (auto simp: update_packed_def andThen_def)
qed

lemma fold_cong_on:
  "(\<And>x s. x \<in> set xs \<Longrightarrow> f x s = g x s) \<Longrightarrow> fold f xs s = fold g xs s"
  by (induction xs arbitrary: s) auto

lemma update_packs_fold:
  assumes "writable p v db" and "distinct (map fst packs)" and "fst ` set packs \<inter> snd (head_of p v db) = {}"
    and "\<And>e. e \<in> set packs \<Longrightarrow> packs_known p v db (fst e)"
    and "\<And>e. e \<in> set packs \<Longrightarrow> \<exists>r. packed_result (updateObjects L (snd (existing_pack db p (fst e))) (snd e)) = Inr r"
  shows "\<exists>db' sh'. foldM (update_packed L p v) packs sh db = (db', Inr sh') \<and> writable p v db' \<and>
    head_of p v db' = fold (spec_packed L (existing_pack db p)) packs (head_of p v db) \<and>
    (sh \<longrightarrow> sh') \<and> (\<not> sh' \<longrightarrow> head_of p v db' = head_of p v db)"
  using assms
proof (induction packs arbitrary: db sh)
  case (Cons e packs)
  obtain r where "packed_result (updateObjects L (snd (existing_pack db p (fst e))) (snd e)) = Inr r"
    using Cons.prems(5)[of e] by auto
  moreover have "fst e \<notin> snd (head_of p v db)" "packs_known p v db (fst e)" using Cons.prems(3,4) by simp_all
  ultimately obtain d s where d: "update_packed L p v e sh db = (d, Inr s)" "writable p v d"
    "head_of p v d = spec_packed L (existing_pack db p) e (head_of p v db)" "sh \<longrightarrow> s" "\<not> s \<longrightarrow> head_of p v d = head_of p v db"
    using update_packed_refines[OF Cons.prems(1), of e L r sh] by blast
  have grow: "map_of (contents db) \<subseteq>\<^sub>m map_of (contents d)" using version_writer.grows[OF update_packed_writer d(1)] .
  have keep: "existing_pack d p (fst e') = existing_pack db p (fst e')" "packs_known p v d (fst e')" if "e' \<in> set packs" for e'
  proof -
    have "fst e' \<noteq> fst e" using that Cons.prems(2) by (auto simp: rev_image_eqI)
    then have "{f \<in> fst (head_of p v d). fst f = fst e'} = {f \<in> fst (head_of p v db). fst f = fst e'}"
      unfolding d(3) by (rule spec_packed_other(2))
    moreover have "packs_known p v db (fst e')" using Cons.prems(4) that by simp
    ultimately show "existing_pack d p (fst e') = existing_pack db p (fst e')" "packs_known p v d (fst e')"
      using existing_pack_cong[OF Cons.prems(1) d(2) _ _ grow] by blast+
  qed
  have "fst ` set packs \<inter> snd (head_of p v d) = {}"
  proof -
    have "fst e \<notin> fst ` set packs" "insert (fst e) (fst ` set packs) \<inter> snd (head_of p v db) = {}"
      using Cons.prems(2,3) by simp_all
    then show ?thesis unfolding d(3) by (rule disjoint_step) (rule spec_packed_other(1))
  qed
  moreover have "\<exists>r. packed_result (updateObjects L (snd (existing_pack d p (fst e'))) (snd e')) = Inr r" if "e' \<in> set packs" for e'
    using Cons.prems(5)[of e'] keep(1)[OF that] that by simp
  ultimately obtain db' s' where s': "foldM (update_packed L p v) packs s d = (db', Inr s')" "writable p v db'"
    "head_of p v db' = fold (spec_packed L (existing_pack d p)) packs (head_of p v d)" "s \<longrightarrow> s'"
    "\<not> s' \<longrightarrow> head_of p v db' = head_of p v d"
    using Cons.IH[OF d(2), of s] Cons.prems(2) keep(2) by auto
  have "fold (spec_packed L (existing_pack d p)) packs st = fold (spec_packed L (existing_pack db p)) packs st" for st
    by (rule fold_cong_on) (simp add: spec_packed_def keep(1))
  with d s' show ?case by (intro exI[of _ db'] exI[of _ s']) (auto simp: andThen_def)
qed simp

section \<open>Receiving an update\<close>

text \<open>What the receive loop buffers: the plain objects, and the packed ones by parent.\<close>

definition group_packs :: "lib \<Rightarrow> PackManager \<Rightarrow> pb_object list \<Rightarrow> (string \<times> pb_object list) list" where
  "group_packs L pm obs =
     fold (\<lambda>ob buf. case IsPathPacked L pm (Path ob) of None \<Rightarrow> buf | Some q \<Rightarrow> buffer_packed q ob buf) obs []"

definition plain_objects :: "lib \<Rightarrow> PackManager \<Rightarrow> pb_object list \<Rightarrow> pb_object list" where
  "plain_objects L pm obs = filter (\<lambda>ob. IsPathPacked L pm (Path ob) = None) obs"

lemma receive_all_ok:
  assumes "snd (NewPackManager L p db) = Inr pm"
  shows "ub_project b \<in> {- 1, p} \<Longrightarrow> ub_packManager b \<in> {None, Some pm} \<Longrightarrow>
    obs \<noteq> [] \<Longrightarrow>
    receive_all L db (map (Pair p) obs) None b = Inr \<lparr>ub_project = p, ub_packManager = Some pm,
      ub_objectBuffer = ub_objectBuffer b @ plain_objects L pm obs,
      ub_packedBuffer = fold (\<lambda>ob buf. case IsPathPacked L pm (Path ob) of None \<Rightarrow> buf | Some q \<Rightarrow> buffer_packed q ob buf)
        obs (ub_packedBuffer b)\<rparr>"
proof (induction obs arbitrary: b)
  case (Cons ob obs)
  have pm: "(case ub_packManager b of Some pm \<Rightarrow> Inr pm | None \<Rightarrow> snd (NewPackManager L p db)) = Inr pm"
    using Cons.prems(2) assms by auto
  have pr: "(if ub_project b = - 1 then p else ub_project b) = p" using Cons.prems(1) by auto
  let ?b = "case IsPathPacked L pm (Path ob) of
      Some q \<Rightarrow> b\<lparr>ub_project := p, ub_packManager := Some pm, ub_packedBuffer := buffer_packed q ob (ub_packedBuffer b)\<rparr>
    | None \<Rightarrow> b\<lparr>ub_project := p, ub_packManager := Some pm, ub_objectBuffer := ub_objectBuffer b @ [ob]\<rparr>"
  have one: "receive L db (p, ob) b = Inr ?b"
    unfolding receive_def Let_def fst_conv snd_conv pr pm by (simp split: option.splits)
  show ?case
  proof (cases "obs = []")
    case True
    then show ?thesis using one by (simp add: plain_objects_def split: option.splits)
  next
    case False
    have "receive_all L db (map (Pair p) obs) None ?b = Inr \<lparr>ub_project = p, ub_packManager = Some pm,
      ub_objectBuffer = ub_objectBuffer ?b @ plain_objects L pm obs,
      ub_packedBuffer = fold (\<lambda>ob buf. case IsPathPacked L pm (Path ob) of None \<Rightarrow> buf | Some q \<Rightarrow> buffer_packed q ob buf)
        obs (ub_packedBuffer ?b)\<rparr>"
      by (rule Cons.IH) (use False in \<open>auto split: option.splits\<close>)
    then show ?thesis using one by (simp add: plain_objects_def split: option.splits)
  qed
qed simp

lemma group_packs_keys:
  "distinct (map fst buf) \<Longrightarrow> distinct (map fst (fold (\<lambda>ob buf. case IsPathPacked L pm (Path ob) of None \<Rightarrow> buf
      | Some q \<Rightarrow> buffer_packed q ob buf) obs buf))"
proof (induction obs arbitrary: buf)
  case (Cons ob obs)
  then show ?case by (cases "IsPathPacked L pm (Path ob)") (simp_all add: buffer_packed_def AList.distinct_update)
qed simp

lemma group_packs_parent:
  "(q, us) \<in> set (group_packs L pm obs) \<Longrightarrow> \<exists>x. IsPathPacked L pm x = Some q"
proof -
  have "fst ` set (fold (\<lambda>ob buf. case IsPathPacked L pm (Path ob) of None \<Rightarrow> buf
      | Some q \<Rightarrow> buffer_packed q ob buf) obs buf) \<subseteq> fst ` set buf \<union> {q. \<exists>x. IsPathPacked L pm x = Some q}" for buf
  proof (induction obs arbitrary: buf)
    case (Cons ob obs)
    show ?case
    proof (cases "IsPathPacked L pm (Path ob)")
      case None
      with Cons[of buf] show ?thesis by simp
    next
      case (Some q)
      then have "fst ` set (buffer_packed q ob buf) \<subseteq> fst ` set buf \<union> {q. \<exists>x. IsPathPacked L pm x = Some q}"
        by (subst buffer_packed_def, subst dom_update) blast
      with Cons[of "buffer_packed q ob buf"] Some show ?thesis by auto
    qed
  qed simp
  from this[of "[]"] have sub: "fst ` set (group_packs L pm obs) \<subseteq> {q. \<exists>x. IsPathPacked L pm x = Some q}"
    by (simp add: group_packs_def)
  assume "(q, us) \<in> set (group_packs L pm obs)"
  then have "q \<in> fst ` set (group_packs L pm obs)" by (rule image_eqI[rotated]) simp
  with sub show "\<exists>x. IsPathPacked L pm x = Some q" by blast
qed

lemma group_packs_distinct: "distinct (map fst (group_packs L pm obs))"
  unfolding group_packs_def by (rule group_packs_keys) simp

lemma buffers_nonempty: "obs \<noteq> [] \<Longrightarrow> plain_objects L pm obs \<noteq> [] \<or> group_packs L pm obs \<noteq> []"
proof -
  let ?step = "\<lambda>ob buf. case IsPathPacked L pm (Path ob) of None \<Rightarrow> buf | Some q \<Rightarrow> buffer_packed q ob buf"
  have upd: "AList.update k v xs \<noteq> []" for k v and xs :: "(string \<times> pb_object list) list" by (cases xs) auto
  have keep: "buf \<noteq> [] \<Longrightarrow> fold ?step xs buf \<noteq> []" for xs buf
    by (induction xs arbitrary: buf) (auto simp: buffer_packed_def upd split: option.splits)
  assume "obs \<noteq> []"
  then obtain ob rest where obs: "obs = ob # rest" by (cases obs) auto
  show ?thesis
  proof (cases "IsPathPacked L pm (Path ob)")
    case (Some q)
    then show ?thesis using keep[of "buffer_packed q ob []" rest] obs by (simp add: group_packs_def buffer_packed_def)
  qed (simp add: obs plain_objects_def)
qed

text \<open>A packed parent is itself a packed path, so no plain object has it as its path.\<close>

lemma plain_not_parent:
  assumes "ob \<in> set (plain_objects L pm obs)" and "IsPathPacked L pm x = Some q"
  shows "Path ob \<noteq> q"
  using assms IsPathPacked_parent(2)[OF assms(2), of "[]"] by (auto simp: plain_objects_def)

section \<open>What an update does\<close>

definition patterns_of :: "project_row \<Rightarrow> PackManager" where
  "patterns_of pr = \<lparr>matchers = (case pack_patterns pr of None \<Rightarrow> [] | Some ps \<Rightarrow> ps)\<rparr>"

lemma NewPackManager_eq:
  "find_project db p = Some pr \<Longrightarrow> list_all (re_valid L) (matchers (patterns_of pr)) \<Longrightarrow>
   NewPackManager L p db = (db, Inr (patterns_of pr))"
  by (simp add: NewPackManager_def patterns_of_def Let_def)

text \<open>The specification of a whole update: the plain objects, then the packs.\<close>

definition spec_Update :: "Fs \<Rightarrow> DB \<Rightarrow> project_row \<Rightarrow> pb_object list \<Rightarrow> head \<Rightarrow> head" where
  "spec_Update F db pr obs st =
     fold (spec_packed (fs_lib F) (existing_pack db (p_id pr))) (fs_order F (group_packs (fs_lib F) (patterns_of pr) obs))
       (fold (spec_object (fs_lib F)) (plain_objects (fs_lib F) (patterns_of pr) obs) st)"

text \<open>
  A well-formed update: each plain path once, every pack it touches readable, and the pack's
  archive accepts the new objects.
\<close>

definition update_ok :: "Fs \<Rightarrow> DB \<Rightarrow> project_row \<Rightarrow> pb_object list \<Rightarrow> bool" where
  "update_ok F db pr obs \<longleftrightarrow>
     (let L = fs_lib F; pm = patterns_of pr; p = p_id pr; packs = group_packs L pm obs in
      list_all (re_valid L) (matchers pm) \<and> obs \<noteq> [] \<and> distinct (map Path (plain_objects L pm obs)) \<and>
      mset (fs_order F packs) = mset packs \<and>
      (\<forall>e \<in> set packs. packs_known p (latest_version pr + 1) db (fst e) \<and>
         (\<exists>r. packed_result (updateObjects L (snd (existing_pack db p (fst e))) (snd e)) = Inr r)))"

lemma fold_spec_object_other:
  assumes "q \<notin> Path ` set obs" and "\<And>ob. ob \<in> set obs \<Longrightarrow> \<not> covers (Path ob) q"
  shows "{f \<in> fst (fold (spec_object L) obs st). fst f = q} = {f \<in> fst st. fst f = q}"
  using assms
proof (induction obs arbitrary: st)
  case (Cons ob obs)
  have "{f \<in> fst (spec_object L ob st). fst f = q} = {f \<in> fst st. fst f = q}"
    using Cons.prems(1) Cons.prems(2)[of ob] by (auto simp: spec_object_def spec_delete_def spec_update_def)
  with Cons show ?case by simp
qed simp

lemma fold_spec_object_written: "snd (fold (spec_object L) obs st) \<subseteq> Path ` set obs \<union> snd st"
proof (induction obs arbitrary: st)
  case (Cons ob obs)
  show ?case using Cons[of "spec_object L ob st"] spec_object_written[of L ob st] by fastforce
qed simp

lemma plain_not_covers:
  assumes "ob \<in> set (plain_objects L pm obs)" and "IsPathPacked L pm x = Some q"
  shows "\<not> covers (Path ob) q"
proof
  assume "covers (Path ob) q"
  then obtain rest where "Path ob = q @ rest" by (auto simp: covers_def HasPrefix_iff_prefix prefix_def)
  then have "IsPathPacked L pm (Path ob) = Some q" using IsPathPacked_parent(2)[OF assms(2), of rest] by simp
  with assms(1) show False by (simp add: plain_objects_def)
qed

lemma write_update_refines:
  assumes "writable p v db" and "snd (head_of p v db) = {}" and "p = p_id pr" and "v = latest_version pr + 1"
    and "update_ok F db pr obs"
  shows "\<exists>db' sh. write_update F p v (plain_objects (fs_lib F) (patterns_of pr) obs)
      (group_packs (fs_lib F) (patterns_of pr) obs) db = (db', Inr sh) \<and> writable p v db' \<and>
    head_of p v db' = spec_Update F db pr obs (head_of p v db) \<and> (\<not> sh \<longrightarrow> head_of p v db' = head_of p v db)"
proof -
  let ?L = "fs_lib F" and ?pm = "patterns_of pr"
  let ?objs = "plain_objects ?L ?pm obs" and ?packs = "group_packs ?L ?pm obs"
  have ok: "distinct (map Path ?objs)" "mset (fs_order F ?packs) = mset ?packs"
    "\<And>e. e \<in> set ?packs \<Longrightarrow> packs_known p v db (fst e)"
    "\<And>e. e \<in> set ?packs \<Longrightarrow> \<exists>r. packed_result (updateObjects ?L (snd (existing_pack db p (fst e))) (snd e)) = Inr r"
    using assms(3-5) unfolding update_ok_def Let_def by blast+
  obtain d enc sh where d: "foldM (update_object ?L p v) ?objs (NewContentEncoder, False) db = (d, Inr (enc, sh))" "writable p v d"
    "head_of p v d = fold (spec_object ?L) ?objs (head_of p v db)" "\<not> sh \<longrightarrow> head_of p v d = head_of p v db"
    using update_objects_fold[OF assms(1) ok(1), of ?L NewContentEncoder False] assms(2) by auto
  have grow: "map_of (contents db) \<subseteq>\<^sub>m map_of (contents d)"
    using version_writer.grows[OF version_writer_foldM[OF update_object_writer] d(1)] .
  have parent: "\<exists>x. IsPathPacked ?L ?pm x = Some (fst e)" if "e \<in> set ?packs" for e
    using group_packs_parent[of "fst e" "snd e"] that by simp
  have keep: "existing_pack d p (fst e) = existing_pack db p (fst e)" "packs_known p v d (fst e)" if e: "e \<in> set ?packs" for e
  proof -
    obtain x where x: "IsPathPacked ?L ?pm x = Some (fst e)" using parent[OF e] by blast
    have "{f \<in> fst (head_of p v d). fst f = fst e} = {f \<in> fst (head_of p v db). fst f = fst e}"
      unfolding d(3)
    proof (rule fold_spec_object_other)
      show "fst e \<notin> Path ` set ?objs"
      proof
        assume "fst e \<in> Path ` set ?objs"
        then obtain ob where "ob \<in> set ?objs" "fst e = Path ob" by blast
        with plain_not_parent[OF this(1) x] show False by simp
      qed
      show "\<not> covers (Path ob) (fst e)" if "ob \<in> set ?objs" for ob by (rule plain_not_covers[OF that x])
    qed
    then show "existing_pack d p (fst e) = existing_pack db p (fst e)" "packs_known p v d (fst e)"
      using existing_pack_cong[OF assms(1) d(2) ok(3)[OF e] _ grow] by blast+
  qed
  have order: "set (fs_order F ?packs) = set ?packs" "distinct (map fst (fs_order F ?packs))"
    using ok(2) group_packs_distinct[of ?L ?pm obs] by (metis set_mset_mset, metis mset_map mset_eq_imp_distinct_iff)
  have "fst ` set (fs_order F ?packs) \<inter> snd (head_of p v d) = {}"
  proof -
    have "snd (head_of p v d) \<subseteq> Path ` set ?objs" using fold_spec_object_written[of ?L ?objs "head_of p v db"] d(3) assms(2) by simp
    moreover have "q \<notin> Path ` set ?objs" if "q \<in> fst ` set ?packs" for q
      using that parent plain_not_parent by blast
    ultimately show ?thesis unfolding order(1) by blast
  qed
  then obtain db' sh' where w: "foldM (update_packed ?L p v) (fs_order F ?packs) sh d = (db', Inr sh')" "writable p v db'"
    "head_of p v db' = fold (spec_packed ?L (existing_pack d p)) (fs_order F ?packs) (head_of p v d)"
    "sh \<longrightarrow> sh'" "\<not> sh' \<longrightarrow> head_of p v db' = head_of p v d"
    using update_packs_fold[OF d(2) order(2), of ?L sh] keep ok(4) order(1) by auto
  have "fold (spec_packed ?L (existing_pack d p)) (fs_order F ?packs) st =
      fold (spec_packed ?L (existing_pack db p)) (fs_order F ?packs) st" for st
    by (rule fold_cong_on) (simp add: spec_packed_def keep(1) order(1))
  then have "head_of p v db' = spec_Update F db pr obs (head_of p v db)"
    unfolding spec_Update_def using w(3) d(3) assms(3) by simp
  with d w show ?thesis
    by (intro exI[of _ db'] exI[of _ sh']) (auto simp: write_update_def andThen_def)
qed

theorem Fs_Update_effect:
  assumes "db_ok db" and "find_project db p = Some pr" and "0 \<le> latest_version pr" and "is_int64 (latest_version pr + 1)"
    and "requireProjectAuth ctx = Inr a" and "a = - 1 \<or> a = p" and "fs_Connect F" and "fs_Commit F"
    and "update_ok F db pr obs"
  shows "\<exists>db' v. Fs_Update F ctx (map (Pair p) obs) None db = (db', Inr v) \<and> db_ok db' \<and> latest_of db' p = v \<and>
    v \<in> {latest_version pr, latest_version pr + 1} \<and>
    snapshot (objects db') p v = fst (spec_Update F db pr obs (snapshot (objects db) p (latest_version pr), {}))"
proof -
  let ?L = "fs_lib F" and ?pm = "patterns_of pr" and ?v = "latest_version pr + 1"
  let ?objs = "plain_objects ?L ?pm obs" and ?packs = "group_packs ?L ?pm obs"
  have id: "p_id pr = p" using find_project_Some[OF assms(2)] by simp
  have lat: "latest_of db p = latest_version pr" using assms(2) by (simp add: latest_of_def)
  have w: "writable p ?v db" "snd (head_of p ?v db) = {}" using writableI[OF assms(1), of p ?v] assms(3) lat by simp_all
  have live: "fst (head_of p ?v db) = snapshot (objects db) p (latest_version pr)"
  proof -
    have "live_at ?v r \<longleftrightarrow> live_at (latest_version pr) r" if "r \<in> set (objects db)" "o_project r = p" for r
    proof -
      have "row_within (latest_version pr) r" using db_okD(3)[OF assms(1) that(1)] that(2) lat by simp
      then show ?thesis using live_at_latest[of ?v r] live_at_latest[of "latest_version pr" r]
          row_within_mono[of "latest_version pr" r ?v] by simp
    qed
    then have "{r \<in> set (objects db). o_project r = p \<and> live_at ?v r} =
        {r \<in> set (objects db). o_project r = p \<and> live_at (latest_version pr) r}" by blast
    then show ?thesis unfolding head_of_snapshot[OF w(1)] snapshot_def by (simp only:)
  qed
  have head: "head_of p ?v db = (snapshot (objects db) p (latest_version pr), {})"
    using live w(2) by (metis prod.collapse)
  obtain d sh where d: "write_update F p ?v ?objs ?packs db = (d, Inr sh)" "writable p ?v d"
    "head_of p ?v d = spec_Update F db pr obs (head_of p ?v db)" "\<not> sh \<longrightarrow> head_of p ?v d = head_of p ?v db"
    using write_update_refines[OF w id[symmetric] refl assms(9)] by blast
  have "receive_all ?L db (map (Pair p) obs) None
      \<lparr>ub_project = a, ub_packManager = None, ub_objectBuffer = [], ub_packedBuffer = []\<rparr> =
    Inr \<lparr>ub_project = p, ub_packManager = Some ?pm, ub_objectBuffer = ?objs, ub_packedBuffer = ?packs\<rparr>"
    using receive_all_ok[of ?L p db ?pm] NewPackManager_eq[OF assms(2)] assms(6,9)
    by (simp add: update_ok_def Let_def group_packs_def)
  moreover have "(length ?objs = 0 \<and> length ?packs = 0) = False"
    using buffers_nonempty[of obs ?L ?pm] assms(9) by (simp add: update_ok_def Let_def)
  ultimately have body: "update_body F a (map (Pair p) obs) None db =
      (if \<not> sh then (d, Inr (False, latest_version pr))
       else (fst (UpdateLatestVersion p ?v d), Inr (True, ?v)))"
    using assms(2,4) d(1)
    by (auto simp: update_body_def thenC_def coded_def LockLatestVersion_def wrap64_id done_tx_def UpdateLatestVersion_def
        update_projects_def Let_def)
  show ?thesis
  proof (cases sh)
    case False
    then have "Fs_Update F ctx (map (Pair p) obs) None db = (rollback_tx db d, Inr (latest_version pr))"
      using body assms(5,7) by (simp add: Fs_Update_def in_tx_def)
    moreover have "snapshot (objects db) p (latest_version pr) = fst (spec_Update F db pr obs (head_of p ?v db))"
      using d(3,4) False head by (metis fst_conv)
    ultimately show ?thesis using assms(1) lat head by simp
  next
    case True
    let ?db' = "fst (UpdateLatestVersion p ?v d)"
    have u: "UpdateLatestVersion p ?v d = (?db', Inr ())" by (simp add: UpdateLatestVersion_def update_projects_def)
    note L = latest_of_UpdateLatestVersion[OF u]
    have frame: "projects d = projects db" using version_writer.frame[OF write_update_writer d(1)] by blast
    have exists: "find_project d p \<noteq> None" using version_writer.same_project[OF write_update_writer d(1)] assms(2) by simp
    have lat': "latest_of ?db' q = (if q = p then ?v else latest_of d q)" for q using L(1)[of q] exists by simp
    have "db_ok ?db'"
      using d(2) L(2,4) frame db_okD(1)[OF assms(1)] unfolding db_ok_def writable_def list_all_iff by (simp add: lat')
    moreover have "Fs_Update F ctx (map (Pair p) obs) None db = (?db', Inr ?v)"
      using body True assms(5,7,8) by (simp add: Fs_Update_def in_tx_def)
    moreover have "snapshot (objects ?db') p ?v = fst (spec_Update F db pr obs (head_of p ?v db))"
      using head_of_snapshot[OF d(2)] d(3) L(2) by simp
    ultimately show ?thesis using lat' head by simp
  qed
qed

end
