(* ===== verification/SampleLib.thy ===== *)
theory SampleLib
  imports TarPack
begin

text \<open>
  A concrete instance of the external code, on which the hypotheses \<open>lib_ok\<close> hold. The
  witnesses of the development evaluate the model on it: contents are stored as they are, an
  archive is a sequence of length-prefixed fields, a pattern matches the paths that start with
  it (after an optional \<open>^\<close>), and the hash of a short content is the content padded to 32 bytes.
\<close>

definition put_num :: "int \<Rightarrow> bytes" where
  "put_num n = FormatInt n @ [CHR '';'']"

definition get_num :: "bytes \<Rightarrow> (int \<times> bytes) option" where
  "get_num b =
     (let d = takeWhile (\<lambda>c. c \<noteq> CHR '';'') b; r = dropWhile (\<lambda>c. c \<noteq> CHR '';'') b in
      case ParseInt d of None \<Rightarrow> None | Some n \<Rightarrow> (if r = [] then None else Some (n, tl r)))"

definition put_str :: "string \<Rightarrow> bytes" where
  "put_str s = put_num (int (length s)) @ s"

definition get_str :: "bytes \<Rightarrow> (string \<times> bytes) option" where
  "get_str b = (case get_num b of None \<Rightarrow> None | Some (n, r) \<Rightarrow> Some (take (nat n) r, drop (nat n) r))"

definition put_entry :: "tar_entry \<Rightarrow> bytes" where
  "put_entry e = (let h = fst e in
     put_str (h_Name h) @ put_num (h_Mode h) @ [h_Typeflag h] @ put_num (h_Size h) @
     put_str (h_Linkname h) @ put_str (snd e))"

definition get_entry :: "bytes \<Rightarrow> (tar_entry \<times> bytes) option" where
  "get_entry b =
     Option.bind (get_str b) (\<lambda>(name, b).
     Option.bind (get_num b) (\<lambda>(mode, b).
     (case b of [] \<Rightarrow> None | flag # b \<Rightarrow>
     Option.bind (get_num b) (\<lambda>(sz, b).
     Option.bind (get_str b) (\<lambda>(link, b).
     Option.bind (get_str b) (\<lambda>(body, b).
       Some ((\<lparr>h_Name = name, h_Mode = mode, h_Typeflag = flag, h_Size = sz, h_Linkname = link\<rparr>, body), b)))))))"

fun get_entries :: "nat \<Rightarrow> bytes \<Rightarrow> tar_entry list \<times> bool" where
  "get_entries 0 b = ([], b = [])"
| "get_entries (Suc n) b =
     (if b = [] then ([], True)
      else case get_entry b of
          None \<Rightarrow> ([], False)
        | Some (e, r) \<Rightarrow> (case get_entries n r of (es, ok) \<Rightarrow> (e # es, ok)))"

definition short :: "string \<Rightarrow> bool" where
  "short s \<longleftrightarrow> is_int64 (int (length s))"

definition sample_lib :: lib where
  "sample_lib =
     \<lparr>sha256 = (\<lambda>b. take 32 (b @ replicate 32 (CHR 0x00))),
      s2_encode = (\<lambda>c. c), s2_decode = Some,
      tar_accepts = (\<lambda>h. is_int64 (h_Mode h) \<and> is_int64 (h_Size h) \<and> short (h_Name h) \<and> short (h_Linkname h)),
      tar_encode = (\<lambda>es. concat (map put_entry es)),
      tar_decode = (\<lambda>b. get_entries (length b) b),
      re_valid = (\<lambda>_. True),
      re_match = (\<lambda>p s. HasPrefix s (TrimPrefix p ''^'')),
      collate = (\<lambda>s. s)\<rparr>"

section \<open>The sample codec satisfies the hypotheses\<close>

lemma FormatInt_no_semicolon: "CHR '';'' \<notin> set (FormatInt n)"
proof
  assume "CHR '';'' \<in> set (FormatInt n)"
  then have "is_digit CHR '';'' \<or> CHR '';'' = CHR ''-''" by (rule FormatInt_chars)
  then show False by (simp add: is_digit_def char_digit_def)
qed

lemma get_put_num: "is_int64 n \<Longrightarrow> get_num (put_num n @ r) = Some (n, r)"
proof -
  assume n: "is_int64 n"
  have d: "\<And>c. c \<in> set (FormatInt n) \<Longrightarrow> c \<noteq> CHR '';''"
    using FormatInt_no_semicolon[of n] by metis
  have "takeWhile (\<lambda>c. c \<noteq> CHR '';'') (FormatInt n @ CHR '';'' # r) = FormatInt n"
    and "dropWhile (\<lambda>c. c \<noteq> CHR '';'') (FormatInt n @ CHR '';'' # r) = CHR '';'' # r"
    using d by (simp_all add: takeWhile_append2 dropWhile_append2)
  then show ?thesis using n by (simp add: get_num_def put_num_def ParseInt_FormatInt Let_def)
qed

lemma get_put_str: "short s \<Longrightarrow> get_str (put_str s @ r) = Some (s, r)"
  by (simp add: get_str_def put_str_def short_def get_put_num)

lemma get_put_entry:
  assumes "entry_ok sample_lib e"
  shows "get_entry (put_entry e @ r) = Some (e, r)"
proof -
  obtain h b where e: "e = (h, b)" by (cases e)
  have "is_int64 (h_Mode h)" "is_int64 (h_Size h)" "short (h_Name h)" "short (h_Linkname h)" "short b"
    using assms by (auto simp: entry_ok_def e sample_lib_def short_def)
  then show ?thesis by (simp add: e get_entry_def put_entry_def get_put_str get_put_num Let_def)
qed

lemma put_entry_length: "length (put_entry e) > 0"
  by (simp add: put_entry_def put_str_def put_num_def Let_def)

lemma get_put_entries:
  "list_all (entry_ok sample_lib) es \<Longrightarrow> length (concat (map put_entry es)) \<le> n \<Longrightarrow>
   get_entries n (concat (map put_entry es)) = (es, True)"
proof (induction n arbitrary: es)
  case 0
  then show ?case using put_entry_length by (cases es) (auto simp: Suc_le_eq)
next
  case (Suc n)
  show ?case
  proof (cases es)
    case (Cons e es')
    have "0 < length (put_entry e)" by (rule put_entry_length)
    with Suc.prems Cons have "length (concat (map put_entry es')) \<le> n" by (simp del: length_greater_0_conv)
    with Suc Cons have "get_entries n (concat (map put_entry es')) = (es', True)" by simp
    with Cons Suc.prems put_entry_length[of e] show ?thesis by (simp add: get_put_entry)
  qed simp
qed

lemma sample_lib_sel [simp]:
  "sha256 sample_lib b = take 32 (b @ replicate 32 (CHR 0x00))"
  "s2_encode sample_lib c = c" "s2_decode sample_lib c = Some c"
  "tar_encode sample_lib es = concat (map put_entry es)"
  "tar_decode sample_lib b = get_entries (length b) b"
  "collate sample_lib s = s" "re_valid sample_lib p" "re_match sample_lib p s = HasPrefix s (TrimPrefix p ''^'')"
  by (simp_all add: sample_lib_def)

lemma sample_lib_ok [simp]: "lib_ok sample_lib"
proof -
  have "length (take 32 (b @ replicate 32 (CHR 0x00))) = 32" for b :: bytes by (simp add: min_def)
  then show ?thesis using get_put_entries by (simp add: lib_ok_def del: take_append)
qed

end
