(* ===== verification/Samples.thy ===== *)
theory Samples
  imports Service SampleLib
begin

text \<open>
  Concrete data on which the properties are applied: a service over the sample codec, a small
  project with a history, and requests. The facts evaluate the model on them.
\<close>

definition sample_Fs :: Fs where
  "sample_Fs =
     \<lparr>fs_lib = sample_lib, fs_Env = Dev, fs_Connect = True, fs_Commit = True, fs_Send = (\<lambda>_. True),
      fs_cache = (\<lambda>_. None), fs_admits = (\<lambda>_ _. True), fs_order = (\<lambda>xs. xs)\<rparr>"

definition sample_hash :: "bytes \<Rightarrow> Hash" where
  "sample_hash b = HashContent sample_lib b"

definition sample_row :: "int \<Rightarrow> int option \<Rightarrow> string \<Rightarrow> bytes \<Rightarrow> object_row" where
  "sample_row start stop path b =
     \<lparr>o_project = 1, o_start = start, o_stop = stop, o_path = path, o_hash = sample_hash b, o_mode = 420,
      o_size = int (length b), o_packed = False\<rparr>"

text \<open>Version 1 adds \<open>a\<close> and \<open>b\<close>, version 2 changes \<open>a\<close>, version 3 removes \<open>b\<close> and adds \<open>c\<close>.\<close>

definition sample_db :: DB where
  "sample_db =
     \<lparr>projects = [\<lparr>p_id = 1, latest_version = 3, pack_patterns = None\<rparr>],
      objects = [sample_row 1 (Some 2) ''a'' ''x'', sample_row 1 (Some 3) ''b'' ''y'',
                 sample_row 2 None ''a'' ''z'', sample_row 3 None ''c'' ''w''],
      contents = [(sample_hash ''x'', ''x''), (sample_hash ''y'', ''y''), (sample_hash ''z'', ''z''), (sample_hash ''w'', ''w'')],
      cache_versions = [], cache_seq = 0\<rparr>"

definition sample_object :: pb_object where
  "sample_object = \<lparr>Path = ''a'', Mode = 420, Size = 1, Deleted = False, Content = Some ''v''\<rparr>"

definition sample_pr :: project_row where
  "sample_pr = \<lparr>p_id = 1, latest_version = 3, pack_patterns = None\<rparr>"

lemma sample_Fs_sel [simp]:
  "fs_lib sample_Fs = sample_lib" "fs_Env sample_Fs = Dev" "fs_Connect sample_Fs" "fs_Commit sample_Fs"
  "fs_cache sample_Fs = (\<lambda>_. None)" "fs_order sample_Fs xs = xs" "fs_Send sample_Fs n"
  by (simp_all add: sample_Fs_def)

lemma sample_hash_bytes:
  "sample_hash [c] = \<lparr>H1 = c # replicate 15 (CHR 0x00), H2 = replicate 16 (CHR 0x00)\<rparr>"
  by (simp add: sample_hash_def HashContent_def numeral_eq_Suc)

lemma sample_hash_inj [simp]: "sample_hash [c] = sample_hash [d] \<longleftrightarrow> c = d"
  by (simp add: sample_hash_bytes)

lemma sample_db_sel [simp]:
  "projects sample_db = [sample_pr]" "find_project sample_db 1 = Some sample_pr" "latest_of sample_db 1 = 3"
  "latest_version sample_pr = 3" "p_id sample_pr = 1" "pack_patterns sample_pr = None"
  by (simp_all add: sample_db_def sample_pr_def find_project_def latest_of_def)

lemma sample_db_ok [simp]: "db_ok sample_db"
  by (simp add: db_ok_def latest_of_def find_project_def sample_db_def sample_row_def compat_def row_within_def)

lemma is_int64_small [simp]: "is_int64 4" "is_int64 (3 + 1)"
  by (simp_all add: is_int64_def int64_min_def int64_max_def)

lemma admin_access [simp]: "requireProjectAuth (Some adminAuth) = Inr (- 1)" "requireAdminAuth (Some adminAuth) = None"
  by (simp_all add: requireProjectAuth_def requireAdminAuth_def adminAuth_def)

lemma sample_unpacked [simp]: "IsPathPacked sample_lib (patterns_of sample_pr) q = None"
proof -
  have "packed_at (\<lambda>s. False) cur ss = None" for cur ss by (induction ss arbitrary: cur) simp_all
  then show ?thesis by (simp add: IsPathPacked_def patterns_of_def)
qed

lemma sample_matchers [simp]: "matchers (patterns_of sample_pr) = []"
  by (simp add: patterns_of_def)

lemma sample_update_ok [simp]: "update_ok sample_Fs sample_db sample_pr [sample_object]"
  by (simp add: update_ok_def group_packs_def plain_objects_def Let_def)

definition sample_updated :: DB where
  "sample_updated = fst (Fs_Update sample_Fs (Some adminAuth) [(1, sample_object)] None sample_db)"

lemma sample_run [simp]: "Fs_Update sample_Fs (Some adminAuth) [(1, sample_object)] None sample_db = (sample_updated, Inr 4)"
proof -
  have "snd (Fs_Update sample_Fs (Some adminAuth) [(1, sample_object)] None sample_db) = Inr 4" by code_simp
  then show ?thesis unfolding sample_updated_def by (metis prod.collapse)
qed

lemma sample_updated_latest [simp]: "latest_of sample_updated 1 = 4"
  by code_simp

definition sample_file :: "string \<Rightarrow> bytes \<Rightarrow> pb_object" where
  "sample_file path b = \<lparr>Path = path, Mode = 420, Size = int (length b), Deleted = False, Content = Some b\<rparr>"

definition sample_gone :: "string \<Rightarrow> pb_object" where
  "sample_gone path = \<lparr>Path = path, Mode = 420, Size = 0, Deleted = True, Content = None\<rparr>"

text \<open>A pack of two files, and a project that packs everything below \<open>n\<close>.\<close>

definition sample_pack :: bytes where
  "sample_pack = tar_encode sample_lib [entry_of (sample_file ''n/a'' ''x''), entry_of (sample_file ''n/b'' ''y'')]"

definition packed_db :: DB where
  "packed_db =
     \<lparr>projects = [\<lparr>p_id = 1, latest_version = 2, pack_patterns = Some [''n/'']\<rparr>],
      objects = [\<lparr>o_project = 1, o_start = 1, o_stop = Some 2, o_path = ''n/'', o_hash = sample_hash sample_pack, o_mode = 0,
                  o_size = int (length sample_pack), o_packed = True\<rparr>, sample_row 2 None ''c'' ''w''],
      contents = [(sample_hash sample_pack, sample_pack), (sample_hash ''w'', ''w'')],
      cache_versions = [], cache_seq = 0\<rparr>"

definition everything :: ObjectQuery where
  "everything = \<lparr>q_Path = [], q_IsPrefix = True, q_Ignores = []\<rparr>"

lemma packed_db_ok [simp]: "db_ok packed_db"
  by code_simp

lemma sample_Send [simp]: "fs_Send sample_Fs = (\<lambda>_. True)" "fs_admits sample_Fs = (\<lambda>_ _. True)"
  by (simp_all add: sample_Fs_def)

definition twice_db :: DB where
  "twice_db = sample_db\<lparr>projects := [\<lparr>p_id = 1, latest_version = 4, pack_patterns = None\<rparr>],
     objects := objects sample_db @ [sample_row 4 None ''d'' ''p'', sample_row 4 None ''d'' ''q''],
     contents := contents sample_db @ [(sample_hash ''p'', ''p''), (sample_hash ''q'', ''q'')]\<rparr>"

definition sample_get :: GetRequest where
  "sample_get = \<lparr>g_Project = 1, g_FromVersion = Some 1, g_ToVersion = Some 3, g_Queries = [everything], g_AvailableCacheVersions = []\<rparr>"

definition sample_rows :: "DbObject list" where
  "sample_rows = build sample_lib (withCacheVersions (newQueryBuilder 1 \<lparr>From = 1, To = 3\<rparr> everything) []) sample_db"

definition packed_rows :: "DbObject list" where
  "packed_rows = build sample_lib (newQueryBuilder 1 \<lparr>From = 0, To = 1\<rparr> everything) packed_db"

definition sample_start :: DB where
  "sample_start = fst (Fs_NewProject sample_Fs (Some adminAuth) \<lparr>np_Id = 1, np_Template = None, np_PackPatterns = []\<rparr> empty_DB)"

definition sample_updates :: "pb_object list" where
  "sample_updates = [sample_gone ''n/b'', sample_file ''n/a'' ''z'', sample_file ''n/c'' ''w'']"

definition sample_repack :: bytes where
  "sample_repack = tar_encode sample_lib [entry_of (sample_file ''n/a'' ''z''), entry_of (sample_file ''n/c'' ''w'')]"

lemma sample_repacked:
  "pack_ok sample_lib sample_pack" "distinct (map Path sample_updates)" "list_all (accepted sample_lib) sample_updates"
  "updateObjects sample_lib sample_pack sample_updates = Inr sample_repack"
  by code_simp+

end
