(* ===== verification/Reads.thy ===== *)
theory Reads
  imports Service
begin

text \<open>
  Lemmas about the reading handlers: what the streams behind \<^verbatim>\<open>Get\<close>, \<^verbatim>\<open>GetUnary\<close> and
  \<^verbatim>\<open>GetCompress\<close> deliver, and that they always end.
\<close>

section \<open>Streams\<close>

lemma GetObjects_start:
  assumes "GetObjects L adm cache pm p vr q db = Inr (ds, path, q', s)" and "servable L cache (contents db) ds"
  shows "object_inv L (contents db) ds s"
    and "object_todo L (contents db) ds path q' s =
      (filter (wanted path q') (fst (object_outs L (object_content L cache (contents db)) ds)),
       snd (object_outs L (object_content L cache (contents db)) ds))"
proof -
  let ?t = "contents db"
  obtain cache' where l: "loadChunk L adm ?t cache ds 0 chunkSize = (cache', Inr (map (object_content L cache ?t) (take chunkSize (drop 0 ds))))"
    and k: "\<And>h. hash_ok h \<Longrightarrow> content_at cache' ?t h = content_at cache ?t h"
    using loadChunk_ok[OF assms(2)] by blast
  have s: "s = \<lparr>os_pos = \<lparr>cs_idx = 0, cs_chunkIdx = 0, cs_chunk = map (object_content L cache ?t) (take chunkSize ds), cs_cache = cache'\<rparr>,
      os_packBuffer = []\<rparr>"
    using assms(1) l by (auto simp: GetObjects_def Let_def split: prod.splits sum.splits)
  note cong = object_content_cong[OF assms(2) k]
  have "map (object_content L cache ?t) (take chunkSize ds) = map (object_content L cache' ?t) (take chunkSize ds)"
    by (rule map_cong[OF refl]) (metis cong(1) in_set_takeD)
  then show "object_inv L ?t ds s" using cong(2) by (simp add: s pos_ok_def min_def)
  show "object_todo L ?t ds path q' s = (filter (wanted path q') (fst (object_outs L (object_content L cache ?t) ds)),
       snd (object_outs L (object_content L cache ?t) ds))"
    using object_outs_cong[of ds "object_content L cache' ?t" "object_content L cache ?t" L] cong(1)
    by (simp add: s object_todo_def Let_def)
qed

lemma GetTars_start:
  assumes "GetTars L adm cache p cvs vr q db = Inr (ds, s)" and "servable L cache (contents db) ds"
  shows "tars_inv L (contents db) ds s"
    and "tars_todo L (contents db) ds s = tar_outs L (object_content L cache (contents db)) NewTarWriter ds"
proof -
  let ?t = "contents db"
  obtain cache' where l: "loadChunk L adm ?t cache ds 0 chunkSize = (cache', Inr (map (object_content L cache ?t) (take chunkSize (drop 0 ds))))"
    and k: "\<And>h. hash_ok h \<Longrightarrow> content_at cache' ?t h = content_at cache ?t h"
    using loadChunk_ok[OF assms(2)] by blast
  have s: "s = \<lparr>ts_pos = \<lparr>cs_idx = 0, cs_chunkIdx = 0, cs_chunk = map (object_content L cache ?t) (take chunkSize ds), cs_cache = cache'\<rparr>,
      ts_writer = NewTarWriter\<rparr>"
    using assms(1) l by (auto simp: GetTars_def Let_def split: prod.splits sum.splits)
  note cong = object_content_cong[OF assms(2) k]
  have "map (object_content L cache ?t) (take chunkSize ds) = map (object_content L cache' ?t) (take chunkSize ds)"
    by (rule map_cong[OF refl]) (metis cong(1) in_set_takeD)
  then show "tars_inv L ?t ds s" using cong(2) by (simp add: s pos_ok_def min_def)
  show "tars_todo L ?t ds s = tar_outs L (object_content L cache ?t) NewTarWriter ds"
    using tar_outs_cong[of ds "object_content L cache' ?t" "object_content L cache ?t" L] cong(1)
    by (simp add: s tars_todo_def)
qed

text \<open>The loops end even when contents are missing or cannot be decoded.\<close>

lemma next_object_idx:
  assumes "next_object L adm table ds s = (s', Inr x)"
  shows "cs_idx s' = Suc (cs_idx s)"
  using assms by (auto simp: next_object_def split: if_splits prod.splits sum.splits)

lemma object_loop_ends: "\<exists>r. loop (object_step L adm table ds path q) body s acc = Some r"
proof (rule loop_terminates)
  let ?R = "measures [\<lambda>s. length ds - cs_idx (os_pos s), \<lambda>s. length (os_packBuffer s)]"
  show "wf ?R" by simp
  fix s s' r assume st: "object_step L adm table ds path q s = (s', r)"
  show "(s', s) \<in> ?R \<or> r = EOF \<or> (\<exists>e. r = Fail e)"
  proof (cases "os_packBuffer s = [] \<and> cs_idx (os_pos s) < length ds")
    case False
    then show ?thesis using st by (auto simp: object_step_def split: list.splits)
  next
    case True
    obtain pos x where n: "next_object L adm table ds (os_pos s) = (pos, x)" by (cases "next_object L adm table ds (os_pos s)")
    show ?thesis
    proof (cases x)
      case (Inl e)
      with True n st show ?thesis by (auto simp: object_step_def)
    next
      case (Inr dc)
      with n have "cs_idx pos = Suc (cs_idx (os_pos s))" using next_object_idx by blast
      with True n Inr st show ?thesis
        by (cases dc) (auto simp: object_step_def split: if_splits sum.splits list.splits)
    qed
  qed
qed

lemma tars_loop_ends: "\<exists>r. loop (tars_step L adm table ds) body s acc = Some r"
proof (rule loop_terminates)
  let ?R = "measure (tars_left ds)"
  show "wf ?R" by simp
  fix s s' r assume st: "tars_step L adm table ds s = (s', r)"
  show "(s', s) \<in> ?R \<or> r = EOF \<or> (\<exists>e. r = Fail e)"
  proof (cases "cs_idx (ts_pos s) < length ds")
    case False
    then show ?thesis using st by (auto simp: tars_step_def tars_left_def BytesAndReset_def split: if_splits)
  next
    case True
    obtain pos x where n: "next_object L adm table ds (ts_pos s) = (pos, x)" by (cases "next_object L adm table ds (ts_pos s)")
    show ?thesis
    proof (cases x)
      case (Inl e)
      with True n st show ?thesis by (auto simp: tars_step_def)
    next
      case (Inr dc)
      with n have "cs_idx pos = Suc (cs_idx (ts_pos s))" using next_object_idx by blast
      moreover have "length ds - cs_idx (ts_pos s) = Suc (length ds - Suc (cs_idx (ts_pos s)))" using True by simp
      ultimately show ?thesis using True n Inr st
        by (cases dc) (auto simp: tars_step_def tars_left_def split: if_splits sum.splits prod.splits)
    qed
  qed
qed

section \<open>What the handlers send\<close>

lemma foldE_send: "(\<And>n. fs_Send F n) \<Longrightarrow> foldE (\<lambda>x. send F (f x)) xs acc = Inr (acc @ map f xs)"
  by (induction xs arbitrary: acc) (simp_all add: send_def)

lemma query_objects_delivers:
  assumes "GetObjects (fs_lib F) (fs_admits F) (fs_cache F) pm p vr q db = Inr (ds, path, q', s)"
    and "servable (fs_lib F) (fs_cache F) (contents db) ds"
    and "object_outs (fs_lib F) (object_content (fs_lib F) (fs_cache F) (contents db)) ds = (obs, err)"
  shows "query_objects F pm p vr use q acc db =
    (db, case foldE use (filter (wanted path q') obs) acc of Inl e \<Rightarrow> Inl Internal
       | Inr acc' \<Rightarrow> if err = None then Inr acc' else Inl Internal)"
  using gob.loop_consume[OF GetObjects_start(1)[OF assms(1,2)], of "fs_admits F" path q' use acc] assms(1,3)
    GetObjects_start(2)[OF assms(1,2)]
  by (auto simp: query_objects_def consume_def split: sum.splits option.splits)

lemma writer_ok_new: "writer_ok L NewTarWriter"
  by (simp add: writer_ok_def NewTarWriter_def entries_size_def TargetTarSize_def)

lemma query_tars_delivers:
  assumes "lib_ok (fs_lib F)" and "\<And>n. fs_Send F n"
    and "ds = build (fs_lib F) (withCacheVersions (newQueryBuilder (g_Project req) vr q) (g_AvailableCacheVersions req)) db"
    and "c = object_content (fs_lib F) (fs_cache F) (contents db)"
    and "servable (fs_lib F) (fs_cache F) (contents db) ds"
    and "\<And>d. d \<in> set ds \<Longrightarrow> in_tar d \<Longrightarrow> tar_accepts (fs_lib F) (object_header (ToTarObject d (c d))) \<and> d_path d \<noteq> []"
  shows "\<exists>outs. query_tars F req vr q acc db = (db, Inr (acc @ map (Pair (To vr)) outs)) \<and>
    concat (tar_sent (fs_lib F) outs) = map (object_entry c) (filter in_tar ds) \<and>
    packs_sent outs = map (\<lambda>d. (d_path d, c d)) (filter (\<lambda>d. \<not> in_tar d) ds) \<and>
    list_all (\<lambda>es. entries_size (butlast es) \<le> TargetTarSize) (tar_sent (fs_lib F) outs) \<and>
    list_all (\<lambda>o'. snd o' = None \<longrightarrow> snd (tar_decode (fs_lib F) (nil_bytes (fst o')))) outs"
proof -
  let ?L = "fs_lib F"
  obtain s where g: "GetTars ?L (fs_admits F) (fs_cache F) (g_Project req) (g_AvailableCacheVersions req) vr q db = Inr (ds, s)"
    using loadChunk_ok[OF assms(5), of "fs_admits F" 0 chunkSize] assms(3) by (auto simp: GetTars_def Let_def)
  note st = GetTars_start[OF g assms(5)]
  let ?outs = "tar_outs ?L c NewTarWriter ds"
  note spec = tar_outs_spec[OF assms(1) writer_ok_new assms(6)]
  have todo: "tars_todo ?L (contents db) ds s = (fst ?outs, None)" using st(2) spec(1) assms(4) by (metis prod.collapse)
  have "query_tars F req vr q acc db = (db, Inr (acc @ map (Pair (To vr)) (fst ?outs)))"
    using gtr.loop_consume[OF st(1), of "fs_admits F" "\<lambda>tar. send F (To vr, tar)" acc] g todo
      foldE_send[OF assms(2), of "Pair (To vr)" "fst ?outs" acc]
    by (simp add: query_tars_def consume_def)
  moreover have "tw_entries NewTarWriter = []" by simp
  ultimately show ?thesis using spec(2-5) by (intro exI[of _ "fst ?outs"]) simp
qed

section \<open>Reading a snapshot\<close>

text \<open>The objects a file of a snapshot stands for: itself, or those in its pack.\<close>

definition file_content :: "lib \<Rightarrow> content_cache \<Rightarrow> contents_table \<Rightarrow> dlfile \<Rightarrow> bytes option" where
  "file_content L cache table f =
     (case f of (q, h, m, sz, packed) \<Rightarrow> Option.bind (content_at cache table h) (value_of L (\<not> packed)))"

definition file_objects :: "lib \<Rightarrow> content_cache \<Rightarrow> contents_table \<Rightarrow> dlfile \<Rightarrow> pb_object list" where
  "file_objects L cache table f =
     (case f of (q, h, m, sz, packed) \<Rightarrow>
        if packed then map object_of (pack_entries L (nil_bytes (file_content L cache table f)))
        else [\<lparr>Path = q, Mode = m, Size = sz, Deleted = False, Content = file_content L cache table f\<rparr>])"

definition packs_readable :: "lib \<Rightarrow> content_cache \<Rightarrow> contents_table \<Rightarrow> dlfile set \<Rightarrow> bool" where
  "packs_readable L cache table S \<longleftrightarrow>
     (\<forall>f \<in> S. snd (snd (snd (snd f))) \<longrightarrow>
        snd (tar_decode L (nil_bytes (file_content L cache table f))) \<and>
        pack_entries L (nil_bytes (file_content L cache table f)) \<noteq> [])"

lemma object_outs_files:
  assumes "\<And>d. d \<in> set ds \<Longrightarrow> \<not> d_cached d \<and> \<not> d_deleted d"
    and "packs_readable L cache table (object_file ` set ds)"
  shows "snd (object_outs L (object_content L cache table) ds) = None"
    and "set (fst (object_outs L (object_content L cache table) ds)) = (\<Union>f \<in> object_file ` set ds. set (file_objects L cache table f))"
proof -
  have "snd (object_outs L (object_content L cache table) ds) = None \<and>
    set (fst (object_outs L (object_content L cache table) ds)) = (\<Union>f \<in> object_file ` set ds. set (file_objects L cache table f))"
    using assms
  proof (induction ds)
    case (Cons d ds)
    have d: "\<not> d_cached d" "\<not> d_deleted d" using Cons.prems(1)[of d] by simp_all
    have c: "object_content L cache table d = file_content L cache table (object_file d)"
      using d by (simp add: object_content_def file_content_def object_file_def)
    have IH: "snd (object_outs L (object_content L cache table) ds) = None"
      "set (fst (object_outs L (object_content L cache table) ds)) = (\<Union>f \<in> object_file ` set ds. set (file_objects L cache table f))"
      using Cons.IH Cons.prems by (auto simp: packs_readable_def)
    show ?case
    proof (cases "d_packed d")
      case False
      then have "file_objects L cache table (object_file d) = [plain_object d (object_content L cache table d)]"
        using d c by (simp add: plain_object_def file_objects_def object_file_def)
      with False IH d show ?thesis by simp
    next
      case True
      let ?b = "nil_bytes (file_content L cache table (object_file d))"
      have r: "snd (tar_decode L ?b)" "pack_entries L ?b \<noteq> []"
        using Cons.prems(2) True by (simp_all add: packs_readable_def object_file_def)
      then obtain e es where "fst (tar_decode L ?b) = e # es" by (cases "fst (tar_decode L ?b)") (auto simp: pack_entries_def)
      moreover from this have "file_objects L cache table (object_file d) = map object_of (e # es)"
        using True by (simp add: file_objects_def object_file_def pack_entries_def)
      ultimately show ?thesis using r True IH d c by (simp add: unpackObjects_eq)
    qed
  qed simp
  then show "snd (object_outs L (object_content L cache table) ds) = None"
    "set (fst (object_outs L (object_content L cache table) ds)) = (\<Union>f \<in> object_file ` set ds. set (file_objects L cache table f))"
    by blast+
qed

lemma whole_prefix: "wanted [] \<lparr>q_Path = q, q_IsPrefix = True, q_Ignores = []\<rparr> ob"
  by (simp add: wanted_def)

lemma query_objects_whole:
  assumes "db_ok db" and "IsPathPacked (fs_lib F) pm [] = None"
    and "servable (fs_lib F) (fs_cache F) (contents db) (build (fs_lib F) (whole p \<lparr>From = 0, To = w\<rparr>) db)"
    and "packs_readable (fs_lib F) (fs_cache F) (contents db) (snapshot (objects db) p w)"
  shows "\<exists>obs. set obs = (\<Union>f \<in> snapshot (objects db) p w. set (file_objects (fs_lib F) (fs_cache F) (contents db) f)) \<and>
    (\<forall>use (acc :: 'b). query_objects F pm p \<lparr>From = 0, To = w\<rparr> use \<lparr>q_Path = [], q_IsPrefix = True, q_Ignores = []\<rparr> acc db =
      (db, case foldE use obs acc of Inl e \<Rightarrow> Inl Internal | Inr acc' \<Rightarrow> Inr acc'))"
proof -
  let ?L = "fs_lib F" and ?t = "contents db" and ?q = "\<lparr>q_Path = [], q_IsPrefix = True, q_Ignores = []\<rparr>"
  let ?ds = "build ?L (whole p \<lparr>From = 0, To = w\<rparr>) db"
  have start: "1 \<le> o_start r" if "r \<in> set (objects db)" for r
    using db_okD(3)[OF assms(1) that] by (simp add: row_within_def)
  note wq = whole_query[where db = db and L = ?L and p = p and w = w, OF start]
  obtain c s where g: "GetObjects ?L (fs_admits F) (fs_cache F) pm p \<lparr>From = 0, To = w\<rparr> ?q db = Inr (?ds, [], ?q, s)"
    using loadChunk_ok[OF assms(3), of "fs_admits F" 0 chunkSize] assms(2)
    by (auto simp: GetObjects_def whole_def Let_def)
  note st = GetObjects_start[OF g assms(3)]
  let ?obs = "fst (object_outs ?L (object_content ?L (fs_cache F) ?t) ?ds)"
  have read: "packs_readable ?L (fs_cache F) ?t (object_file ` set ?ds)" using assms(4) wq(1) start by simp
  have outs: "snd (object_outs ?L (object_content ?L (fs_cache F) ?t) ?ds) = None"
    "set ?obs = (\<Union>f \<in> object_file ` set ?ds. set (file_objects ?L (fs_cache F) ?t f))"
    using object_outs_files[OF _ read] wq(2) start by blast+
  have "filter (wanted [] ?q) ?obs = ?obs" by (simp add: filter_id_conv whole_prefix)
  then have todo: "object_todo ?L ?t ?ds [] ?q s = (?obs, None)" using st(2) outs(1) by simp
  have "query_objects F pm p \<lparr>From = 0, To = w\<rparr> use ?q acc db =
      (db, case foldE use ?obs acc of Inl e \<Rightarrow> Inl Internal | Inr acc' \<Rightarrow> Inr acc')" for use and acc :: 'b
    using gob.loop_consume[OF st(1), of "fs_admits F" "[]" ?q use acc] g todo
    by (simp add: query_objects_def consume_def split: sum.splits)
  moreover have "set ?obs = (\<Union>f \<in> snapshot (objects db) p w. set (file_objects ?L (fs_cache F) ?t f))"
    using outs(2) wq(1) start by simp
  ultimately show ?thesis by (intro exI[of _ ?obs] conjI allI)
qed

lemma GetUnary_whole:
  assumes "db_ok db" and "find_project db p = Some pr" and "list_all (re_valid (fs_lib F)) (matchers (patterns_of pr))"
    and "IsPathPacked (fs_lib F) (patterns_of pr) [] = None"
    and "servable (fs_lib F) (fs_cache F) (contents db) (build (fs_lib F) (whole p \<lparr>From = 0, To = w\<rparr>) db)"
    and "packs_readable (fs_lib F) (fs_cache F) (contents db) (snapshot (objects db) p w)"
    and "requireProjectAuth ctx = Inr a" and "a = - 1 \<or> a = p" and "fs_Connect F"
    and "req = \<lparr>g_Project = p, g_FromVersion = None, g_ToVersion = Some w,
      g_Queries = [\<lparr>q_Path = [], q_IsPrefix = True, q_Ignores = []\<rparr>], g_AvailableCacheVersions = []\<rparr>"
  shows "\<exists>db' resp. Fs_GetUnary F ctx req db = (db', Inr resp) \<and> objects db' = objects db \<and>
    set (gu_Objects resp) = (\<Union>f \<in> snapshot (objects db) p w. set (file_objects (fs_lib F) (fs_cache F) (contents db) f))"
proof -
  let ?q = "\<lparr>q_Path = [], q_IsPrefix = True, q_Ignores = []\<rparr>"
  let ?use = "\<lambda>ob response. Inr (response\<lparr>gu_Version := w, gu_Objects := gu_Objects response @ [ob]\<rparr>)"
  obtain obs where obs: "set obs = (\<Union>f \<in> snapshot (objects db) p w. set (file_objects (fs_lib F) (fs_cache F) (contents db) f))"
    and run: "\<And>use acc. query_objects F (patterns_of pr) p \<lparr>From = 0, To = w\<rparr> use ?q acc db =
      (db, case foldE use obs acc of Inl e \<Rightarrow> Inl Internal | Inr (acc' :: GetUnaryResponse) \<Rightarrow> Inr acc')"
    using query_objects_whole[OF assms(1,4,5,6)] by blast
  have "\<exists>resp'. foldE ?use obs resp = Inr resp' \<and> gu_Objects resp' = gu_Objects resp @ obs" for resp
  proof (induction obs arbitrary: resp)
    case (Cons ob obs)
    then show ?case using Cons[of "resp\<lparr>gu_Version := w, gu_Objects := gu_Objects resp @ [ob]\<rparr>"] by simp
  qed simp
  then obtain resp where f: "foldE ?use obs \<lparr>gu_Version = 0, gu_Objects = []\<rparr> = Inr resp" "gu_Objects resp = obs" by fastforce
  have "Fs_GetUnary F ctx req db = (rollback_tx db db, Inr resp)"
    using assms(7-9) NewPackManager_eq[OF assms(2,3)] run f
    by (auto simp: Fs_GetUnary_def project_access_def in_tx_def thenC_def coded_def NewVersionRange_def
        validateObjectQuery_def done_tx_def assms(10))
  with f obs show ?thesis by simp
qed

end
