(* ===== verification/Admins.thy ===== *)
theory Admins
  imports Reads
begin

text \<open>
  Lemmas about the administrative handlers: garbage collection, cloning, templates, resets, who
  may call what, and that a project's token reaches no other project.
\<close>

section \<open>Garbage collection\<close>

lemma Fs_GcProject_cases:
  assumes "Fs_GcProject F ctx p keep from db = (db', r)"
  shows "db' = db \<or> (\<exists>hs d. 0 < keep \<and> GcProjectObjects p keep (case from of None \<Rightarrow> 0 | Some v \<Rightarrow> v) db = (d, Inr hs) \<and>
    db' = fst (GcContentHashes hs d))"
proof -
  let ?from = "case from of None \<Rightarrow> 0 | Some v \<Rightarrow> v"
  obtain d x where g: "GcProjectObjects p keep ?from db = (d, x)" by (cases "GcProjectObjects p keep ?from db")
  have same: "x = Inl e \<Longrightarrow> d = db" for e using g by (auto simp: GcProjectObjects_def split: option.splits if_splits)
  show ?thesis
    using assms g same
    by (cases x) (auto simp: Fs_GcProject_def admin_only_def stop_tx_def thenC_def coded_def GcContentHashes_eq Let_def
        split: option.splits if_splits)
qed

lemma Fs_GcProject_keeps:
  assumes "Fs_GcProject F ctx p keep from db = (db', r)" and "q = p \<longrightarrow> latest_of db p - keep \<le> w"
  shows "snapshot (objects db') q w = snapshot (objects db) q w"
    and "f \<in> snapshot (objects db') q w \<Longrightarrow> map_of (contents db') (fst (snd f)) = map_of (contents db) (fst (snd f))"
    and "projects db' = projects db"
proof -
  have "snapshot (objects db') q w = snapshot (objects db) q w \<and> projects db' = projects db \<and>
    (\<forall>f \<in> snapshot (objects db') q w. map_of (contents db') (fst (snd f)) = map_of (contents db) (fst (snd f)))"
    using Fs_GcProject_cases[OF assms(1)]
  proof
    assume "\<exists>hs d. 0 < keep \<and> GcProjectObjects p keep (case from of None \<Rightarrow> 0 | Some v \<Rightarrow> v) db = (d, Inr hs) \<and>
      db' = fst (GcContentHashes hs d)"
    then obtain hs d where g: "GcProjectObjects p keep (case from of None \<Rightarrow> 0 | Some v \<Rightarrow> v) db = (d, Inr hs)"
      and db': "db' = fst (GcContentHashes hs d)" by blast
    note fr = GcProjectObjects_frame[OF g]
    have obj: "objects db' = objects d" "projects db' = projects db" using db' fr by (simp_all add: GcContentHashes_eq)
    have "map_of (contents db') (fst (snd f)) = map_of (contents db) (fst (snd f))" if f: "f \<in> snapshot (objects db') q w" for f
    proof -
      from f obtain r where "r \<in> set (objects d)" "f = row_file r" unfolding snapshot_def obj(1) by blast
      then have "\<not> unreferenced d hs (fst (snd f))" by (auto simp: unreferenced_def row_file_def)
      then show ?thesis using GcContentHashes_lookup[of hs d] db' fr(2) by simp
    qed
    then show ?thesis using GcProjectObjects_snapshot[OF g assms(2)] obj by simp
  qed simp
  then show "snapshot (objects db') q w = snapshot (objects db) q w" "projects db' = projects db"
    "f \<in> snapshot (objects db') q w \<Longrightarrow> map_of (contents db') (fst (snd f)) = map_of (contents db) (fst (snd f))"
    by blast+
qed

lemma GcProjectObjects_ok:
  assumes "db_ok db" and "GcProjectObjects p keep from db = (db', r)"
  shows "db_ok db'"
proof -
  have "latest_of db' q = latest_of db q" for q using GcProjectObjects_frame(1)[OF assms(2)] by (simp add: latest_of_def find_project_def)
  then show ?thesis using GcProjectObjects_frame[OF assms(2)] assms(1)
    by (auto simp: db_ok_def list_all_iff sorted_wrt_filter)
qed

lemma GcContentHashes_ok: "db_ok db \<Longrightarrow> db_ok (fst (GcContentHashes hs db))"
  by (simp add: GcContentHashes_eq db_ok_def)

section \<open>Cloning and templates\<close>

lemma Fs_CloneToProject_ok:
  assumes "db_ok db" and "find_project db target = Some pr" and "0 \<le> latest_version pr" and "is_int64 (latest_version pr + 1)"
    and "coalesced_patterns db source = coalesced_patterns db target" and "source = target \<longrightarrow> version \<le> latest_version pr"
    and "requireAdminAuth ctx = None" and "fs_Connect F" and "fs_Commit F"
  shows "\<exists>db'. Fs_CloneToProject F ctx \<lparr>cp_Source = source, cp_Version = version, cp_Target = target\<rparr> db =
      (db', Inr (latest_version pr + 1)) \<and> db_ok db' \<and> latest_of db' target = latest_version pr + 1 \<and>
    snapshot (objects db') target (latest_version pr + 1) = snapshot (objects db) source version \<and>
    (\<forall>w \<le> latest_version pr. snapshot (objects db') target w = snapshot (objects db) target w)"
proof -
  let ?v = "latest_version pr + 1" and ?L = "fs_lib F"
  have lat: "latest_of db target = latest_version pr" using assms(2) by (simp add: latest_of_def)
  obtain d where d: "CloneToProject ?L source target version ?v db = (d, Inr ())" "writable target ?v d"
    "snapshot (objects d) target ?v = snapshot (objects db) source version"
    using CloneToProject_result[OF assms(1), of target ?v source version ?L] assms(3,6) lat by auto
  obtain db' where u: "UpdateLatestVersion target ?v d = (db', Inr ())" by (simp add: UpdateLatestVersion_def update_projects_def)
  note L = latest_of_UpdateLatestVersion[OF u]
  have exists: "find_project d target \<noteq> None" using cln.same_project[OF d(1)] assms(2) by simp
  have lat': "latest_of db' q = (if q = target then ?v else latest_of d q)" for q using L(1)[of q] exists by simp
  have "db_ok db'"
    using d(2) L(2,4) cln.frame[OF d(1)] db_okD(1)[OF assms(1)] unfolding db_ok_def writable_def list_all_iff by (simp add: lat')
  moreover have "Fs_CloneToProject F ctx \<lparr>cp_Source = source, cp_Version = version, cp_Target = target\<rparr> db = (db', Inr ?v)"
    using assms(2,4,5,7-9) d(1) u
    by (simp add: Fs_CloneToProject_def admin_only_def in_tx_def thenC_def coded_def HasSamePackPattern_def LockLatestVersion_def
        wrap64_id done_tx_def Let_def)
  moreover have "\<forall>w \<le> latest_version pr. snapshot (objects db') target w = snapshot (objects db) target w"
    using cln.history[OF d(1)] L(2) by simp
  ultimately show ?thesis using d(3) L(2) lat' by simp
qed

lemma Fs_NewProject_template:
  assumes "db_ok db" and "find_project db p = None" and "find_project db template = Some s"
    and "coalesced_patterns db template = pats" and "requireAdminAuth ctx = None" and "fs_Connect F" and "fs_Commit F"
  shows "\<exists>db'. Fs_NewProject F ctx \<lparr>np_Id = p, np_Template = Some template, np_PackPatterns = pats\<rparr> db = (db', Inr ()) \<and>
    db_ok db' \<and> latest_of db' p = latest_version s \<and>
    snapshot (objects db') p (latest_version s) = snapshot (objects db) template (latest_version s)"
proof -
  let ?pats = "if pats = [] then None else Some pats"
  let ?new = "\<lparr>p_id = p, latest_version = 0, pack_patterns = ?pats\<rparr>"
  obtain d where d: "d = db\<lparr>projects := projects db @ [?new]\<rparr>" by blast
  have c: "CreateProject p ?pats db = (d, Inr ())" using assms(2) by (simp add: CreateProject_def d)
  have ne: "template \<noteq> p" using assms(2,3) by auto
  have f: "find_project d template = Some s" "find_project d p = Some ?new"
    using assms(2,3) ne by (auto simp: d find_project_def find_append_case split: option.splits)
  have "coalesced_patterns d template = coalesced_patterns d p"
    using assms(3,4) f by (auto simp: coalesced_patterns_def split: if_splits)
  moreover have "o_project r \<noteq> p" if "r \<in> set (objects d)" for r
    using db_ok_no_rows[OF assms(1), of r] assms(2) that by (auto simp: d)
  ultimately obtain db' where "CopyAllObjects template p d = (db', Inr ())" "db_ok db'" "latest_of db' p = latest_version s"
    "snapshot (objects db') p (latest_version s) = snapshot (objects d) template (latest_version s)"
    using CopyAllObjects_result[OF CreateProject_ok[OF assms(1) c] ne f] by blast
  then show ?thesis using c assms(5-7)
    by (intro exI[of _ db'], cases "pats = []") (simp_all add: d Fs_NewProject_def admin_only_def in_tx_def thenC_def coded_def done_tx_def)
qed

section \<open>Isolation\<close>

lemma receive_project: "receive L db req b = Inr b' \<Longrightarrow> ub_project b \<noteq> - 1 \<Longrightarrow> ub_project b' = ub_project b"
  by (auto simp: receive_def Let_def split: if_splits sum.splits option.splits)

lemma receive_all_project: "receive_all L db reqs e b = Inr b' \<Longrightarrow> ub_project b \<noteq> - 1 \<Longrightarrow> ub_project b' = ub_project b"
proof (induction reqs arbitrary: b)
  case (Cons req reqs)
  from Cons.prems(1) obtain b1 where b1: "receive L db req b = Inr b1" "receive_all L db reqs e b1 = Inr b'"
    by (auto split: sum.splits)
  then have "ub_project b1 = ub_project b" using receive_project Cons.prems(2) by blast
  with Cons.IH[OF b1(2)] Cons.prems(2) show ?case by simp
qed (auto split: option.splits)

lemma Fs_Update_isolated:
  assumes "Fs_Update F ctx reqs recvErr db = (db', r)" and "requireProjectAuth ctx = Inr p" and "p \<noteq> - 1" and "q \<noteq> p"
  shows "snapshot (objects db') q w = snapshot (objects db) q w" and "find_project db' q = find_project db q"
proof -
  have tx: "in_tx F (update_body F p reqs recvErr) db = (db', r)" using assms(1,2) by (simp add: Fs_Update_def)
  have "snapshot (objects db') q w = snapshot (objects db) q w \<and> find_project db' q = find_project db q"
  proof (cases r)
    case (Inl c)
    with in_tx_Inl[of F "update_body F p reqs recvErr" db db' c] tx show ?thesis by (simp add: find_project_def)
  next
    case (Inr v)
    then obtain d commits where d: "update_body F p reqs recvErr db = (d, Inr (commits, v))"
      "db' = (if commits then d else rollback_tx db d)"
      using in_tx_Inr[of F "update_body F p reqs recvErr" db db' v] tx by auto
    show ?thesis
    proof (cases commits)
      case True
      from d(1) obtain b where b: "receive_all (fs_lib F) db reqs recvErr
          \<lparr>ub_project = p, ub_packManager = None, ub_objectBuffer = [], ub_packedBuffer = []\<rparr> = Inr b"
        by (auto simp: update_body_def split: sum.splits)
      then have "ub_project b = p" using receive_all_project[OF b] assms(3) by simp
      with d(1) b True obtain obs packs d1 where w: "write_update F p v obs packs db = (d1, Inr True)"
        "UpdateLatestVersion p v d1 = (d, Inr ())"
        by (auto simp: update_body_def tx_simps Let_def split: if_splits)
      note L = latest_of_UpdateLatestVersion[OF w(2)]
      have "find_project d q = find_project d1 q"
        unfolding L(5) using assms(4) by (cases "find_project d1 q") (auto dest: find_project_Some)
      then show ?thesis
        using d(2) True version_writer.others[OF write_update_writer w(1) assms(4)]
          version_writer.same_project[OF write_update_writer w(1)] L(2) by simp
    next
      case False
      with d(2) show ?thesis by (simp add: find_project_def)
    qed
  qed
  then show "snapshot (objects db') q w = snapshot (objects db) q w" "find_project db' q = find_project db q" by blast+
qed

end
