(* ===== verification/Reachable.thy ===== *)
theory Reachable
  imports Admins
begin

text \<open>
  The service as a state machine: \<open>serves\<close> relates the database before and after one handler
  call, and \<open>reachable\<close> collects the states that sequences of calls lead to from an empty
  database. The invariant (disjoint version intervals per path, rows within their project's
  versions, packed paths stored as packs) holds in every reachable state.
\<close>

section \<open>Which rows an operation adds\<close>

definition sig :: "object_row \<Rightarrow> int \<times> string \<times> bool" where
  "sig r = (o_project r, o_path r, o_packed r)"

definition sigs :: "DB \<Rightarrow> (int \<times> string \<times> bool) set" where
  "sigs db = sig ` set (objects db)"

definition adds :: "(int \<times> string \<times> bool) set \<Rightarrow> (DB, 'a) dbm \<Rightarrow> bool" where
  "adds A m \<longleftrightarrow> (\<forall>db. sigs (fst (m db)) \<subseteq> sigs db \<union> A)"

lemma addsD: "adds A m \<Longrightarrow> m db = (db', r) \<Longrightarrow> sigs db' \<subseteq> sigs db \<union> A"
  unfolding adds_def by (metis fst_conv)

lemma adds_mono: "adds A m \<Longrightarrow> A \<subseteq> B \<Longrightarrow> adds B m"
  unfolding adds_def by blast

lemma adds_ret: "adds A (ret a)" and adds_fail: "adds A (fail e)"
  by (simp_all add: adds_def)

lemma adds_andThen:
  assumes "adds A m" and "\<And>a. adds A (f a)"
  shows "adds A (andThen m f)"
  unfolding adds_def
proof
  fix db
  obtain d x where m: "m db = (d, x)" by (cases "m db")
  then have "sigs d \<subseteq> sigs db \<union> A" using addsD[OF assms(1)] by blast
  moreover have "sigs (fst (f a d)) \<subseteq> sigs d \<union> A" for a using assms(2) unfolding adds_def by blast
  ultimately show "sigs (fst (andThen m f db)) \<subseteq> sigs db \<union> A" using m by (cases x) (auto simp: andThen_def)
qed

lemma adds_foldM: "(\<And>x a. x \<in> set xs \<Longrightarrow> adds A (f x a)) \<Longrightarrow> adds A (foldM f xs a)"
  by (induction xs arbitrary: a) (auto intro!: adds_ret adds_andThen)

lemma adds_insert_content: "adds A (insert_content h b)"
  by (auto simp: adds_def insert_content_def sigs_def)

lemma adds_stop: "adds A (update_objects sel (\<lambda>r. r\<lparr>o_stop := t\<rparr>))"
proof -
  let ?f = "\<lambda>r. if sel r then r\<lparr>o_stop := t\<rparr> else r"
  have "sig (?f r) = sig r" for r by (simp add: sig_def)
  then have "sig ` set (map ?f rs) = sig ` set rs" for rs unfolding set_map image_image by (simp only:)
  then have "sigs (db\<lparr>objects := map ?f (objects db)\<rparr>) = sigs db" for db by (simp add: sigs_def del: set_map)
  then show ?thesis unfolding adds_def update_objects_def set_objects_def by simp
qed

lemma adds_insert_ignore: "sig r \<in> A \<Longrightarrow> adds A (insert_ignore r)"
  by (auto simp: adds_def insert_ignore_def insert_or_ignore_def sigs_def)

lemma adds_insert: "sig ` set rs \<subseteq> A \<Longrightarrow> adds A (insert_objects rs)"
  by (auto simp: adds_def insert_objects_def set_objects_def sigs_def)

lemmas adds_intros = adds_ret adds_fail adds_andThen adds_insert_content adds_stop adds_insert_ignore adds_insert

lemma adds_update_object: "adds {(p, Path ob, False)} (update_object L p v ob st)"
  unfolding update_object_def DeleteObject_def UpdateObject_def Let_def
  by (auto simp: sig_def split: prod.splits intro!: adds_intros)

lemma adds_write_pack: "adds {(p, q, True)} (write_pack L p v q i u)"
  unfolding write_pack_def Let_def by (auto simp: sig_def intro!: adds_intros)

lemma adds_update_packed: "adds {(p, fst e, True)} (update_packed L p v e sh)"
proof -
  have "sigs (fst (UpdatePackedObjects L p v (fst e) (snd e) db)) \<subseteq> sigs db \<union> {(p, fst e, True)}" for db
    by (cases rule: UpdatePackedObjects_cases[of L p v "fst e" "snd e" db])
      (use adds_write_pack[of p "fst e" L v] in \<open>auto simp: adds_def\<close>)
  then have "adds {(p, fst e, True)} (UpdatePackedObjects L p v (fst e) (snd e))" by (simp add: adds_def)
  then show ?thesis unfolding update_packed_def by (rule adds_andThen) (rule adds_ret)
qed

lemma adds_write_update:
  assumes "set (fs_order F packs) = set packs"
  shows "adds ({(p, Path ob, False) | ob. ob \<in> set obs} \<union> {(p, q, True) | q. True}) (write_update F p v obs packs)"
  unfolding write_update_def
proof (rule adds_andThen)
  let ?A = "{(p, Path ob, False) | ob. ob \<in> set obs} \<union> {(p, q, True) | q. True}"
  show "adds ?A (foldM (update_object (fs_lib F) p v) obs (NewContentEncoder, False))"
    by (rule adds_foldM) (rule adds_mono[OF adds_update_object], auto)
  have "adds ?A (foldM (update_packed (fs_lib F) p v) (fs_order F packs) sh)" for sh
    by (rule adds_foldM) (rule adds_mono[OF adds_update_packed], auto)
  then show "adds ?A (case st of (encoder, should) \<Rightarrow> foldM (update_packed (fs_lib F) p v) (fs_order F packs) should)" for st
    by (cases st) simp
qed

section \<open>The invariant\<close>

definition packed_stored :: "lib \<Rightarrow> DB \<Rightarrow> bool" where
  "packed_stored L db \<longleftrightarrow> (\<forall>(p, q, packed) \<in> sigs db. \<forall>pr. find_project db p = Some pr \<longrightarrow>
     IsPathPacked L (patterns_of pr) q = Some q \<longrightarrow> packed)"

definition state_ok :: "lib \<Rightarrow> DB \<Rightarrow> bool" where
  "state_ok L db \<longleftrightarrow> db_ok db \<and> packed_stored L db \<and> (\<forall>pr \<in> set (projects db). 0 \<le> p_id pr \<and> 0 \<le> latest_version pr)"

lemma state_ok_latest: "state_ok L db \<Longrightarrow> 0 \<le> latest_of db p"
  by (auto simp: state_ok_def latest_of_def dest: find_project_Some split: option.splits)

lemma packed_stored_add:
  assumes "packed_stored L db" and "sigs d \<subseteq> sigs db \<union> A"
    and "\<And>p x. find_project d p = Some x \<Longrightarrow>
      (\<exists>y. find_project db p = Some y \<and> patterns_of x = patterns_of y) \<or> (\<forall>s \<in> sigs db. fst s \<noteq> p)"
    and "\<And>p q packed x. (p, q, packed) \<in> A \<Longrightarrow> find_project d p = Some x \<Longrightarrow> IsPathPacked L (patterns_of x) q = Some q \<Longrightarrow> packed"
  shows "packed_stored L d"
  unfolding packed_stored_def
proof (intro ballI, clarify)
  fix p q packed x
  assume s: "(p, q, packed) \<in> sigs d" "find_project d p = Some x" and pk: "IsPathPacked L (patterns_of x) q = Some q"
  show packed
  proof (cases "(p, q, packed) \<in> sigs db")
    case True
    then obtain y where "find_project db p = Some y" "patterns_of x = patterns_of y" using assms(3)[OF s(2)] by fastforce
    then show ?thesis using True assms(1) pk unfolding packed_stored_def by fastforce
  next
    case False
    then show ?thesis using assms(2,4) s pk by blast
  qed
qed

lemmas packed_stored_sub = packed_stored_add[where A = "{}", simplified]

lemma patterns_update [simp]: "patterns_of (pr\<lparr>latest_version := v\<rparr>) = patterns_of pr"
  by (simp add: patterns_of_def)

lemma sigs_cong [simp]: "sigs (db\<lparr>contents := c\<rparr>) = sigs db" "sigs (db\<lparr>projects := ps\<rparr>) = sigs db"
  by (simp_all add: sigs_def)

lemma state_ok_rollback_tx [simp]: "state_ok L (rollback_tx a b) = state_ok L a"
  by (simp add: state_ok_def packed_stored_def sigs_def find_project_def)

lemma in_tx_state_ok:
  assumes "state_ok L db" and "in_tx F body db = (db', r)"
    and "\<And>d a. body db = (d, Inr (True, a)) \<Longrightarrow> state_ok L d"
  shows "state_ok L db'"
proof (cases r)
  case (Inl c)
  then have "db' = db \<or> (\<exists>d. db' = rollback_tx db d)"
    using assms(2) by (auto simp: in_tx_def split: if_splits prod.splits sum.splits)
  then show ?thesis using assms(1) by auto
next
  case (Inr a)
  then obtain d commits where d: "body db = (d, Inr (commits, a))" "db' = (if commits then d else rollback_tx db d)"
    using in_tx_Inr[of F body db db' a] assms(2) by auto
  then show ?thesis using assms(1,3) by (cases commits) auto
qed

section \<open>An update keeps the invariant\<close>

text \<open>Whatever a pack update does, it keeps the version under construction writable.\<close>

lemma update_packed_writable:
  assumes "update_packed L p v e sh db = (db', Inr sh')" and "writable p v db" and "fst e \<notin> snd (head_of p v db)"
    and "\<And>q packed. (p, q, packed) \<in> sigs db \<Longrightarrow> q = fst e \<Longrightarrow> packed"
  shows "writable p v db' \<and> snd (head_of p v db') \<subseteq> insert (fst e) (snd (head_of p v db))"
proof -
  obtain ch where u: "UpdatePackedObjects L p v (fst e) (snd e) db = (db', Inr ch)"
    using assms(1) by (auto simp: update_packed_def andThen_def split: prod.splits sum.splits)
  have packed: "snd (snd (snd (snd f)))" if "f \<in> fst (head_of p v db)" "fst f = fst e" for f
  proof -
    from that(1) obtain r where "r \<in> set (objects db)" "o_project r = p" "f = row_file r" by (auto simp: head_of_def)
    then have "(p, fst f, snd (snd (snd (snd f)))) \<in> sigs db" by (force simp: sigs_def sig_def row_file_def)
    with assms(4) that(2) show ?thesis by blast
  qed
  show ?thesis
  proof (cases rule: UpdatePackedObjects_cases[of L p v "fst e" "snd e" db])
    case (failed x)
    with u show ?thesis by simp
  next
    case same
    with u assms(2) show ?thesis by auto
  next
    case (written i w)
    obtain d where d: "write_pack L p v (fst e) i w db = (d, Inr True)" "writable p v d"
      "head_of p v d = spec_pack (fst e) (if i then Some (HashContent L w, int (length w)) else None) (head_of p v db)"
      using write_pack_refines[OF assms(2,3) packed] by blast
    with u written have "db' = d" by simp
    with d show ?thesis by (auto simp: spec_pack_def)
  qed
qed

lemma update_packs_writable:
  assumes "foldM (update_packed L p v) packs sh db = (db', Inr sh')" and "writable p v db" and "distinct (map fst packs)"
    and "fst ` set packs \<inter> snd (head_of p v db) = {}"
    and "\<And>q packed. (p, q, packed) \<in> sigs db \<Longrightarrow> q \<in> fst ` set packs \<Longrightarrow> packed"
  shows "writable p v db'"
  using assms
proof (induction packs arbitrary: db sh)
  case (Cons e packs)
  from Cons.prems(1) obtain d s where d: "update_packed L p v e sh db = (d, Inr s)"
    "foldM (update_packed L p v) packs s d = (db', Inr sh')"
    by (auto simp: andThen_def split: prod.splits sum.splits)
  have w: "writable p v d" "snd (head_of p v d) \<subseteq> insert (fst e) (snd (head_of p v db))"
    using update_packed_writable[OF d(1) Cons.prems(2)] Cons.prems(4,5) by auto
  have dis: "fst ` set packs \<inter> snd (head_of p v d) = {}"
    by (rule disjoint_step[OF _ _ w(2)]) (use Cons.prems(3,4) in simp_all)
  have "sigs d \<subseteq> sigs db \<union> {(p, fst e, True)}" using addsD[OF adds_update_packed d(1)] .
  then have pk: "packed" if "(p, q, packed) \<in> sigs d" "q \<in> fst ` set packs" for q packed
    using that Cons.prems(5)[of q packed] by auto
  show ?case
  proof (rule Cons.IH[OF d(2) w(1) _ dis])
    show "distinct (map fst packs)" using Cons.prems(3) by simp
  qed (rule pk)
qed simp

text \<open>What the receive loop leaves in the buffers.\<close>

definition buffers_ok :: "lib \<Rightarrow> DB \<Rightarrow> update_buffers \<Rightarrow> bool" where
  "buffers_ok L db b \<longleftrightarrow>
     (case ub_packManager b of
        None \<Rightarrow> ub_objectBuffer b = [] \<and> ub_packedBuffer b = []
      | Some pm \<Rightarrow> snd (NewPackManager L (ub_project b) db) = Inr pm \<and>
          list_all (\<lambda>ob. IsPathPacked L pm (Path ob) = None) (ub_objectBuffer b) \<and>
          distinct (map fst (ub_packedBuffer b)) \<and>
          list_all (\<lambda>e. IsPathPacked L pm (fst e) = Some (fst e)) (ub_packedBuffer b))"

lemma fst_buffer_packed: "fst ` set (buffer_packed q ob buf) = insert q (fst ` set buf)"
  by (subst buffer_packed_def, subst dom_update) simp

lemma receive_ok:
  assumes "receive L db req b = Inr b'" and "buffers_ok L db b" and "find_project db (- 1) = None"
  shows "buffers_ok L db b'" and "map Path (ub_objectBuffer b') \<in> {map Path (ub_objectBuffer b), map Path (ub_objectBuffer b) @ [Path (snd req)]}"
proof -
  let ?p = "if ub_project b = - 1 then fst req else ub_project b"
  obtain pm where pm: "(case ub_packManager b of Some pm \<Rightarrow> Inr pm | None \<Rightarrow> snd (NewPackManager L ?p db)) = Inr pm"
    using assms(1) by (auto simp: receive_def Let_def split: if_splits sum.splits option.splits)
  have new: "snd (NewPackManager L ?p db) = Inr pm"
  proof (cases "ub_packManager b")
    case None
    with pm show ?thesis by simp
  next
    case (Some x)
    then have "snd (NewPackManager L (ub_project b) db) = Inr pm" using pm assms(2) by (simp add: buffers_ok_def)
    moreover from this assms(3) have "ub_project b \<noteq> - 1" by (auto simp: NewPackManager_def)
    ultimately show ?thesis by simp
  qed
  have old: "list_all (\<lambda>ob. IsPathPacked L pm (Path ob) = None) (ub_objectBuffer b) \<and> distinct (map fst (ub_packedBuffer b)) \<and>
      list_all (\<lambda>e. IsPathPacked L pm (fst e) = Some (fst e)) (ub_packedBuffer b)"
    using assms(2) pm by (cases "ub_packManager b") (simp_all add: buffers_ok_def)
  have b': "b' = (case IsPathPacked L pm (Path (snd req)) of
      Some q \<Rightarrow> b\<lparr>ub_project := ?p, ub_packManager := Some pm, ub_packedBuffer := buffer_packed q (snd req) (ub_packedBuffer b)\<rparr>
    | None \<Rightarrow> b\<lparr>ub_project := ?p, ub_packManager := Some pm, ub_objectBuffer := ub_objectBuffer b @ [snd req]\<rparr>)"
    using assms(1) pm by (auto simp: receive_def Let_def split: if_splits option.splits)
  show "buffers_ok L db b'"
  proof (cases "IsPathPacked L pm (Path (snd req))")
    case None
    then show ?thesis using old new by (simp add: b' buffers_ok_def)
  next
    case (Some q)
    have "IsPathPacked L pm q = Some q" using IsPathPacked_parent(2)[OF Some, of "[]"] by simp
    then have "\<forall>x \<in> fst ` set (buffer_packed q (snd req) (ub_packedBuffer b)). IsPathPacked L pm x = Some x"
      using old unfolding fst_buffer_packed list_all_iff by blast
    moreover have "distinct (map fst (buffer_packed q (snd req) (ub_packedBuffer b)))"
      using old unfolding buffer_packed_def by (blast intro: AList.distinct_update)
    ultimately show ?thesis using Some old new by (simp add: b' buffers_ok_def list_all_iff)
  qed
  show "map Path (ub_objectBuffer b') \<in> {map Path (ub_objectBuffer b), map Path (ub_objectBuffer b) @ [Path (snd req)]}"
    by (simp add: b' split: option.splits)
qed

lemma receive_all_buffers:
  assumes "receive_all L db reqs e b = Inr b'" and "buffers_ok L db b" and "find_project db (- 1) = None"
    and "distinct (map Path (ub_objectBuffer b) @ map (\<lambda>req. Path (snd req)) reqs)"
  shows "buffers_ok L db b' \<and> distinct (map Path (ub_objectBuffer b'))"
  using assms(1,2,4)
proof (induction reqs arbitrary: b)
  case Nil
  then show ?case by (auto split: option.splits)
next
  case (Cons req reqs)
  from Cons.prems(1) obtain b1 where b1: "receive L db req b = Inr b1" "receive_all L db reqs e b1 = Inr b'"
    by (auto split: sum.splits)
  note ok = receive_ok[OF b1(1) Cons.prems(2) assms(3)]
  from ok(2) consider "map Path (ub_objectBuffer b1) = map Path (ub_objectBuffer b)"
    | "map Path (ub_objectBuffer b1) = map Path (ub_objectBuffer b) @ [Path (snd req)]" by blast
  then have "distinct (map Path (ub_objectBuffer b1) @ map (\<lambda>req. Path (snd req)) reqs)"
    by cases (use Cons.prems(3) in simp_all)
  with Cons.IH[OF b1(2) ok(1)] show ?case by blast
qed

lemma buffers_disjoint:
  assumes "buffers_ok L db b" and "ub_packManager b = Some pm"
  shows "fst ` set (ub_packedBuffer b) \<inter> Path ` set (ub_objectBuffer b) = {}"
proof -
  have a: "IsPathPacked L pm q = None" if "q \<in> Path ` set (ub_objectBuffer b)" for q
    using assms that by (auto simp: buffers_ok_def list_all_iff)
  have "IsPathPacked L pm q = Some q" if "q \<in> fst ` set (ub_packedBuffer b)" for q
    using assms that by (auto simp: buffers_ok_def list_all_iff)
  with a have "q \<notin> Path ` set (ub_objectBuffer b)" if "q \<in> fst ` set (ub_packedBuffer b)" for q
    using that by (metis option.distinct(1))
  then show ?thesis by blast
qed

lemma write_update_writable:
  assumes "write_update F p v objs packs db = (db', Inr sh)" and "writable p v db" and "snd (head_of p v db) = {}"
    and "distinct (map Path objs)" and "distinct (map fst packs)" and "mset (fs_order F packs) = mset packs"
    and "fst ` set packs \<inter> Path ` set objs = {}"
    and "\<And>q packed. (p, q, packed) \<in> sigs db \<Longrightarrow> q \<in> fst ` set packs \<Longrightarrow> packed"
  shows "writable p v db'"
proof -
  let ?L = "fs_lib F"
  obtain d enc s where d: "foldM (update_object ?L p v) objs (NewContentEncoder, False) db = (d, Inr (enc, s))"
    "writable p v d" "head_of p v d = fold (spec_object ?L) objs (head_of p v db)"
    using update_objects_fold[OF assms(2,4), of ?L NewContentEncoder False] assms(3) by auto
  then have f: "foldM (update_packed ?L p v) (fs_order F packs) s d = (db', Inr sh)"
    using assms(1) by (simp add: write_update_def andThen_def)
  have order: "set (fs_order F packs) = set packs" "distinct (map fst (fs_order F packs))"
    using assms(5,6) by (metis set_mset_mset, metis mset_map mset_eq_imp_distinct_iff)
  have "snd (head_of p v d) \<subseteq> Path ` set objs"
    using fold_spec_object_written[of ?L objs "head_of p v db"] d(3) assms(3) by simp
  with assms(7) have dis: "fst ` set (fs_order F packs) \<inter> snd (head_of p v d) = {}" unfolding order(1) by blast
  have "adds (\<Union>ob \<in> set objs. {(p, Path ob, False)}) (foldM (update_object ?L p v) objs (NewContentEncoder, False))"
    by (rule adds_foldM) (rule adds_mono[OF adds_update_object], blast)
  from addsD[OF this d(1)] have sub: "sigs d \<subseteq> sigs db \<union> (\<Union>ob \<in> set objs. {(p, Path ob, False)})" .
  show ?thesis
  proof (rule update_packs_writable[OF f d(2) order(2) dis])
    fix q packed assume q: "(p, q, packed) \<in> sigs d" "q \<in> fst ` set (fs_order F packs)"
    then have "(p, q, packed) \<in> sigs db" using sub assms(7) order(1) by blast
    with assms(8) q(2) order(1) show packed by blast
  qed
qed

lemma state_ok_no_minus_one: "state_ok L db \<Longrightarrow> find_project db (- 1) = None"
  by (force simp: state_ok_def find_project_None)

lemma NewPackManager_patterns: "snd (NewPackManager L p db) = Inr pm \<Longrightarrow> find_project db p = Some pr \<Longrightarrow> pm = patterns_of pr"
  by (auto simp: NewPackManager_def patterns_of_def Let_def split: if_splits)

lemma update_body_state_ok:
  assumes "state_ok (fs_lib F) db" and "update_body F a reqs recvErr db = (d, Inr (True, v))"
    and "distinct (map (\<lambda>req. Path (snd req)) reqs)" and "\<And>xs. mset (fs_order F xs) = mset xs"
    and "\<And>p. is_int64 (latest_of db p + 1)"
  shows "state_ok (fs_lib F) d"
proof -
  let ?L = "fs_lib F"
  obtain b where b: "receive_all ?L db reqs recvErr
      \<lparr>ub_project = a, ub_packManager = None, ub_objectBuffer = [], ub_packedBuffer = []\<rparr> = Inr b"
    using assms(2) by (auto simp: update_body_def split: sum.splits)
  have ok: "buffers_ok ?L db b" "distinct (map Path (ub_objectBuffer b))"
    using receive_all_buffers[OF b _ state_ok_no_minus_one[OF assms(1)]] assms(3) by (simp_all add: buffers_ok_def)
  let ?p = "ub_project b"
  obtain pr d1 where run: "find_project db ?p = Some pr" "v = wrap64 (latest_version pr + 1)"
    "write_update F ?p v (ub_objectBuffer b) (ub_packedBuffer b) db = (d1, Inr True)" "UpdateLatestVersion ?p v d1 = (d, Inr ())"
    "\<not> (length (ub_objectBuffer b) = 0 \<and> length (ub_packedBuffer b) = 0)"
    using assms(2) b by (auto simp: update_body_def tx_simps Let_def split: if_splits)
  have lat: "latest_of db ?p = latest_version pr" using run(1) by (simp add: latest_of_def)
  have v: "v = latest_of db ?p + 1" using run(2) assms(5)[of ?p] lat by (simp add: wrap64_id)
  obtain pm where pm: "ub_packManager b = Some pm" using ok(1) run(5) by (cases "ub_packManager b") (auto simp: buffers_ok_def)
  have pats: "pm = patterns_of pr" using ok(1) pm run(1) by (auto simp: buffers_ok_def dest: NewPackManager_patterns)
  have stored: "IsPathPacked ?L (patterns_of pr) q = Some q \<Longrightarrow> (?p, q, packed) \<in> sigs db \<Longrightarrow> packed" for q packed
    using assms(1) run(1) by (fastforce simp: state_ok_def packed_stored_def)
  have self: "IsPathPacked ?L (patterns_of pr) q = Some q" if "q \<in> fst ` set (ub_packedBuffer b)" for q
    using ok(1) pm pats that by (auto simp: buffers_ok_def list_all_iff)
  have w0: "writable ?p v db" "snd (head_of ?p v db) = {}"
    using writableI[of db ?p v] assms(1) state_ok_latest[OF assms(1)] v by (simp_all add: state_ok_def)
  have packs: "distinct (map fst (ub_packedBuffer b))" using ok(1) pm by (simp add: buffers_ok_def)
  have w: "writable ?p v d1"
  proof (rule write_update_writable[OF run(3) w0 ok(2) packs assms(4) buffers_disjoint[OF ok(1) pm]])
    fix q packed assume q: "(?p, q, packed) \<in> sigs db" "q \<in> fst ` set (ub_packedBuffer b)"
    show packed by (rule stored[OF self[OF q(2)] q(1)])
  qed
  have frame: "projects d1 = projects db" using version_writer.frame[OF write_update_writer run(3)] by blast
  note L = latest_of_UpdateLatestVersion[OF run(4)]
  have find1: "find_project d1 q = find_project db q" for q using frame by (simp add: find_project_def)
  have "db_ok d"
    using w L(1,2,4) frame run(1) find1 db_okD(1)[of db] assms(1) unfolding db_ok_def writable_def list_all_iff state_ok_def
    by (simp add: latest_of_def)
  moreover have "0 \<le> p_id x \<and> 0 \<le> latest_version x" if "x \<in> set (projects d)" for x
  proof -
    have "projects d = map (\<lambda>r. if p_id r = ?p then r\<lparr>latest_version := v\<rparr> else r) (projects db)"
      using run(4) frame by (auto simp: UpdateLatestVersion_def update_projects_def)
    with that show ?thesis using assms(1) v state_ok_latest[OF assms(1), of ?p] by (auto simp: state_ok_def)
  qed
  moreover have "packed_stored ?L d"
  proof -
    let ?A = "{(?p, Path ob, False) | ob. ob \<in> set (ub_objectBuffer b)} \<union> {(?p, q, True) | q. True}"
    have "adds ?A (write_update F ?p v (ub_objectBuffer b) (ub_packedBuffer b))"
      by (rule adds_write_update) (metis assms(4) set_mset_mset)
    from addsD[OF this run(3)] have sub: "sigs d \<subseteq> sigs db \<union> ?A" using L(2) by (simp add: sigs_def)
    have same: "\<exists>y. find_project db p = Some y \<and> patterns_of x = patterns_of y" if "find_project d p = Some x" for p x
      using that L(5)[of p] find1 by (auto split: if_splits)
    have new: "packed" if "(p, q, packed) \<in> ?A" "find_project d p = Some x" "IsPathPacked ?L (patterns_of x) q = Some q" for p q packed x
      using that same[OF that(2)] run(1) ok(1) pm pats by (auto simp: buffers_ok_def list_all_iff)
    have "packed_stored ?L db" using assms(1) by (simp add: state_ok_def)
    then show ?thesis by (rule packed_stored_add[OF _ sub disjI1[OF same] new])
  qed
  ultimately show ?thesis by (simp add: state_ok_def)
qed

section \<open>The other writing handlers keep the invariant\<close>

lemma state_ok_projects:
  assumes "state_ok L db" and "0 \<le> v"
    and "projects d = map (\<lambda>r. if p_id r = p then r\<lparr>latest_version := v\<rparr> else r) (projects db)"
  shows "\<forall>x \<in> set (projects d). 0 \<le> p_id x \<and> 0 \<le> latest_version x"
    and "find_project d q = Some x \<Longrightarrow> \<exists>y. find_project db q = Some y \<and> patterns_of x = patterns_of y"
proof -
  show "\<forall>x \<in> set (projects d). 0 \<le> p_id x \<and> 0 \<le> latest_version x" using assms by (auto simp: state_ok_def)
  have "find_project d q = map_option (\<lambda>r. if p_id r = p then r\<lparr>latest_version := v\<rparr> else r) (find_project db q)"
    unfolding find_project_def assms(3) by (rule find_map_key) simp
  then show "find_project d q = Some x \<Longrightarrow> \<exists>y. find_project db q = Some y \<and> patterns_of x = patterns_of y"
    by (auto split: if_splits)
qed

lemma coalesced_of: "find_project db p = Some pr \<Longrightarrow> coalesced_patterns db p = matchers (patterns_of pr)"
  by (auto simp: coalesced_patterns_def patterns_of_def split: option.splits)

lemma patterns_of_eq: "matchers (patterns_of a) = matchers (patterns_of b) \<Longrightarrow> patterns_of a = patterns_of b"
  by (simp add: patterns_of_def)

text \<open>Rows copied from a project with the same patterns are packed where they have to be.\<close>

lemma copied_stored:
  assumes "state_ok L db" and "coalesced_patterns db source = coalesced_patterns db target"
    and "(source, q, packed) \<in> sigs db" and "find_project db target = Some t" and "IsPathPacked L (patterns_of t) q = Some q"
  shows packed
proof -
  obtain r where "r \<in> set (objects db)" "o_project r = source" using assms(3) by (auto simp: sigs_def sig_def)
  then obtain s where s: "find_project db source = Some s"
    using db_ok_no_rows[of db r] assms(1) by (auto simp: state_ok_def)
  then have "patterns_of s = patterns_of t" using assms(2,4) by (intro patterns_of_eq) (simp add: coalesced_of)
  then show ?thesis using assms(1,3,5) s by (fastforce simp: state_ok_def packed_stored_def)
qed

lemma build_sigs: "d \<in> set (build L qb db) \<Longrightarrow> (qb_project qb, d_path d, d_packed d) \<in> sigs db"
proof -
  have row: "(qb_project qb, o_path r, o_packed r) \<in> sigs db" if "r \<in> set (objects db)" "o_project r = qb_project qb" for r
    using that by (force simp: sigs_def sig_def)
  assume "d \<in> set (build L qb db)"
  then obtain r where "r \<in> set (objects db)" "o_project r = qb_project qb" "d_path d = o_path r" "d_packed d = o_packed r"
    by (auto simp: build_def queryWithoutRemovals_def queryWithRemovals_def updatedObjectsCTE_def removedObjectsCTE_def
        possibleObjectsCTE_def Let_def split: if_splits)
  with row[of r] show ?thesis by simp
qed

lemma clone_sigs:
  assumes "CloneToProject L source target version v db = (d, Inr ())"
  shows "sigs d \<subseteq> sigs db \<union> {(target, q, packed) | q packed. (source, q, packed) \<in> sigs db}"
proof -
  let ?sb = "whole source \<lparr>From = 0, To = version\<rparr>"
  obtain d1 where d1: "clone_remove L ?sb (whole target \<lparr>From = 0, To = v - 1\<rparr>) target v db = (d1, Inr ())"
    "clone_insert L ?sb target v d1 = (d, Inr ())"
    using assms by (auto simp: CloneToProject_whole andThen_def split: prod.splits sum.splits)
  have "adds {} (update_objects sel (\<lambda>r. r\<lparr>o_stop := Some v\<rparr>))" for sel by (rule adds_stop)
  then have rem: "sigs d1 \<subseteq> sigs db" using d1(1) by (force simp: clone_remove_def Let_def dest: addsD)
  let ?ds = "filter (\<lambda>d. \<not> d_deleted d) (build L ?sb d1)"
  have "adds {(target, q, packed) | q packed. (source, q, packed) \<in> sigs d1}
      (foldM (\<lambda>d _. andThen (insert_ignore (clone_row target v d)) (\<lambda>_. ret ())) ?ds ())"
    by (rule adds_foldM, rule adds_andThen[OF adds_insert_ignore adds_ret])
      (use build_sigs[of _ L ?sb d1] in \<open>auto simp: clone_row_def sig_def\<close>)
  from addsD[OF this, of d1 d] d1(2) have "sigs d \<subseteq> sigs d1 \<union> {(target, q, packed) | q packed. (source, q, packed) \<in> sigs d1}"
    by (simp add: clone_insert_def Let_def)
  with rem show ?thesis by blast
qed

lemma clone_state_ok:
  assumes "state_ok L db" and "find_project db target = Some pr" and "v = latest_version pr + 1"
    and "coalesced_patterns db source = coalesced_patterns db target" and "source = target \<longrightarrow> version < v"
    and "CloneToProject L source target version v db = (d1, Inr ())" and "UpdateLatestVersion target v d1 = (d, Inr ())"
  shows "state_ok L d"
proof -
  have lat: "latest_of db target = latest_version pr" using assms(2) by (simp add: latest_of_def)
  have pos: "0 \<le> latest_of db target" by (rule state_ok_latest[OF assms(1)])
  have w: "writable target v d1"
    using CloneToProject_result[of db target v source version L] assms(1,3,5,6) lat pos by (auto simp: state_ok_def)
  have frame: "projects d1 = projects db" using cln.frame[OF assms(6)] by blast
  then have find1: "find_project d1 q = find_project db q" for q by (simp add: find_project_def)
  note L = latest_of_UpdateLatestVersion[OF assms(7)]
  have "db_ok d"
    using w L(1,2,4) frame assms(1,2) find1 unfolding db_ok_def writable_def list_all_iff state_ok_def
    by (simp add: latest_of_def)
  moreover have "projects d = map (\<lambda>r. if p_id r = target then r\<lparr>latest_version := v\<rparr> else r) (projects db)"
    using assms(7) frame by (auto simp: UpdateLatestVersion_def update_projects_def)
  note proj = state_ok_projects[OF assms(1) _ this]
  have "sigs d = sigs d1" using L(2) by (simp add: sigs_def)
  then have sub: "sigs d \<subseteq> sigs db \<union> {(target, q, packed) | q packed. (source, q, packed) \<in> sigs db}"
    using clone_sigs[OF assms(6)] by simp
  have "packed_stored L d"
  proof (rule packed_stored_add[OF _ sub])
    show "packed_stored L db" using assms(1) by (simp add: state_ok_def)
    show "(\<exists>y. find_project db p = Some y \<and> patterns_of x = patterns_of y) \<or> (\<forall>s \<in> sigs db. fst s \<noteq> p)"
      if "find_project d p = Some x" for p x using proj(2) that lat pos assms(3) by simp
    fix p q packed x
    assume a: "(p, q, packed) \<in> {(target, q, packed) | q packed. (source, q, packed) \<in> sigs db}"
      "find_project d p = Some x" "IsPathPacked L (patterns_of x) q = Some q"
    then have "(source, q, packed) \<in> sigs db" "patterns_of x = patterns_of pr"
      using proj(2)[OF _ a(2)] lat pos assms(2,3) by auto
    then show packed using copied_stored[OF assms(1,4) _ assms(2)] a(3) by simp
  qed
  ultimately show ?thesis using proj(1) lat pos assms(3) by (simp add: state_ok_def)
qed

lemma CreateProject_state_ok:
  assumes "state_ok L db" and "0 \<le> p" and "CreateProject p pats db = (d, Inr ())"
  shows "state_ok L d" and "\<And>r. r \<in> set (objects d) \<Longrightarrow> o_project r \<noteq> p" and "find_project d p \<noteq> None"
proof -
  let ?new = "\<lparr>p_id = p, latest_version = 0, pack_patterns = pats\<rparr>"
  have none: "find_project db p = None" and d: "d = db\<lparr>projects := projects db @ [?new]\<rparr>"
    using assms(3) by (auto simp: CreateProject_def split: if_splits)
  have ok: "db_ok db" using assms(1) by (simp add: state_ok_def)
  show norow: "o_project r \<noteq> p" if "r \<in> set (objects d)" for r using db_ok_no_rows[OF ok, of r] none that by (auto simp: d)
  have find: "find_project d q = (if q = p then Some ?new else find_project db q)" for q
    using none by (auto simp: d find_project_def find_append_case split: option.splits)
  then show "find_project d p \<noteq> None" by simp
  have "packed_stored L d"
  proof (rule packed_stored_sub)
    show "packed_stored L db" using assms(1) by (simp add: state_ok_def)
    show "sigs d \<subseteq> sigs db" by (simp add: d)
    show "(\<exists>y. find_project db q = Some y \<and> patterns_of x = patterns_of y) \<or> (\<forall>s \<in> sigs db. fst s \<noteq> q)"
      if "find_project d q = Some x" for q x
    proof (cases "q = p")
      case True
      then show ?thesis using norow by (auto simp: sigs_def sig_def d)
    qed (use that find in auto)
  qed
  then show "state_ok L d" using CreateProject_ok[OF ok assms(3)] assms(1,2) by (auto simp: state_ok_def d)
qed

lemma CopyAllObjects_Inr:
  assumes "CopyAllObjects source target db = (d, Inr ())" and "find_project db target \<noteq> None"
  shows "\<exists>s. find_project db source = Some s \<and> coalesced_patterns db source = coalesced_patterns db target \<and>
    objects d = objects db @ map (\<lambda>r. r\<lparr>o_project := target\<rparr>) (filter (\<lambda>r. o_project r = source \<and> o_stop r = None) (objects db)) \<and>
    projects d = map (\<lambda>r. if p_id r = target then r\<lparr>latest_version := latest_version s\<rparr> else r) (projects db)"
proof -
  have f: "find_project (db\<lparr>objects := rs\<rparr>) q = find_project db q" for rs q by (simp add: find_project_def)
  show ?thesis
    using assms by (auto simp: CopyAllObjects_def HasSamePackPattern_def andThen_def insert_objects_def set_objects_def
        update_projects_def f split: if_splits option.splits)
qed

lemma copy_state_ok:
  assumes "state_ok L db" and "find_project db target \<noteq> None" and "\<And>r. r \<in> set (objects db) \<Longrightarrow> o_project r \<noteq> target"
    and "CopyAllObjects source target db = (d, Inr ())"
  shows "state_ok L d"
proof -
  obtain s where s: "find_project db source = Some s" "coalesced_patterns db source = coalesced_patterns db target"
    and obj: "objects d = objects db @ map (\<lambda>r. r\<lparr>o_project := target\<rparr>) (filter (\<lambda>r. o_project r = source \<and> o_stop r = None) (objects db))"
    and prj: "projects d = map (\<lambda>r. if p_id r = target then r\<lparr>latest_version := latest_version s\<rparr> else r) (projects db)"
    using CopyAllObjects_Inr[OF assms(4,2)] by blast
  obtain t where t: "find_project db target = Some t" using assms(2) by blast
  have ok: "db_ok db" using assms(1) by (simp add: state_ok_def)
  have "0 \<le> latest_version s" using state_ok_latest[OF assms(1), of source] s(1) by (simp add: latest_of_def)
  note proj = state_ok_projects[OF assms(1) this prj]
  have "db_ok d"
  proof (cases "source = target")
    case False
    then show ?thesis using CopyAllObjects_result[OF ok False s(1) t s(2) assms(3)] assms(4) by auto
  next
    case True
    then have rows: "objects d = objects db" using obj assms(3) by (auto simp: filter_empty_conv)
    have "r = s" if "r \<in> set (projects db)" "p_id r = target" for r
      using distinct_map_inj_on_set[OF db_okD(1)[OF ok] that(1), of s] find_project_Some[OF s(1)] that True by simp
    then have "projects d = projects db" unfolding prj by (intro map_idI) auto
    with rows ok show ?thesis by (simp add: db_ok_def latest_of_def find_project_def)
  qed
  moreover have "packed_stored L d"
  proof (rule packed_stored_add[where A = "{(target, q, packed) | q packed. (source, q, packed) \<in> sigs db}"])
    show "packed_stored L db" using assms(1) by (simp add: state_ok_def)
    show "sigs d \<subseteq> sigs db \<union> {(target, q, packed) | q packed. (source, q, packed) \<in> sigs db}"
      unfolding sigs_def obj by (force simp: sig_def)
    show "(\<exists>y. find_project db p = Some y \<and> patterns_of x = patterns_of y) \<or> (\<forall>s \<in> sigs db. fst s \<noteq> p)"
      if "find_project d p = Some x" for p x using proj(2) that by simp
    fix p q packed x
    assume a: "(p, q, packed) \<in> {(target, q, packed) | q packed. (source, q, packed) \<in> sigs db}"
      "find_project d p = Some x" "IsPathPacked L (patterns_of x) q = Some q"
    then have "(source, q, packed) \<in> sigs db" "patterns_of x = patterns_of t" using proj(2)[OF a(2)] t by auto
    then show packed using copied_stored[OF assms(1) s(2) _ t] a(3) by simp
  qed
  ultimately show ?thesis using proj(1) by (simp add: state_ok_def)
qed

text \<open>Dropping rows, and with them projects.\<close>

lemma state_ok_drop:
  assumes "state_ok L db" and "db_ok d" and "sigs d \<subseteq> sigs db" and "set (projects d) \<subseteq> set (projects db)"
  shows "state_ok L d"
proof -
  have same: "find_project db p = Some x" if "find_project d p = Some x" for p x
  proof -
    have x: "x \<in> set (projects db)" "p_id x = p" using find_project_Some[OF that] assms(4) by auto
    then obtain y where y: "find_project db p = Some y" using find_project_None[of db p] by (cases "find_project db p") auto
    have "x = y" using distinct_map_inj_on_set[of p_id "projects db" x y] x find_project_Some[OF y] assms(1)
      by (simp add: state_ok_def db_ok_def)
    with y show ?thesis by simp
  qed
  have "packed_stored L d" by (rule packed_stored_sub[OF _ assms(3)]) (use assms(1) same in \<open>auto simp: state_ok_def\<close>)
  with assms show ?thesis by (auto simp: state_ok_def)
qed

lemma sigs_filter: "sigs (db\<lparr>objects := filter P (objects db)\<rparr>) \<subseteq> sigs db"
  by (auto simp: sigs_def)

lemma DeleteProject_state_ok: "state_ok L db \<Longrightarrow> state_ok L (fst (DeleteProject p db))"
  by (rule state_ok_drop) (auto simp: state_ok_def DeleteProject_ok, auto simp: DeleteProject_eq sigs_def)

lemma DropOtherProjects_state_ok: "state_ok L db \<Longrightarrow> state_ok L (fst (DropOtherProjects ps db))"
  by (rule state_ok_drop) (auto simp: state_ok_def DropOtherProjects_ok, auto simp: DropOtherProjects_eq sigs_def)

lemma GcProjectObjects_state_ok: "state_ok L db \<Longrightarrow> GcProjectObjects p keep from db = (d, r) \<Longrightarrow> state_ok L d"
proof (rule state_ok_drop)
  assume a: "state_ok L db" "GcProjectObjects p keep from db = (d, r)"
  show "db_ok d" using GcProjectObjects_ok[OF _ a(2)] a(1) by (simp add: state_ok_def)
  show "sigs d \<subseteq> sigs db" using GcProjectObjects_frame(4)[OF a(2)] by (auto simp: sigs_def)
  show "set (projects d) \<subseteq> set (projects db)" using GcProjectObjects_frame(1)[OF a(2)] by simp
qed

lemma GcProjectsObjects_state_ok: "state_ok L db \<Longrightarrow> GcProjectsObjects ps keep from db = (d, r) \<Longrightarrow> state_ok L d"
proof (induction ps arbitrary: db d r)
  case (Cons p ps)
  obtain d1 x where d1: "GcProjectObjects p keep from db = (d1, x)" by (cases "GcProjectObjects p keep from db")
  have ok: "state_ok L d1" by (rule GcProjectObjects_state_ok[OF Cons.prems(1) d1])
  obtain d2 y where d2: "GcProjectsObjects ps keep from d1 = (d2, y)" by (cases "GcProjectsObjects ps keep from d1")
  have "state_ok L d2" by (rule Cons.IH[OF ok d2])
  then show ?case using Cons.prems(2) d1 d2 ok by (auto simp: andThen_def split: sum.splits)
qed simp

lemma state_ok_unchanged [simp]:
  "state_ok L (db\<lparr>contents := cs\<rparr>) = state_ok L db"
  "state_ok L (db\<lparr>cache_versions := vs, cache_seq := n\<rparr>) = state_ok L db"
  by (simp_all add: state_ok_def db_ok_def packed_stored_def find_project_def latest_of_def sigs_def)

lemma GcContentHashes_state_ok: "state_ok L db \<Longrightarrow> GcContentHashes hs db = (d, r) \<Longrightarrow> state_ok L d"
  by (auto simp: GcContentHashes_eq)

lemma ResetProject_state_ok:
  assumes "state_ok L db" and "0 \<le> n" and "ResetProject p n db = (d, r)"
  shows "state_ok L d"
proof -
  have ok: "db_ok db" using assms(1) by (simp add: state_ok_def)
  obtain d' where d': "ResetProject p n db = (d', Inr ())" "db_ok d'" "objects d' = rewind p n (objects db)"
    using ResetProject_ok[OF ok] by blast
  then have d: "d = d'" using assms(3) by simp
  have "projects d = map (\<lambda>r. if p_id r = p then r\<lparr>latest_version := n\<rparr> else r) (projects db)"
    using assms(3) by (auto simp: ResetProject_eq UpdateLatestVersion_def update_projects_def Let_def split: if_splits)
  note proj = state_ok_projects[OF assms(1,2) this]
  have "sig (reopen n x) = sig x" for x by (auto simp: sig_def reopen_def split: option.splits)
  then have sub: "sigs d \<subseteq> sigs db" unfolding sigs_def d d'(3) by (auto simp: in_rewind split: if_splits)
  have "packed_stored L d" by (rule packed_stored_sub[OF _ sub]) (use assms(1) proj(2) in \<open>auto simp: state_ok_def\<close>)
  with d d'(2) proj(1) show ?thesis by (simp add: state_ok_def)
qed

lemma reset_projects_state_ok:
  "state_ok L db \<Longrightarrow> \<forall>v \<in> snd ` set ps. 0 \<le> v \<Longrightarrow> reset_projects ps db = (d, Inr ()) \<Longrightarrow> state_ok L d"
proof (induction ps arbitrary: db)
  case (Cons a ps)
  obtain p v where a: "a = (p, v)" by (cases a)
  obtain d1 where d1: "ResetProject p v db = (d1, Inr ())" "reset_projects ps d1 = (d, Inr ())"
    using Cons.prems(3) a by (auto simp: andThen_def split: prod.splits sum.splits)
  have "state_ok L d1" using ResetProject_state_ok[OF Cons.prems(1) _ d1(1)] Cons.prems(2) a by simp
  with Cons.IH[OF _ _ d1(2)] Cons.prems(2) show ?case by simp
qed simp

section \<open>The service as a state machine\<close>

text \<open>
  One call of a handler, in any environment \<open>F\<close> over the library \<open>L\<close>. The guards are what the
  clients of the repository respect: identifiers and versions are not negative, an update names
  each path once, a project is cloned onto itself only from a version it has, and version
  numbers stay below the largest one.
\<close>

inductive serves :: "lib \<Rightarrow> DB \<Rightarrow> DB \<Rightarrow> bool" for L where
  new_project: "fs_lib F = L \<Longrightarrow> 0 \<le> np_Id req \<Longrightarrow> Fs_NewProject F ctx req db = (db', r1) \<Longrightarrow> serves L db db'"
| clone: "fs_lib F = L \<Longrightarrow> cp_Source req = cp_Target req \<longrightarrow> cp_Version req \<le> latest_of db (cp_Target req) \<Longrightarrow>
    is_int64 (latest_of db (cp_Target req) + 1) \<Longrightarrow> Fs_CloneToProject F ctx req db = (db', r2) \<Longrightarrow> serves L db db'"
| delete: "Fs_DeleteProject F ctx p db = (db', r3) \<Longrightarrow> serves L db db'"
| list_projects: "Fs_ListProjects F ctx db = (db', r4) \<Longrightarrow> serves L db db'"
| get: "Fs_Get F ctx g db = (db', r5) \<Longrightarrow> serves L db db'"
| get_unary: "Fs_GetUnary F ctx g db = (db', r6) \<Longrightarrow> serves L db db'"
| get_compress: "Fs_GetCompress F ctx g db = (db', r7) \<Longrightarrow> serves L db db'"
| inspect: "Fs_Inspect F ctx p db = (db', r8) \<Longrightarrow> serves L db db'"
| get_cache: "Fs_GetCache F ctx db = (db', r9) \<Longrightarrow> serves L db db'"
| update: "fs_lib F = L \<Longrightarrow> distinct (map (\<lambda>m. Path (snd m)) reqs) \<Longrightarrow> \<forall>xs. mset (fs_order F xs) = mset xs \<Longrightarrow>
    \<forall>p. is_int64 (latest_of db p + 1) \<Longrightarrow> Fs_Update F ctx reqs recvErr db = (db', r10) \<Longrightarrow> serves L db db'"
| rollback: "0 \<le> v \<Longrightarrow> Fs_Rollback F ctx p v db = (db', r11) \<Longrightarrow> serves L db db'"
| snapshot: "Fs_Snapshot F ctx db = (db', r12) \<Longrightarrow> serves L db db'"
| reset: "\<forall>v \<in> snd ` set ps. 0 \<le> v \<Longrightarrow> Fs_Reset F ctx ps db = (db', r13) \<Longrightarrow> serves L db db'"
| gc_project: "Fs_GcProject F ctx p keep from db = (db', r14) \<Longrightarrow> serves L db db'"
| gc_random: "Fs_GcRandomProjects F ctx sample keep from db = (db', r15) \<Longrightarrow> serves L db db'"
| gc_contents: "Fs_GcContents F ctx sampled db = (db', r16) \<Longrightarrow> serves L db db'"
| create_cache: "CreateCache pre limit db = (db', r17) \<Longrightarrow> serves L db db'"

inductive reachable :: "lib \<Rightarrow> DB \<Rightarrow> bool" for L where
  start: "reachable L empty_DB"
| step: "reachable L db \<Longrightarrow> serves L db db' \<Longrightarrow> reachable L db'"

inductive_cases reachableE: "reachable L db"

lemma admin_only_cases: "admin_only ctx h db = (db', r) \<Longrightarrow> db' = db \<or> h db = (db', r)"
  by (auto simp: admin_only_def split: option.splits)

lemma project_access_cases: "project_access ctx p h db = (db', r) \<Longrightarrow> db' = db \<or> h db = (db', r)"
  by (auto simp: project_access_def split: sum.splits if_splits)

lemma dev_or_test_cases: "dev_or_test F h db = (db', r) \<Longrightarrow> db' = db \<or> h db = (db', r)"
  by (auto simp: dev_or_test_def split: if_splits)

text \<open>A transaction that is never committed changes nothing that matters.\<close>

lemma reading_state_ok:
  assumes "state_ok L db" and "in_tx F body db = (db', r)" and "\<And>d a. body db \<noteq> (d, Inr (True, a))"
  shows "state_ok L db'"
  by (rule in_tx_state_ok[OF assms(1,2)]) (use assms(3) in blast)

lemma reads_state_ok:
  assumes "state_ok L db"
  shows "Fs_ListProjects F ctx db = (db', r4) \<Longrightarrow> state_ok L db'" and "Fs_Snapshot F ctx db = (db', r4) \<Longrightarrow> state_ok L db'"
    and "Fs_Get F ctx g db = (db', r5) \<Longrightarrow> state_ok L db'" and "Fs_GetUnary F ctx g db = (db', r6) \<Longrightarrow> state_ok L db'"
    and "Fs_GetCompress F ctx g db = (db', r7) \<Longrightarrow> state_ok L db'" and "Fs_Inspect F ctx p db = (db', r8) \<Longrightarrow> state_ok L db'"
    and "Fs_GetCache F ctx db = (db', r9) \<Longrightarrow> state_ok L db'"
  unfolding Fs_ListProjects_def Fs_Snapshot_def Fs_Get_def Fs_GetUnary_def Fs_GetCompress_def Fs_Inspect_def Fs_GetCache_def
  using assms
  by (auto simp: tx_simps stop_tx_def split: option.splits sum.splits dest!: dev_or_test_cases admin_only_cases project_access_cases
      elim!: reading_state_ok[OF assms])

lemma Fs_NewProject_state_ok:
  assumes "state_ok L db" and "0 \<le> np_Id req" and "Fs_NewProject F ctx req db = (db', r)"
  shows "state_ok L db'"
proof -
  let ?new = "CreateProject (np_Id req) (if np_PackPatterns req = [] then None else Some (np_PackPatterns req))"
  let ?body = "thenC (coded (\<lambda>e. if e = ErrProjectExists then AlreadyExists else Internal) ?new) (\<lambda>_.
        thenC (case np_Template req of
                 None \<Rightarrow> (\<lambda>db. (db, Inr ()))
               | Some template \<Rightarrow> coded internal (CopyAllObjects template (np_Id req))) (\<lambda>_. done_tx True ()))"
  have "state_ok L d" if b: "?body db = (d, Inr (True, a))" for d a
  proof -
    obtain d1 and u w :: unit where "?new db = (d1, Inr u)"
      "(case np_Template req of None \<Rightarrow> (\<lambda>db. (db, Inr ())) | Some template \<Rightarrow> coded internal (CopyAllObjects template (np_Id req))) d1 = (d, Inr w)"
      using b by (auto simp only: tx_simps)
    then have d1: "?new db = (d1, Inr ())"
      "(case np_Template req of None \<Rightarrow> (\<lambda>db. (db, Inr ())) | Some template \<Rightarrow> coded internal (CopyAllObjects template (np_Id req))) d1 = (d, Inr ())"
      by simp_all
    note new = CreateProject_state_ok[OF assms(1,2) d1(1)]
    show ?thesis
    proof (cases "np_Template req")
      case None
      with d1(2) new(1) show ?thesis by simp
    next
      case (Some t)
      with d1(2) have "CopyAllObjects t (np_Id req) d1 = (d, Inr ())" by (simp add: coded_Inr)
      then show ?thesis using copy_state_ok[OF new(1,3)] new(2) by blast
    qed
  qed
  then show ?thesis
    using admin_only_cases[OF assms(3)[unfolded Fs_NewProject_def]] assms(1) in_tx_state_ok[OF assms(1), of F ?body db' r] by blast
qed

lemma Fs_DeleteProject_state_ok:
  assumes "state_ok L db" and "Fs_DeleteProject F ctx p db = (db', r)"
  shows "state_ok L db'"
  using assms(2) DeleteProject_state_ok[OF assms(1), of p] unfolding Fs_DeleteProject_def
  by (auto simp: tx_simps intro: assms(1) dest!: admin_only_cases elim!: in_tx_state_ok[OF assms(1)])

lemma Fs_Rollback_state_ok:
  assumes "state_ok L db" and "0 \<le> v" and "Fs_Rollback F ctx p v db = (db', r)"
  shows "state_ok L db'"
  using assms(3) ResetProject_state_ok[OF assms(1,2), of p] unfolding Fs_Rollback_def
  by (auto simp: tx_simps intro: assms(1) dest!: admin_only_cases elim!: in_tx_state_ok[OF assms(1)])

lemma Fs_CloneToProject_state_ok:
  assumes "state_ok L db" and "fs_lib F = L" and "cp_Source req = cp_Target req \<longrightarrow> cp_Version req \<le> latest_of db (cp_Target req)"
    and "is_int64 (latest_of db (cp_Target req) + 1)" and "Fs_CloneToProject F ctx req db = (db', r)"
  shows "state_ok L db'"
proof -
  let ?body = "thenC (coded internal (HasSamePackPattern (cp_Source req) (cp_Target req))) (\<lambda>samePackPatterns.
        if \<not> samePackPatterns then stop_tx InvalidArgument
        else
          thenC (coded internal (LockLatestVersion (cp_Target req))) (\<lambda>latestVersion.
          let newVersion = wrap64 (latestVersion + 1) in
          thenC (coded internal (CloneToProject (fs_lib F) (cp_Source req) (cp_Target req) (cp_Version req) newVersion)) (\<lambda>_.
          thenC (coded internal (UpdateLatestVersion (cp_Target req) newVersion)) (\<lambda>_.
          done_tx True newVersion))))"
  have "state_ok L d" if b: "?body db = (d, Inr (True, a))" for d a
  proof -
    obtain pr d1 where "find_project db (cp_Target req) = Some pr" "a = wrap64 (latest_version pr + 1)"
      "coalesced_patterns db (cp_Source req) = coalesced_patterns db (cp_Target req)"
      "CloneToProject L (cp_Source req) (cp_Target req) (cp_Version req) a db = (d1, Inr ())"
      "UpdateLatestVersion (cp_Target req) a d1 = (d, Inr ())"
      using b assms(2) by (auto simp: tx_simps HasSamePackPattern_def stop_tx_def Let_def split: if_splits)
    then show ?thesis using clone_state_ok[OF assms(1), of "cp_Target req" pr a "cp_Source req" "cp_Version req" d1 d] assms(3,4)
      by (auto simp: latest_of_def wrap64_id)
  qed
  then show ?thesis
    using admin_only_cases[OF assms(5)[unfolded Fs_CloneToProject_def]] assms(1) in_tx_state_ok[OF assms(1), of F ?body db' r] by blast
qed

lemma Fs_Update_state_ok:
  assumes "state_ok (fs_lib F) db" and "distinct (map (\<lambda>m. Path (snd m)) reqs)" and "\<forall>xs. mset (fs_order F xs) = mset xs"
    and "\<forall>p. is_int64 (latest_of db p + 1)" and "Fs_Update F ctx reqs recvErr db = (db', r)"
  shows "state_ok (fs_lib F) db'"
proof (cases "requireProjectAuth ctx")
  case (Inl c)
  with assms(1,5) show ?thesis by (simp add: Fs_Update_def)
next
  case (Inr a)
  with assms(5) have "in_tx F (update_body F a reqs recvErr) db = (db', r)" by (simp add: Fs_Update_def)
  then show ?thesis
    by (rule in_tx_state_ok[OF assms(1)]) (use update_body_state_ok[OF assms(1) _ assms(2)] assms(3,4) in blast)
qed

lemma Fs_Reset_state_ok:
  assumes "state_ok L db" and "\<forall>v \<in> snd ` set ps. 0 \<le> v" and "Fs_Reset F ctx ps db = (db', r)"
  shows "state_ok L db'"
proof -
  have all: "state_ok L d" if "ResetAll db = (d, Inr ())" for d
    using that by (auto simp: ResetAll_def state_ok_def db_ok_def packed_stored_def sigs_def)
  have some: "state_ok L d" if run: "andThen (reset_projects ps) (\<lambda>_. DropOtherProjects (map fst ps)) db = (d, Inr ())" for d
  proof -
    obtain d1 where d1: "reset_projects ps db = (d1, Inr ())" "DropOtherProjects (map fst ps) d1 = (d, Inr ())"
      using run by (auto simp: andThen_def split: prod.splits sum.splits)
    have "state_ok L d1" by (rule reset_projects_state_ok[OF assms(1,2) d1(1)])
    then show ?thesis using DropOtherProjects_state_ok[of L d1 "map fst ps"] d1(2) by simp
  qed
  show ?thesis
    using assms(3) unfolding Fs_Reset_def
    by (auto simp: tx_simps intro: assms(1) all some dest!: dev_or_test_cases admin_only_cases
        elim!: in_tx_state_ok[OF assms(1)] split: if_splits)
qed

lemma gc_state_ok:
  assumes "state_ok L db"
  shows "Fs_GcProject F ctx p keep from db = (db', r14) \<Longrightarrow> state_ok L db'"
    and "Fs_GcRandomProjects F ctx sample keep from db = (db', r15) \<Longrightarrow> state_ok L db'"
    and "Fs_GcContents F ctx sampled db = (db', r16) \<Longrightarrow> state_ok L db'"
proof -
  assume "Fs_GcProject F ctx p keep from db = (db', r14)"
  from Fs_GcProject_cases[OF this] show "state_ok L db'"
    using assms GcProjectObjects_state_ok[OF assms] GcContentHashes_state_ok by (metis prod.collapse)
next
  assume "Fs_GcRandomProjects F ctx sample keep from db = (db', r15)"
  moreover obtain d x where d: "GcProjectsObjects (random_projects 5 0 sample db []) keep (case from of None \<Rightarrow> 0 | Some v \<Rightarrow> v) db = (d, x)"
    by (cases "GcProjectsObjects (random_projects 5 0 sample db []) keep (case from of None \<Rightarrow> 0 | Some v \<Rightarrow> v) db")
  moreover have "state_ok L d" by (rule GcProjectsObjects_state_ok[OF assms d])
  ultimately show "state_ok L db'"
    using assms unfolding Fs_GcRandomProjects_def RandomProjects_def
    by (cases x) (auto simp: thenC_def coded_def stop_tx_def GcContentHashes_eq Let_def split: if_splits dest!: admin_only_cases)
next
  assume "Fs_GcContents F ctx sampled db = (db', r16)"
  then show "state_ok L db'"
    unfolding Fs_GcContents_def by (auto simp: coded_def GcContentHashes_eq assms dest!: admin_only_cases)
qed

lemmas handlers_state_ok = reads_state_ok Fs_NewProject_state_ok Fs_CloneToProject_state_ok Fs_DeleteProject_state_ok
  Fs_Rollback_state_ok Fs_Reset_state_ok gc_state_ok

lemma serves_state_ok:
  assumes "serves L db db'" and "state_ok L db"
  shows "state_ok L db'"
  using assms(1)
proof cases
  case (update F reqs ctx recvErr r10)
  then show ?thesis using Fs_Update_state_ok[of F db reqs ctx recvErr db' r10] assms(2) by simp
next
  case (create_cache pre limit r17)
  then show ?thesis using assms(2) by (auto simp: CreateCache_def Let_def split: if_splits)
qed (rule handlers_state_ok[OF assms(2)], assumption+)+

lemma reachable_state_ok: "reachable L db \<Longrightarrow> state_ok L db"
proof (induction rule: reachable.induct)
  case start
  then show ?case by (simp add: state_ok_def empty_DB_ok packed_stored_def sigs_def, simp add: empty_DB_def)
next
  case (step db db')
  then show ?case by (blast intro: serves_state_ok)
qed

end
