(* ===== verification/Restores.thy ===== *)
theory Restores
  imports Admins
begin

text \<open>
  The workflow of a test suite: \<^verbatim>\<open>Snapshot\<close> lists the projects and their versions, updates
  follow, \<^verbatim>\<open>Reset\<close> with the list undoes all of them at once.
\<close>

section \<open>Rewinding all projects\<close>

definition rewind_all :: "(int \<Rightarrow> int) \<Rightarrow> object_row list \<Rightarrow> object_row list" where
  "rewind_all f rs = map (\<lambda>r. reopen (f (o_project r)) r) (filter (\<lambda>r. o_start r \<le> f (o_project r)) rs)"

lemma reopen_reopen: "n \<le> m \<Longrightarrow> reopen n (reopen m r) = reopen n r"
  by (auto simp: reopen_def split: option.splits)

lemma rewind_all_rewind: "f p \<le> m \<Longrightarrow> rewind_all f (rewind p m rs) = rewind_all f rs"
proof (induction rs)
  case (Cons r rs)
  then show ?case by (cases "o_project r = p") (auto simp: rewind_Cons rewind_all_def reopen_reopen)
qed (simp add: rewind_all_def)

lemma rewind_all_id: "(\<And>r. r \<in> set rs \<Longrightarrow> row_within (f (o_project r)) r) \<Longrightarrow> rewind_all f rs = rs"
proof (induction rs)
  case (Cons r rs)
  then show ?case using Cons.prems[of r] by (simp add: rewind_all_def reopen_id) (simp add: row_within_def)
qed (simp add: rewind_all_def)

definition rewinds :: "(int \<times> int) list \<Rightarrow> object_row list \<Rightarrow> object_row list" where
  "rewinds ps rs = fold (\<lambda>(p, n). rewind p n) ps rs"

lemma rewinds_simps [simp]:
  "rewinds [] rs = rs" "rewinds ((p, n) # ps) rs = rewinds ps (rewind p n rs)" "rewinds ps [] = []"
  "rewinds ps (xs @ ys) = rewinds ps xs @ rewinds ps ys"
proof -
  show "rewinds [] rs = rs" "rewinds ((p, n) # ps) rs = rewinds ps (rewind p n rs)" by (simp_all add: rewinds_def)
  show "rewinds ps [] = []" unfolding rewinds_def by (induction ps) auto
  show "rewinds ps (xs @ ys) = rewinds ps xs @ rewinds ps ys"
    unfolding rewinds_def by (induction ps arbitrary: xs ys) auto
qed

lemma rewinds_other: "o_project r \<notin> fst ` set ps \<Longrightarrow> rewinds ps [r] = [r]"
  by (induction ps) (auto simp: rewind_Cons)

lemma rewinds_row:
  assumes "distinct (map fst ps)" and "o_project r \<in> fst ` set ps" and "\<And>q n. (q, n) \<in> set ps \<Longrightarrow> n = f q"
  shows "rewinds ps [r] = rewind_all f [r]"
  using assms
proof (induction ps)
  case (Cons a ps)
  obtain q n where a: "a = (q, n)" by (cases a)
  have n: "n = f q" using Cons.prems(3)[of q n] a by simp
  show ?case
  proof (cases "o_project r = q")
    case True
    then have "o_project r \<notin> fst ` set ps" using Cons.prems(1) a by simp
    then have "rewinds ps [reopen n r] = [reopen n r]" by (intro rewinds_other) simp
    with True a n show ?thesis by (simp add: rewind_Cons rewind_all_def)
  next
    case False
    then have "rewinds ps [r] = rewind_all f [r]" using Cons a by auto
    with False a show ?thesis by (simp add: rewind_Cons)
  qed
qed simp

lemma rewinds_all:
  assumes "distinct (map fst ps)" and "\<And>q n. (q, n) \<in> set ps \<Longrightarrow> n = f q" and "\<And>r. r \<in> set rs \<Longrightarrow> o_project r \<in> fst ` set ps"
  shows "rewinds ps rs = rewind_all f rs"
  using assms(3)
proof (induction rs)
  case (Cons r rs)
  have "rewinds ps (r # rs) = rewinds ps [r] @ rewinds ps rs" using rewinds_simps(4)[of ps "[r]" rs] by simp
  also have "\<dots> = rewind_all f [r] @ rewind_all f rs" using rewinds_row[OF assms(1) _ assms(2), of r] Cons by simp
  finally show ?case by (simp add: rewind_all_def)
qed (simp add: rewind_all_def)

section \<open>Sequences of updates\<close>

inductive updated_to :: "DB \<Rightarrow> DB \<Rightarrow> bool" where
  none: "updated_to db db"
| more: "updated_to db d \<Longrightarrow> \<forall>p. is_int64 (latest_of d p + 1) \<Longrightarrow> Fs_Update F ctx reqs recvErr d = (d', r) \<Longrightarrow> updated_to db d'"

abbreviation project_keys :: "DB \<Rightarrow> (int \<times> string list option) list" where
  "project_keys db \<equiv> map (\<lambda>r. (p_id r, pack_patterns r)) (projects db)"

lemma update_since:
  assumes "Fs_Update F ctx reqs recvErr d = (d', r)" and "\<forall>p. is_int64 (latest_of d p + 1)" and "\<And>p. f p \<le> latest_of d p"
  shows "rewind_all f (objects d') = rewind_all f (objects d)" and "project_keys d' = project_keys d"
    and "latest_of d p \<le> latest_of d' p"
proof -
  have "rewind_all f (objects d') = rewind_all f (objects d) \<and> project_keys d' = project_keys d \<and> latest_of d p \<le> latest_of d' p"
    using assms(1)
  proof (cases rule: Fs_Update_cases)
    case same
    then show ?thesis by (simp add: latest_of_def find_project_def)
  next
    case (written q pr v obs packs d1)
    note L = latest_of_UpdateLatestVersion[OF written(5)]
    have "is_int64 (latest_of d q + 1)" using assms(2) by blast
    moreover have "latest_of d q = latest_version pr" using written(1) by (simp add: latest_of_def)
    ultimately have v: "v - 1 = latest_of d q" using written(2) by (simp add: wrap64_id)
    have frame: "projects d1 = projects d" using version_writer.frame[OF write_update_writer written(4)] by blast
    have "rewind q (v - 1) (objects d') = rewind q (v - 1) (objects d)"
      using version_writer.past[OF write_update_writer written(4)] L(2) by simp
    then have "rewind_all f (objects d') = rewind_all f (objects d)"
      using rewind_all_rewind[of f q "v - 1" "objects d'"] rewind_all_rewind[of f q "v - 1" "objects d"] assms(3)[of q] v by simp
    moreover have "project_keys d' = project_keys d"
      using written(5) frame by (auto simp: UpdateLatestVersion_def update_projects_def)
    moreover have "latest_of d p \<le> latest_of d' p"
      using L(1)[of p] frame v by (auto simp: latest_of_def find_project_def)
    ultimately show ?thesis by blast
  qed
  then show "rewind_all f (objects d') = rewind_all f (objects d)" "project_keys d' = project_keys d" "latest_of d p \<le> latest_of d' p"
    by blast+
qed

lemma updates_since:
  assumes "updated_to db d" and "db_ok db"
  shows "rewind_all (latest_of db) (objects d) = objects db \<and> project_keys d = project_keys db \<and> (\<forall>p. latest_of db p \<le> latest_of d p)"
  using assms
proof (induction rule: updated_to.induct)
  case (none db)
  then show ?case using rewind_all_id[of "objects db" "latest_of db"] db_okD(3)[OF none] by simp
next
  case (more db d F ctx reqs recvErr d' r)
  have IH: "rewind_all (latest_of db) (objects d) = objects db" "project_keys d = project_keys db" "latest_of db p \<le> latest_of d p" for p
    using more.IH[OF more.prems] by auto
  note U = update_since[OF more.hyps(3,2), of "latest_of db", OF IH(3)]
  show ?case using U(1,2) IH(1,2) order_trans[OF IH(3) U(3)] by auto
qed

section \<open>Resetting to the snapshot\<close>

lemma reset_projects_eq:
  assumes "db_ok db"
  shows "\<exists>d. reset_projects ps db = (d, Inr ()) \<and> objects d = rewinds ps (objects db) \<and>
    projects d = fold (\<lambda>(p, n). map (\<lambda>r. if p_id r = p then r\<lparr>latest_version := n\<rparr> else r)) ps (projects db)"
  using assms
proof (induction ps arbitrary: db)
  case (Cons a ps)
  obtain p n where a: "a = (p, n)" by (cases a)
  obtain d where d: "ResetProject p n db = (d, Inr ())" "db_ok d" "objects d = rewind p n (objects db)"
    using ResetProject_ok[OF Cons.prems] by blast
  moreover have "projects d = map (\<lambda>r. if p_id r = p then r\<lparr>latest_version := n\<rparr> else r) (projects db)"
    using d(1) by (auto simp: ResetProject_eq UpdateLatestVersion_def update_projects_def Let_def split: if_splits)
  ultimately show ?case using Cons.IH[OF d(2)] a by (auto simp: andThen_def)
qed simp

lemma fold_versions:
  assumes "distinct (map fst ps)" and "\<And>q n. (q, n) \<in> set ps \<Longrightarrow> n = f q"
  shows "fold (\<lambda>(p, n). map (\<lambda>r. if p_id r = p then r\<lparr>latest_version := n\<rparr> else r)) ps rs =
    map (\<lambda>r. if p_id r \<in> fst ` set ps then r\<lparr>latest_version := f (p_id r)\<rparr> else r) rs"
  using assms
proof (induction ps arbitrary: rs)
  case (Cons a ps)
  obtain p n where a: "a = (p, n)" by (cases a)
  let ?set = "\<lambda>r. if p_id r = p then r\<lparr>latest_version := n\<rparr> else r"
  let ?sets = "\<lambda>A r. if p_id r \<in> A then r\<lparr>latest_version := f (p_id r)\<rparr> else r"
  have n: "n = f p" using Cons.prems(2)[of p n] a by simp
  have eq: "?sets (fst ` set ps) \<circ> ?set = ?sets (insert p (fst ` set ps))" using n by (auto simp: fun_eq_iff)
  have "fold (\<lambda>(p, n). map (\<lambda>r. if p_id r = p then r\<lparr>latest_version := n\<rparr> else r)) (a # ps) rs =
      map (?sets (fst ` set ps)) (map ?set rs)" using Cons a by simp
  also have "\<dots> = map (?sets (insert p (fst ` set ps))) rs" unfolding map_map eq ..
  finally show ?case using a by simp
qed simp

lemma latest_of_row:
  assumes "db_ok db" and "r \<in> set (projects db)"
  shows "latest_of db (p_id r) = latest_version r"
proof -
  have "find_project db (p_id r) \<noteq> None" using assms(2) by (simp add: find_project_None)
  then obtain x where x: "find_project db (p_id r) = Some x" by blast
  have "x = r" using distinct_map_inj_on_set[OF db_okD(1)[OF assms(1)], of x r] find_project_Some[OF x] assms(2) by simp
  with x show ?thesis by (simp add: latest_of_def)
qed

lemma Reset_after_updates:
  assumes "db_ok db" and "updated_to db d" and "db_ok d" and "fs_Env F = Dev \<or> fs_Env F = Test"
    and "requireAdminAuth ctx = None" and "fs_Connect F" and "fs_Commit F" and "ps = map (\<lambda>r. (p_id r, latest_version r)) (projects db)"
  shows "\<exists>d'. Fs_Reset F ctx ps d = (d', Inr ()) \<and> objects d' = objects db \<and> projects d' = projects db"
proof -
  note since = updates_since[OF assms(2,1), THEN conjunct1] updates_since[OF assms(2,1), THEN conjunct2, THEN conjunct1]
  have ids: "map fst ps = map p_id (projects db)" by (simp add: assms(8) comp_def)
  have keys: "map p_id (projects d) = map p_id (projects db)" using arg_cong[OF since(2), of "map fst"] by (simp add: comp_def)
  have dis: "distinct (map fst ps)" using ids db_okD(1)[OF assms(1)] by simp
  have f: "n = latest_of db q" if "(q, n) \<in> set ps" for q n using that assms(1,8) by (auto simp: latest_of_row)
  have rows: "o_project r \<in> fst ` set ps" if "r \<in> set (objects d)" for r
  proof -
    have "find_project d (o_project r) \<noteq> None" using db_ok_no_rows[OF assms(3), of r] that by blast
    then have "o_project r \<in> set (map p_id (projects d))" by (simp add: find_project_None)
    then show ?thesis unfolding keys ids[symmetric] by simp
  qed
  show ?thesis
  proof (cases "ps = []")
    case True
    have "objects d = []"
    proof (cases "objects d")
      case (Cons r rs)
      with rows[of r] True show ?thesis by simp
    qed
    moreover have "projects db = []" using True assms(8) by simp
    moreover have "objects db = []" using since(1) calculation(1) by (simp add: rewind_all_def)
    ultimately show ?thesis using True assms(4-7)
      by (auto simp: Fs_Reset_def dev_or_test_def admin_only_def in_tx_def thenC_def coded_def ResetAll_def done_tx_def)
  next
    case False
    obtain e where e: "reset_projects ps d = (e, Inr ())" "objects e = rewinds ps (objects d)"
      "projects e = fold (\<lambda>(p, n). map (\<lambda>r. if p_id r = p then r\<lparr>latest_version := n\<rparr> else r)) ps (projects d)"
      using reset_projects_eq[OF assms(3)] by blast
    have obj: "objects e = objects db" using e(2) rewinds_all[OF dis f rows] since(1) by simp
    have "set (map p_id (projects d)) = fst ` set ps" unfolding keys ids[symmetric] by simp
    then have "projects e = map (\<lambda>r. r\<lparr>latest_version := latest_of db (p_id r)\<rparr>) (projects d)"
      unfolding e(3) by (subst fold_versions[OF dis f]) auto
    also have "\<dots> = map (\<lambda>(i, pats). \<lparr>p_id = i, latest_version = latest_of db i, pack_patterns = pats\<rparr>) (project_keys d)"
      by simp
    also have "\<dots> = projects db" unfolding since(2) using assms(1) by (auto simp: latest_of_row intro!: map_idI)
    finally have prj: "projects e = projects db" .
    have "filter (\<lambda>r. p_id r \<in> set (map fst ps)) (projects e) = projects e" unfolding prj ids by simp
    moreover have "filter (\<lambda>r. o_project r \<in> set (map fst ps)) (objects e) = objects e"
      unfolding obj ids using db_ok_no_rows[OF assms(1)] by (auto simp: filter_id_conv find_project_None)
    ultimately show ?thesis using False e(1) obj prj assms(4-7)
      by (auto simp: Fs_Reset_def dev_or_test_def admin_only_def in_tx_def thenC_def coded_def andThen_def DropOtherProjects_eq done_tx_def)
  qed
qed

end
