(* ===== verification/FileSystem.thy ===== *)
theory FileSystem
  imports Wire
begin

text \<open>
  The part of the operating system the client and the cache daemon use: a tree of directories,
  regular files and symbolic links with POSIX path resolution, and the calls of Go's \<^verbatim>\<open>os\<close>
  package on it. A regular file is a reference to an inode, so that hard links share contents.
  Paths are absolute and cleaned; they are lists of names.

  Calls are made with sufficient permissions and space: the error numbers are those that depend on
  the shape of the tree. Set-user-id and sticky bits are left out, and inodes are never freed.
\<close>

unbundle bit_operations_syntax

section \<open>The tree\<close>

type_synonym path = "string list"

datatype errno =
    ENOENT | ENOTDIR | EEXIST | EISDIR | ENOTEMPTY | ELOOP | EPERM | EINVAL | EBUSY

datatype node = Reg nat | Dir "32 word" | Sym string

record inode =
  i_perm :: "32 word"
  i_data :: bytes

record disk =
  nodes :: "(path \<times> node) list"
  inodes :: "inode list"
  umask :: "32 word"

type_synonym 'a os = "(disk, errno, 'a) sem"

definition node_at :: "disk \<Rightarrow> path \<Rightarrow> node option" where
  "node_at d p = (if p = [] then Some (Dir 0x1ED) else map_of (nodes d) p)"

definition put_node :: "path \<Rightarrow> node \<Rightarrow> disk \<Rightarrow> disk" where
  "put_node p n d = d\<lparr>nodes := (p, n) # filter (\<lambda>e. fst e \<noteq> p) (nodes d)\<rparr>"

definition cut_node :: "path \<Rightarrow> disk \<Rightarrow> disk" where
  "cut_node p d = d\<lparr>nodes := filter (\<lambda>e. fst e \<noteq> p) (nodes d)\<rparr>"

definition cut_tree :: "path \<Rightarrow> disk \<Rightarrow> disk" where
  "cut_tree p d = d\<lparr>nodes := filter (\<lambda>e. \<not> prefix p (fst e)) (nodes d)\<rparr>"

definition move_tree :: "path \<Rightarrow> path \<Rightarrow> disk \<Rightarrow> disk" where
  "move_tree p q d = d\<lparr>nodes := map (\<lambda>e. if prefix p (fst e) then (q @ drop (length p) (fst e), snd e) else e)
     (filter (\<lambda>e. fst e \<noteq> q) (nodes d))\<rparr>"

definition has_child :: "disk \<Rightarrow> path \<Rightarrow> bool" where
  "has_child d p \<longleftrightarrow> list_ex (\<lambda>e. strict_prefix p (fst e)) (nodes d)"

text \<open>A new inode with its number; the content of an inode.\<close>

definition new_inode :: "path \<Rightarrow> 32 word \<Rightarrow> disk \<Rightarrow> disk \<times> nat" where
  "new_inode p perm d =
     (let i = length (inodes d) in
      (put_node p (Reg i) (d\<lparr>inodes := inodes d @ [\<lparr>i_perm = perm AND ModePerm AND NOT (umask d), i_data = []\<rparr>]\<rparr>), i))"

definition set_data :: "nat \<Rightarrow> bytes \<Rightarrow> disk \<Rightarrow> disk" where
  "set_data i b d = d\<lparr>inodes := (inodes d)[i := (inodes d ! i)\<lparr>i_data := b\<rparr>]\<rparr>"

definition set_perm :: "nat \<Rightarrow> 32 word \<Rightarrow> disk \<Rightarrow> disk" where
  "set_perm i perm d = d\<lparr>inodes := (inodes d)[i := (inodes d ! i)\<lparr>i_perm := perm AND ModePerm\<rparr>]\<rparr>"

definition get_data :: "nat \<Rightarrow> disk \<Rightarrow> bytes" where
  "get_data i d = i_data (inodes d ! i)"

section \<open>Names and path resolution\<close>

text \<open>
  \<^verbatim>\<open>filepath.Join(root, name)\<close> for a cleaned absolute root: empty names and dots disappear, a
  double dot removes the name before it.
\<close>

fun clean_onto :: "path \<Rightarrow> string list \<Rightarrow> path" where
  "clean_onto p [] = p"
| "clean_onto p (c # cs) =
     (if c = [] \<or> c = ''.'' then clean_onto p cs
      else if c = ''..'' then clean_onto (butlast p) cs
      else clean_onto (p @ [c]) cs)"

definition join_path :: "path \<Rightarrow> string \<Rightarrow> path" where
  "join_path root name = clean_onto root (Split name CHR ''/'')"

text \<open>The names of a link's target; a slash at its end asks for a directory, as a dot does.\<close>

definition link_names :: "string \<Rightarrow> string list" where
  "link_names t = filter (\<lambda>c. c \<noteq> []) (Split t CHR ''/'') @ (if HasSuffix t ''/'' then [''.''] else [])"

text \<open>
  Resolution from the directory \<open>cur\<close>: links in the middle of a path are followed, the last one only
  when \<open>follow\<close> is set, and after as many links as the first argument says the result is \<open>ELOOP\<close>. The
  last name of a path need not exist.
\<close>

fun walk :: "nat \<Rightarrow> bool \<Rightarrow> disk \<Rightarrow> path \<Rightarrow> string list \<Rightarrow> errno + path" where
  "walk n follow d cur [] = Inr cur"
| "walk n follow d cur (c # cs) =
     (if c = ''.'' then walk n follow d cur cs
      else if c = ''..'' then walk n follow d (butlast cur) cs
      else
        (case node_at d (cur @ [c]) of
           None \<Rightarrow> if cs = [] then Inr (cur @ [c]) else Inl ENOENT
         | Some (Reg i) \<Rightarrow> if cs = [] then Inr (cur @ [c]) else Inl ENOTDIR
         | Some (Dir m) \<Rightarrow> walk n follow d (cur @ [c]) cs
         | Some (Sym t) \<Rightarrow>
             if cs = [] \<and> \<not> follow then Inr (cur @ [c])
             else
               (case n of
                  0 \<Rightarrow> Inl ELOOP
                | Suc k \<Rightarrow> walk k follow d (if HasPrefix t ''/'' then [] else cur) (link_names t @ cs))))"

definition max_links :: nat where
  "max_links = 40"

definition resolve :: "bool \<Rightarrow> path \<Rightarrow> disk \<Rightarrow> errno + path" where
  "resolve follow p d = walk max_links follow d [] p"

section \<open>Calls\<close>

definition Lstat :: "path \<Rightarrow> disk \<Rightarrow> errno + node" where
  "Lstat p d =
     (case resolve False p d of
        Inl e \<Rightarrow> Inl e
      | Inr q \<Rightarrow> (case node_at d q of None \<Rightarrow> Inl ENOENT | Some n \<Rightarrow> Inr n))"

definition Stat :: "path \<Rightarrow> disk \<Rightarrow> errno + node" where
  "Stat p d =
     (case resolve True p d of
        Inl e \<Rightarrow> Inl e
      | Inr q \<Rightarrow> (case node_at d q of None \<Rightarrow> Inl ENOENT | Some n \<Rightarrow> Inr n))"

text \<open>The mode of a \<^verbatim>\<open>FileInfo\<close>.\<close>

definition info_mode :: "disk \<Rightarrow> node \<Rightarrow> 32 word" where
  "info_mode d n =
     (case n of
        Reg i \<Rightarrow> i_perm (inodes d ! i) AND ModePerm
      | Dir m \<Rightarrow> ModeDir OR m
      | Sym t \<Rightarrow> ModeSymlink OR ModePerm)"

definition is_dir :: "errno + node \<Rightarrow> bool" where
  "is_dir r = (case r of Inr (Dir m) \<Rightarrow> True | _ \<Rightarrow> False)"

definition Mkdir :: "path \<Rightarrow> 32 word \<Rightarrow> unit os" where
  "Mkdir p perm d =
     (case resolve False p d of
        Inl e \<Rightarrow> (d, Inl e)
      | Inr q \<Rightarrow>
          if node_at d q \<noteq> None then (d, Inl EEXIST)
          else (put_node q (Dir (perm AND ModePerm AND NOT (umask d))) d, Inr ()))"

function MkdirAll :: "path \<Rightarrow> 32 word \<Rightarrow> unit os" where
  "MkdirAll p perm d =
     (case Stat p d of
        Inr n \<Rightarrow> (d, if is_dir (Inr n) then Inr () else Inl ENOTDIR)
      | Inl e \<Rightarrow>
          if p = [] then (d, Inl e)
          else
            andThen (MkdirAll (butlast p) perm) (\<lambda>_ d'.
              case Mkdir p perm d' of
                (d'', Inr _) \<Rightarrow> (d'', Inr ())
              | (d'', Inl e') \<Rightarrow> (d'', if is_dir (Lstat p d'') then Inr () else Inl e')) d)"
  by auto

termination
  by (relation "measure (\<lambda>(p, perm, d). length p)") auto

declare MkdirAll.simps [simp del]

text \<open>\<^verbatim>\<open>os.Remove\<close> removes a file, a link or an empty directory.\<close>

definition Remove :: "path \<Rightarrow> unit os" where
  "Remove p d =
     (case resolve False p d of
        Inl e \<Rightarrow> (d, Inl e)
      | Inr q \<Rightarrow>
          if q = [] then (d, Inl EBUSY)
          else
            (case node_at d q of
               None \<Rightarrow> (d, Inl ENOENT)
             | Some (Dir m) \<Rightarrow> if has_child d q then (d, Inl ENOTEMPTY) else (cut_node q d, Inr ())
             | Some _ \<Rightarrow> (cut_node q d, Inr ())))"

definition RemoveAll :: "path \<Rightarrow> unit os" where
  "RemoveAll p d =
     (case resolve False p d of
        Inl e \<Rightarrow> (d, if e = ENOENT then Inr () else Inl e)
      | Inr q \<Rightarrow> if q = [] then (d, Inl EBUSY) else (cut_tree q d, Inr ()))"

definition Symlink :: "string \<Rightarrow> path \<Rightarrow> unit os" where
  "Symlink target p d =
     (if target = [] then (d, Inl ENOENT)
      else
        (case resolve False p d of
           Inl e \<Rightarrow> (d, Inl e)
         | Inr q \<Rightarrow> if node_at d q \<noteq> None then (d, Inl EEXIST) else (put_node q (Sym target) d, Inr ())))"

definition Readlink :: "path \<Rightarrow> disk \<Rightarrow> errno + string" where
  "Readlink p d = (case Lstat p d of Inl e \<Rightarrow> Inl e | Inr (Sym t) \<Rightarrow> Inr t | Inr _ \<Rightarrow> Inl EINVAL)"

definition Link :: "path \<Rightarrow> path \<Rightarrow> unit os" where
  "Link old new d =
     (case Lstat old d of
        Inl e \<Rightarrow> (d, Inl e)
      | Inr n \<Rightarrow>
          (case resolve False new d of
             Inl e \<Rightarrow> (d, Inl e)
           | Inr q \<Rightarrow>
               if node_at d q \<noteq> None then (d, Inl EEXIST)
               else if is_dir (Inr n) then (d, Inl EPERM)
               else (put_node q n d, Inr ())))"

text \<open>\<^verbatim>\<open>os.Rename\<close> refuses to replace a directory.\<close>

definition Rename :: "path \<Rightarrow> path \<Rightarrow> unit os" where
  "Rename old new d =
     (case (resolve False old d, resolve False new d) of
        (Inl e, _) \<Rightarrow> (d, Inl e)
      | (_, Inl e) \<Rightarrow> (d, Inl e)
      | (Inr p, Inr q) \<Rightarrow>
          (case (node_at d p, node_at d q) of
             (None, _) \<Rightarrow> (d, Inl ENOENT)
           | (Some n, Some (Dir m)) \<Rightarrow> (d, Inl EEXIST)
           | (Some n, t) \<Rightarrow>
               if p = [] then (d, Inl EBUSY)
               else if p = q then (d, Inr ())
               else if strict_prefix p q then (d, Inl EINVAL)
               else if is_dir (Inr n) \<and> t \<noteq> None then (d, Inl ENOTDIR)
               else (move_tree p q d, Inr ())))"

text \<open>\<^verbatim>\<open>os.OpenFile\<close> with \<^verbatim>\<open>O_CREATE\<close> and write access; the handle is the number of the inode.\<close>

definition open_create :: "bool \<Rightarrow> path \<Rightarrow> 32 word \<Rightarrow> nat os" where
  "open_create trunc p perm d =
     (case resolve True p d of
        Inl e \<Rightarrow> (d, Inl e)
      | Inr q \<Rightarrow>
          (case node_at d q of
             None \<Rightarrow> (case new_inode q perm d of (d', i) \<Rightarrow> (d', Inr i))
           | Some (Reg i) \<Rightarrow> (if trunc then set_data i [] d else d, Inr i)
           | Some (Dir m) \<Rightarrow> (d, Inl EISDIR)
           | Some (Sym t) \<Rightarrow> (d, Inl ELOOP)))"

text \<open>With \<^verbatim>\<open>O_CREATE|O_EXCL\<close>.\<close>

definition open_excl :: "path \<Rightarrow> 32 word \<Rightarrow> nat os" where
  "open_excl p perm d =
     (case resolve False p d of
        Inl e \<Rightarrow> (d, Inl e)
      | Inr q \<Rightarrow>
          if node_at d q \<noteq> None then (d, Inl EEXIST)
          else (case new_inode q perm d of (d', i) \<Rightarrow> (d', Inr i)))"

definition ReadFile :: "path \<Rightarrow> disk \<Rightarrow> errno + bytes" where
  "ReadFile p d =
     (case Stat p d of
        Inl e \<Rightarrow> Inl e
      | Inr (Reg i) \<Rightarrow> Inr (get_data i d)
      | Inr (Dir m) \<Rightarrow> Inl EISDIR
      | Inr (Sym t) \<Rightarrow> Inl ELOOP)"

definition WriteFile :: "path \<Rightarrow> bytes \<Rightarrow> 32 word \<Rightarrow> unit os" where
  "WriteFile p b perm = andThen (open_create True p perm) (\<lambda>i d. (set_data i b d, Inr ()))"

definition append_file :: "path \<Rightarrow> bytes \<Rightarrow> 32 word \<Rightarrow> unit os" where
  "append_file p b perm = andThen (open_create False p perm) (\<lambda>i d. (set_data i (get_data i d @ b) d, Inr ()))"

definition Chmod :: "path \<Rightarrow> 32 word \<Rightarrow> unit os" where
  "Chmod p perm d =
     (case resolve True p d of
        Inl e \<Rightarrow> (d, Inl e)
      | Inr q \<Rightarrow>
          (case node_at d q of
             None \<Rightarrow> (d, Inl ENOENT)
           | Some (Reg i) \<Rightarrow> (set_perm i perm d, Inr ())
           | Some (Dir m) \<Rightarrow> (if q = [] then d else put_node q (Dir (perm AND ModePerm)) d, Inr ())
           | Some (Sym t) \<Rightarrow> (d, Inl ELOOP)))"

text \<open>\<^verbatim>\<open>os.MkdirTemp\<close> with the random suffixes it draws, at most ten thousand.\<close>

fun MkdirTemp :: "path \<Rightarrow> string \<Rightarrow> string list \<Rightarrow> path os" where
  "MkdirTemp dir pre [] d = (d, Inl EEXIST)"
| "MkdirTemp dir pre (r # rs) d =
     (case Mkdir (dir @ [pre @ r]) 0x1C0 d of
        (d', Inr _) \<Rightarrow> (d', Inr (dir @ [pre @ r]))
      | (d', Inl e) \<Rightarrow> if e = EEXIST then MkdirTemp dir pre rs d' else (d', Inl e))"

section \<open>The invariant of a tree\<close>

text \<open>
  Every node has a proper name and lies in a directory, and every regular file has an inode.
\<close>

definition good_name :: "string \<Rightarrow> bool" where
  "good_name c \<longleftrightarrow> c \<noteq> [] \<and> c \<noteq> ''.'' \<and> c \<noteq> ''..''"

definition is_dir_at :: "disk \<Rightarrow> path \<Rightarrow> bool" where
  "is_dir_at d p = (case node_at d p of Some (Dir m) \<Rightarrow> True | _ \<Rightarrow> False)"

definition inode_ok :: "disk \<Rightarrow> node \<Rightarrow> bool" where
  "inode_ok d n = (case n of Reg i \<Rightarrow> i < length (inodes d) | _ \<Rightarrow> True)"

definition disk_ok :: "disk \<Rightarrow> bool" where
  "disk_ok d \<longleftrightarrow> list_all (\<lambda>e. fst e \<noteq> [] \<and> list_all good_name (fst e) \<and> is_dir_at d (butlast (fst e)) \<and> inode_ok d (snd e)) (nodes d)"

lemma is_dir_at_iff: "is_dir_at d p \<longleftrightarrow> (\<exists>m. node_at d p = Some (Dir m))"
  by (auto simp: is_dir_at_def split: option.splits node.splits)

lemma node_at_root [simp]: "node_at d [] = Some (Dir 0x1ED)"
  by (simp add: node_at_def)

lemma is_dir_at_root [simp]: "is_dir_at d []"
  by (simp add: is_dir_at_iff)

lemma map_of_filter_neq: "map_of (filter (\<lambda>e. fst e \<noteq> p) xs) q = (if q = p then None else map_of xs q)"
  by (induction xs) auto

lemma map_of_filter_path: "map_of (filter (\<lambda>e. P (fst e)) xs) q = (if P q then map_of xs q else None)"
  by (induction xs) auto

lemma node_at_put [simp]: "p \<noteq> [] \<Longrightarrow> node_at (put_node p n d) q = (if q = p then Some n else node_at d q)"
  by (simp add: node_at_def put_node_def map_of_filter_neq)

lemma node_at_cut [simp]: "p \<noteq> [] \<Longrightarrow> node_at (cut_node p d) q = (if q = p then None else node_at d q)"
  by (simp add: node_at_def cut_node_def map_of_filter_neq)

lemma node_at_cut_tree [simp]: "p \<noteq> [] \<Longrightarrow> node_at (cut_tree p d) q = (if prefix p q then None else node_at d q)"
  using map_of_filter_path[of "\<lambda>r. \<not> prefix p r" "nodes d" q] by (auto simp: node_at_def cut_tree_def)

lemma node_at_inodes [simp]: "node_at (d\<lparr>inodes := x\<rparr>) q = node_at d q"
  by (simp add: node_at_def)

lemma tree_fields [simp]:
  "inodes (put_node p n d) = inodes d" "umask (put_node p n d) = umask d"
  "inodes (cut_node p d) = inodes d" "umask (cut_node p d) = umask d"
  "inodes (cut_tree p d) = inodes d" "umask (cut_tree p d) = umask d"
  "inodes (move_tree p q d) = inodes d" "umask (move_tree p q d) = umask d"
  "node_at (set_data i b d) r = node_at d r" "umask (set_data i b d) = umask d"
  "length (inodes (set_data i b d)) = length (inodes d)"
  "node_at (set_perm i m d) r = node_at d r" "umask (set_perm i m d) = umask d"
  "length (inodes (set_perm i m d)) = length (inodes d)"
  by (simp_all add: put_node_def cut_node_def cut_tree_def move_tree_def set_data_def set_perm_def)

lemma node_in_list: "p \<noteq> [] \<Longrightarrow> node_at d p = Some n \<Longrightarrow> (p, n) \<in> set (nodes d)"
  by (simp add: node_at_def map_of_SomeD)

lemma listed_node: "(p, n) \<in> set (nodes d) \<Longrightarrow> p \<noteq> [] \<Longrightarrow> \<exists>n'. node_at d p = Some n'"
  by (simp add: node_at_def) (metis map_of_eq_None_iff fst_conv image_eqI not_None_eq)

lemma disk_okD:
  assumes "disk_ok d" and "node_at d p = Some n" and "p \<noteq> []"
  shows "list_all good_name p" and "is_dir_at d (butlast p)" and "inode_ok d n"
  using assms node_in_list[OF assms(3,2)] by (auto simp: disk_ok_def list_all_iff)

lemma disk_ok_dir_above:
  assumes "disk_ok d" and "node_at d p = Some n" and "strict_prefix q p"
  shows "is_dir_at d q"
  using assms(2,3)
proof (induction p arbitrary: n rule: rev_induct)
  case (snoc c p)
  have "is_dir_at d p" using disk_okD(2)[OF assms(1) snoc.prems(1)] by simp
  with snoc show ?case by (auto simp: is_dir_at_iff strict_prefix_def)
qed simp

lemma has_child_iff:
  assumes "disk_ok d"
  shows "has_child d p \<longleftrightarrow> (\<exists>q. strict_prefix p q \<and> node_at d q \<noteq> None)"
proof
  assume "has_child d p"
  then obtain q n where "(q, n) \<in> set (nodes d)" "strict_prefix p q" by (auto simp: has_child_def list_ex_iff)
  then show "\<exists>q. strict_prefix p q \<and> node_at d q \<noteq> None" using listed_node[of q n d] by fastforce
next
  assume "\<exists>q. strict_prefix p q \<and> node_at d q \<noteq> None"
  then obtain q n where "strict_prefix p q" "node_at d q = Some n" by auto
  then show "has_child d p" using node_in_list[of q d n] by (force simp: has_child_def list_ex_iff)
qed

subsection \<open>Elementary changes\<close>

lemma disk_ok_change:
  assumes "disk_ok d" and "length (inodes d) \<le> length (inodes d')"
    and "\<And>e. e \<in> set (nodes d') \<Longrightarrow> e \<in> set (nodes d) \<or> fst e \<noteq> [] \<and> list_all good_name (fst e) \<and> inode_ok d' (snd e)"
    and "\<And>e. e \<in> set (nodes d') \<Longrightarrow> is_dir_at d' (butlast (fst e))"
  shows "disk_ok d'"
proof -
  have "inode_ok d n \<Longrightarrow> inode_ok d' n" for n
    using assms(2) by (auto simp: inode_ok_def split: node.splits)
  moreover have "fst e \<noteq> [] \<and> list_all good_name (fst e) \<and> inode_ok d (snd e)" if "e \<in> set (nodes d)" for e
    using assms(1) that by (auto simp: disk_ok_def list_all_iff)
  ultimately show ?thesis using assms(3,4) unfolding disk_ok_def list_all_iff[of _ "nodes d'"] by blast
qed

lemma disk_ok_parent: "disk_ok d \<Longrightarrow> e \<in> set (nodes d) \<Longrightarrow> fst e \<noteq> [] \<and> is_dir_at d (butlast (fst e))"
  by (auto simp: disk_ok_def list_all_iff)

lemma inode_ok_tree [simp]: "inode_ok (put_node p m d) n = inode_ok d n" "inode_ok (move_tree p q d) n = inode_ok d n"
  by (simp_all add: inode_ok_def split: node.splits)

lemma put_nodes: "nodes (put_node p n d) = (p, n) # filter (\<lambda>e. fst e \<noteq> p) (nodes d)"
  by (simp add: put_node_def)

lemma disk_ok_put:
  assumes "disk_ok d" and "p \<noteq> []" and "list_all good_name p" and "is_dir_at d (butlast p)" and "inode_ok d n"
    and "is_dir_at d p \<Longrightarrow> is_dir (Inr n)"
  shows "disk_ok (put_node p n d)"
proof (rule disk_ok_change[OF assms(1)])
  have dir: "is_dir_at (put_node p n d) q" if "is_dir_at d q" for q
    using that assms(2,6) by (auto simp: is_dir_at_iff is_dir_def split: node.splits)
  fix e assume e: "e \<in> set (nodes (put_node p n d))"
  then show "e \<in> set (nodes d) \<or> fst e \<noteq> [] \<and> list_all good_name (fst e) \<and> inode_ok (put_node p n d) (snd e)"
    using assms(2,3,5) by (auto simp: put_nodes)
  show "is_dir_at (put_node p n d) (butlast (fst e))"
    using e assms(4) disk_ok_parent[OF assms(1), of e] by (intro dir) (auto simp: put_nodes)
qed simp

lemma butlast_strict_prefix: "p \<noteq> [] \<Longrightarrow> strict_prefix (butlast p) p"
  by (metis append_butlast_last_id strict_prefixI')

lemma disk_ok_cut:
  assumes "disk_ok d" and "p \<noteq> []" and "is_dir_at d p \<Longrightarrow> \<not> has_child d p"
  shows "disk_ok (cut_node p d)"
proof (rule disk_ok_change[OF assms(1)])
  fix e assume "e \<in> set (nodes (cut_node p d))"
  then have e: "e \<in> set (nodes d)" by (simp add: cut_node_def)
  then show "e \<in> set (nodes d) \<or> fst e \<noteq> [] \<and> list_all good_name (fst e) \<and> inode_ok (cut_node p d) (snd e)" ..
  note ok = disk_ok_parent[OF assms(1) e]
  have "butlast (fst e) \<noteq> p"
  proof
    assume p: "butlast (fst e) = p"
    then have "has_child d p" using e ok butlast_strict_prefix[of "fst e"] by (auto simp: has_child_def list_ex_iff)
    with assms(3) ok p show False by simp
  qed
  with ok assms(2) show "is_dir_at (cut_node p d) (butlast (fst e))" by (simp add: is_dir_at_def)
qed simp

lemma disk_ok_cut_tree:
  assumes "disk_ok d" and "p \<noteq> []"
  shows "disk_ok (cut_tree p d)"
proof (rule disk_ok_change[OF assms(1)])
  fix e assume "e \<in> set (nodes (cut_tree p d))"
  then have e: "e \<in> set (nodes d)" "\<not> prefix p (fst e)" by (simp_all add: cut_tree_def)
  then show "e \<in> set (nodes d) \<or> fst e \<noteq> [] \<and> list_all good_name (fst e) \<and> inode_ok (cut_tree p d) (snd e)" by simp
  from e(2) disk_ok_parent[OF assms(1) e(1)] have "\<not> prefix p (butlast (fst e))"
    using butlast_strict_prefix[of "fst e"] by (metis prefix_order.order_trans prefix_order.less_imp_le)
  with disk_ok_parent[OF assms(1) e(1)] assms(2) show "is_dir_at (cut_tree p d) (butlast (fst e))"
    by (simp add: is_dir_at_def)
qed simp

lemma disk_ok_inodes:
  assumes "disk_ok d" and "length (inodes d) \<le> length x"
  shows "disk_ok (d\<lparr>inodes := x\<rparr>)"
  by (rule disk_ok_change[OF assms(1)]) (use assms in \<open>auto simp: is_dir_at_def dest!: disk_ok_parent\<close>)

lemma disk_ok_set [simp]: "disk_ok d \<Longrightarrow> disk_ok (set_data i b d)" "disk_ok d \<Longrightarrow> disk_ok (set_perm i m d)"
  by (simp_all add: set_data_def set_perm_def disk_ok_inodes)

lemma disk_ok_new:
  assumes "disk_ok d" and "p \<noteq> []" and "list_all good_name p" and "is_dir_at d (butlast p)" and "node_at d p = None"
    and "new_inode p perm d = (d', i)"
  shows "disk_ok d'"
proof -
  let ?d = "d\<lparr>inodes := inodes d @ [\<lparr>i_perm = perm AND ModePerm AND NOT (umask d), i_data = []\<rparr>]\<rparr>"
  have "d' = put_node p (Reg (length (inodes d))) ?d" using assms(6) by (auto simp: new_inode_def Let_def)
  moreover have "disk_ok (put_node p (Reg (length (inodes d))) ?d)"
    by (rule disk_ok_put) (use assms in \<open>auto simp: disk_ok_inodes is_dir_at_def inode_ok_def\<close>)
  ultimately show ?thesis by simp
qed

text \<open>A subtree moves to a place where nothing is.\<close>

lemma map_of_moved:
  assumes "\<And>e. e \<in> set xs \<Longrightarrow> \<not> prefix q (fst e)"
  shows "map_of (map (\<lambda>e. if prefix p (fst e) then (q @ drop (length p) (fst e), snd e) else e) xs) r =
    (if prefix q r then map_of xs (p @ drop (length q) r) else if prefix p r then None else map_of xs r)"
  using assms
proof (induction xs)
  case (Cons e xs)
  have ne: "\<not> prefix q (fst e)" using Cons.prems by simp
  have "q @ drop (length p) (fst e) = r \<longleftrightarrow> prefix q r \<and> fst e = p @ drop (length q) r" if "prefix p (fst e)"
    using that by (auto simp: prefix_def)
  moreover have "fst e \<noteq> p @ drop (length q) r" if "\<not> prefix p (fst e)" using that by auto
  moreover have "fst e \<noteq> r" if "prefix q r" using that ne by auto
  ultimately show ?case using Cons by (cases "prefix p (fst e)") auto
qed simp

lemma moved_nodes: "nodes (move_tree p q d) =
    map (\<lambda>e. if prefix p (fst e) then (q @ drop (length p) (fst e), snd e) else e) (filter (\<lambda>e. fst e \<noteq> q) (nodes d))"
  by (simp add: move_tree_def)

lemma node_at_move:
  assumes "\<not> has_child d q" and "p \<noteq> []" and "q \<noteq> []"
  shows "node_at (move_tree p q d) r =
    (if prefix q r then if p @ drop (length q) r = q then None else node_at d (p @ drop (length q) r)
     else if prefix p r then None else node_at d r)"
proof -
  have "map_of (nodes (move_tree p q d)) r =
      (if prefix q r then map_of (filter (\<lambda>e. fst e \<noteq> q) (nodes d)) (p @ drop (length q) r)
       else if prefix p r then None else map_of (filter (\<lambda>e. fst e \<noteq> q) (nodes d)) r)"
    unfolding moved_nodes
    by (rule map_of_moved) (use assms(1) in \<open>auto simp: has_child_def list_ex_iff strict_prefix_def\<close>)
  then show ?thesis using assms(2,3) by (auto simp: node_at_def map_of_filter_neq)
qed

lemma disk_ok_move:
  assumes "disk_ok d" and "p \<noteq> []" and "node_at d p \<noteq> None" and "q \<noteq> []" and "list_all good_name q"
    and "is_dir_at d (butlast q)" and "\<not> is_dir_at d q" and "\<not> prefix p q"
  shows "disk_ok (move_tree p q d)"
proof (rule disk_ok_change[OF assms(1)])
  have nc: "\<not> has_child d q"
    using assms(7) disk_ok_dir_above[OF assms(1)] by (metis has_child_iff[OF assms(1)] not_None_eq)
  note at = node_at_move[OF nc assms(2,4)]
  have pq: "\<not> prefix q p"
  proof
    assume "prefix q p"
    with assms(8) have "strict_prefix q p" by (auto simp: strict_prefix_def)
    with assms(3,7) show False using disk_ok_dir_above[OF assms(1)] by blast
  qed
  fix e assume "e \<in> set (nodes (move_tree p q d))"
  then have "e \<in> (\<lambda>x. if prefix p (fst x) then (q @ drop (length p) (fst x), snd x) else x) ` set (filter (\<lambda>e. fst e \<noteq> q) (nodes d))"
    by (simp add: moved_nodes)
  then obtain x where e: "e = (if prefix p (fst x) then (q @ drop (length p) (fst x), snd x) else x)"
    and "x \<in> set (filter (\<lambda>e. fst e \<noteq> q) (nodes d))" by (rule imageE)
  then have x: "x \<in> set (nodes d)" "fst x \<noteq> q" by simp_all
  have ok: "fst x \<noteq> []" "list_all good_name (fst x)" "is_dir_at d (butlast (fst x))" "inode_ok d (snd x)"
    using assms(1) x(1) by (auto simp: disk_ok_def list_all_iff)
  have "list_all good_name (drop (length p) (fst x))" using ok(2) by (auto simp: list_all_iff dest: in_set_dropD)
  then show "e \<in> set (nodes d) \<or> fst e \<noteq> [] \<and> list_all good_name (fst e) \<and> inode_ok (move_tree p q d) (snd e)"
    using e x(1) ok assms(4,5) by auto
  have keep: "is_dir_at (move_tree p q d) r" if "is_dir_at d r" "\<not> prefix q r" "\<not> prefix p r" for r
    using that at[of r] by (simp add: is_dir_at_def)
  have nq: "\<not> prefix q (fst x)"
    using x nc by (auto simp: has_child_def list_ex_iff strict_prefix_def)
  have below: "prefix r (butlast s) \<Longrightarrow> s \<noteq> [] \<Longrightarrow> prefix r s" for r s :: path
    using butlast_strict_prefix[of s] by (metis prefix_order.order_trans prefix_order.less_imp_le)
  consider "\<not> prefix p (fst x)" | "fst x = p" | "strict_prefix p (fst x)" by (auto simp: strict_prefix_def)
  then show "is_dir_at (move_tree p q d) (butlast (fst e))"
  proof cases
    case 1
    then show ?thesis using e ok nq below by (auto intro!: keep)
  next
    case 2
    have "\<not> prefix q (butlast q)" using butlast_strict_prefix[OF assms(4)] by (metis prefix_order.leD)
    then have "is_dir_at (move_tree p q d) (butlast q)" using assms(4,6,8) below[of p q] by (intro keep) auto
    with 2 e show ?thesis by simp
  next
    case 3
    then have b: "butlast (q @ drop (length p) (fst x)) = q @ drop (length p) (butlast (fst x))"
      and pb: "p @ drop (length p) (butlast (fst x)) = butlast (fst x)"
      by (auto simp: strict_prefix_def prefix_def butlast_append)
    have "butlast (fst x) \<noteq> q" using ok(3) assms(7) by auto
    then have "node_at (move_tree p q d) (q @ drop (length p) (butlast (fst x))) = node_at d (butlast (fst x))"
      using at[of "q @ drop (length p) (butlast (fst x))"] pb by simp
    with 3 b ok(3) e show ?thesis by (auto simp: is_dir_at_def strict_prefix_def)
  qed
qed simp

section \<open>Resolution\<close>

lemma link_names_nonempty: "list_all (\<lambda>c. c \<noteq> []) (link_names t)"
  by (auto simp: link_names_def list_all_iff)

lemma is_dir_at_good: "disk_ok d \<Longrightarrow> is_dir_at d p \<Longrightarrow> list_all good_name p"
  by (cases "p = []") (auto simp: is_dir_at_iff dest: disk_okD(1))

lemma is_dir_at_butlast: "disk_ok d \<Longrightarrow> is_dir_at d p \<Longrightarrow> is_dir_at d (butlast p)"
  by (cases "p = []") (auto simp: is_dir_at_iff[of d p] dest: disk_okD(2))

text \<open>A resolved path names a place in a directory, with no link left to follow.\<close>

lemma walk_place:
  "walk n follow d cur cs = Inr q \<Longrightarrow> disk_ok d \<Longrightarrow> is_dir_at d cur \<Longrightarrow> list_all (\<lambda>c. c \<noteq> []) cs \<Longrightarrow>
    is_dir_at d (butlast q) \<and> list_all good_name q \<and> (follow \<longrightarrow> (\<forall>t. node_at d q \<noteq> Some (Sym t)))"
proof (induction n follow d cur cs rule: walk.induct)
  case (1 n follow d cur)
  then show ?case using is_dir_at_butlast[of d cur] is_dir_at_good[of d cur] by (auto simp: is_dir_at_def)
next
  case (2 n follow d cur c cs)
  have good: "list_all good_name cur" using is_dir_at_good 2(6,7) by blast
  have start: "is_dir_at d (if HasPrefix t ''/'' then [] else cur)" for t using 2(7) by simp
  show ?case
  proof (cases "c = ''.'' \<or> c = ''..''")
    case True
    then show ?thesis using 2 is_dir_at_butlast[OF 2(6,7)] by (auto split: if_splits)
  next
    case False
    then have c: "list_all good_name (cur @ [c])" using good 2(8) by (simp add: good_name_def)
    show ?thesis
    proof (cases "node_at d (cur @ [c])")
      case None
      then show ?thesis using 2(5,7) False c by (auto split: if_splits)
    next
      case (Some x)
      show ?thesis
      proof (cases x)
        case (Reg i)
        then show ?thesis using 2(5,7) False c Some by (auto split: if_splits)
      next
        case (Dir m)
        then show ?thesis using 2(5,6,8) False Some 2(3)[of x m] by (auto simp: is_dir_at_iff)
      next
        case (Sym t)
        then show ?thesis using 2(5-8) False c Some 2(4)[of x t] start[of t] link_names_nonempty[of t]
          by (auto split: if_splits nat.splits)
      qed
    qed
  qed
qed

lemma resolve_place:
  assumes "resolve follow p d = Inr q" and "disk_ok d" and "list_all good_name p"
  shows "is_dir_at d (butlast q)" and "list_all good_name q" and "follow \<Longrightarrow> node_at d q \<noteq> Some (Sym t)"
proof -
  have "list_all (\<lambda>c. c \<noteq> []) p" using assms(3) by (auto simp: list_all_iff good_name_def)
  from walk_place[OF assms(1)[unfolded resolve_def] assms(2) _ this]
  show "is_dir_at d (butlast q)" and "list_all good_name q" and "follow \<Longrightarrow> node_at d q \<noteq> Some (Sym t)" by auto
qed

section \<open>Every call keeps the invariant\<close>

definition keeps_ok :: "(disk, 'e, 'a) sem \<Rightarrow> bool" where
  "keeps_ok m \<longleftrightarrow> (\<forall>d. disk_ok d \<longrightarrow> disk_ok (fst (m d)))"

named_theorems keeps_intros \<open>operations that keep the invariant of the disk\<close>

lemma keeps_okI: "(\<And>d. disk_ok d \<Longrightarrow> disk_ok (fst (m d))) \<Longrightarrow> keeps_ok m"
  by (simp add: keeps_ok_def)

lemma keeps_okD: "keeps_ok m \<Longrightarrow> disk_ok d \<Longrightarrow> disk_ok (fst (m d))"
  by (simp add: keeps_ok_def)

lemma keeps_andThen [keeps_intros]: "keeps_ok m \<Longrightarrow> (\<And>a. keeps_ok (f a)) \<Longrightarrow> keeps_ok (andThen m f)"
  by (fastforce simp: keeps_ok_def andThen_def split: prod.splits sum.splits)

lemma keeps_ret [keeps_intros]: "keeps_ok (ret a)" "keeps_ok (fail e)"
  by (simp_all add: keeps_ok_def)

lemma keeps_foldM [keeps_intros]: "(\<And>x a. keeps_ok (f x a)) \<Longrightarrow> keeps_ok (foldM f xs a)"
  by (induction xs arbitrary: a) (auto intro!: keeps_intros)

lemma keeps_Mkdir [keeps_intros]: "list_all good_name p \<Longrightarrow> keeps_ok (Mkdir p perm)"
  by (rule keeps_okI)
    (auto simp: Mkdir_def inode_ok_def is_dir_at_def intro!: disk_ok_put dest: resolve_place split: sum.splits)

lemma good_butlast: "list_all good_name p \<Longrightarrow> list_all good_name (butlast p)"
  by (auto simp: list_all_iff dest: in_set_butlastD)

lemma keeps_MkdirAll [keeps_intros]: "list_all good_name p \<Longrightarrow> keeps_ok (MkdirAll p perm)"
proof (rule keeps_okI)
  fix d assume "disk_ok d" "list_all good_name p"
  then show "disk_ok (fst (MkdirAll p perm d))"
  proof (induction p perm d rule: MkdirAll.induct)
    case (1 p perm d)
    show ?case
    proof (cases "is_dir (Stat p d) \<or> p = [] \<or> \<not> isl (Stat p d)")
      case True
      then show ?thesis using 1(2) by (subst MkdirAll.simps) (auto simp: is_dir_def split: sum.splits)
    next
      case False
      obtain d' r where b: "MkdirAll (butlast p) perm d = (d', r)" by fastforce
      obtain d'' r' where m: "Mkdir p perm d' = (d'', r')" by fastforce
      have "disk_ok d'" using 1(1)[OF _ _ 1(2) good_butlast[OF 1(3)]] False b by (cases "Stat p d") auto
      moreover from this have "disk_ok d''" using keeps_okD[OF keeps_Mkdir[OF 1(3)], of d' perm] m by simp
      moreover obtain e where "Stat p d = Inl e" using False by (cases "Stat p d") auto
      ultimately show ?thesis using False b m
        by (subst MkdirAll.simps) (cases r; cases r'; simp add: andThen_def)
    qed
  qed
qed

lemma keeps_Remove [keeps_intros]: "keeps_ok (Remove p)"
  by (rule keeps_okI)
    (auto simp: Remove_def is_dir_at_def intro!: disk_ok_cut split: sum.splits option.splits node.splits)

lemma keeps_RemoveAll [keeps_intros]: "keeps_ok (RemoveAll p)"
  by (rule keeps_okI) (auto simp: RemoveAll_def intro!: disk_ok_cut_tree split: sum.splits)

lemma keeps_Symlink [keeps_intros]: "list_all good_name p \<Longrightarrow> keeps_ok (Symlink t p)"
  by (rule keeps_okI)
    (auto simp: Symlink_def inode_ok_def is_dir_at_def intro!: disk_ok_put dest: resolve_place split: sum.splits)

lemma Lstat_node:
  assumes "Lstat p d = Inr n"
  obtains q where "resolve False p d = Inr q" and "node_at d q = Some n"
  using assms by (auto simp: Lstat_def split: sum.splits option.splits)

lemma keeps_Link [keeps_intros]:
  assumes "list_all good_name new"
  shows "keeps_ok (Link old new)"
proof (rule keeps_okI)
  fix d assume d: "disk_ok d"
  have "disk_ok (put_node q n d)"
    if l: "Lstat old d = Inr n" and that: "resolve False new d = Inr q" "node_at d q = None" for q n
  proof -
    obtain q' where q': "node_at d q' = Some n" using l by (rule Lstat_node)
    have "inode_ok d n" using disk_okD(3)[OF d q'] q' by (cases "q' = []") (auto simp: inode_ok_def)
    then show ?thesis using d that resolve_place[OF that(1) d assms]
      by (intro disk_ok_put) (auto simp: is_dir_at_def)
  qed
  with d show "disk_ok (fst (Link old new d))" by (auto simp: Link_def split: sum.splits)
qed

lemma keeps_Rename [keeps_intros]:
  assumes "list_all good_name new"
  shows "keeps_ok (Rename old new)"
proof (rule keeps_okI)
  fix d assume d: "disk_ok d"
  have "disk_ok (move_tree p q d)"
    if "resolve False new d = Inr q" "node_at d p = Some n" "p \<noteq> []" "p \<noteq> q" "\<not> strict_prefix p q" "\<not> is_dir_at d q" for p q n
    using that resolve_place[OF that(1) d assms] d
    by (intro disk_ok_move) (auto simp: strict_prefix_def)
  with d show "disk_ok (fst (Rename old new d))"
    by (auto simp: Rename_def is_dir_at_def split: sum.splits option.splits node.splits)
qed

lemma keeps_open_create [keeps_intros]:
  assumes "list_all good_name p"
  shows "keeps_ok (open_create trunc p perm)"
proof (rule keeps_okI)
  fix d assume d: "disk_ok d"
  show "disk_ok (fst (open_create trunc p perm d))"
  proof (cases "resolve True p d")
    case (Inr q)
    note place = resolve_place[OF Inr d assms]
    obtain d' i where new: "new_inode q perm d = (d', i)" by fastforce
    have "disk_ok d'" if "node_at d q = None" using that place d by (intro disk_ok_new[OF _ _ _ _ _ new]) auto
    with Inr new d show ?thesis by (auto simp: open_create_def split: option.splits node.splits)
  qed (use d in \<open>simp add: open_create_def\<close>)
qed

lemma keeps_open_excl [keeps_intros]:
  assumes "list_all good_name p"
  shows "keeps_ok (open_excl p perm)"
proof (rule keeps_okI)
  fix d assume d: "disk_ok d"
  show "disk_ok (fst (open_excl p perm d))"
  proof (cases "resolve False p d")
    case (Inr q)
    note place = resolve_place[OF Inr d assms]
    obtain d' i where new: "new_inode q perm d = (d', i)" by fastforce
    have "disk_ok d'" if "node_at d q = None" using that place d by (intro disk_ok_new[OF _ _ _ _ _ new]) auto
    with Inr new d show ?thesis by (auto simp: open_excl_def split: option.splits node.splits)
  qed (use d in \<open>simp add: open_excl_def\<close>)
qed

lemma keeps_set [keeps_intros]:
  "keeps_ok (\<lambda>d. (set_data i (f d) d, r d))" "keeps_ok (\<lambda>d. (set_perm i m d, r d))"
  by (simp_all add: keeps_ok_def)

lemma keeps_WriteFile [keeps_intros]: "list_all good_name p \<Longrightarrow> keeps_ok (WriteFile p b perm)"
  unfolding WriteFile_def by (intro keeps_intros)

lemma keeps_append_file [keeps_intros]: "list_all good_name p \<Longrightarrow> keeps_ok (append_file p b perm)"
  unfolding append_file_def by (intro keeps_intros)

lemma keeps_Chmod [keeps_intros]:
  assumes "list_all good_name p"
  shows "keeps_ok (Chmod p perm)"
proof (rule keeps_okI)
  fix d assume d: "disk_ok d"
  show "disk_ok (fst (Chmod p perm d))"
  proof (cases "resolve True p d")
    case (Inr q)
    have "disk_ok (put_node q (Dir (perm AND ModePerm)) d)" if "q \<noteq> []"
      using that resolve_place[OF Inr d assms] d by (intro disk_ok_put) (auto simp: inode_ok_def is_dir_def)
    with Inr d show ?thesis by (auto simp: Chmod_def split: option.splits node.splits)
  qed (use d in \<open>simp add: Chmod_def\<close>)
qed

lemma long_name_good: "2 < length c \<Longrightarrow> good_name c"
  by (auto simp: good_name_def)

lemma keeps_MkdirTemp [keeps_intros]:
  assumes "list_all good_name dir" and "length pre > 2"
  shows "keeps_ok (MkdirTemp dir pre rs)"
proof -
  have good: "list_all good_name (dir @ [pre @ r])" for r
    using assms by (simp add: long_name_good)
  have "disk_ok (fst (MkdirTemp dir pre rs d))" if "disk_ok d" for d
    using that
  proof (induction rs arbitrary: d)
    case (Cons r rs)
    obtain d' x where m: "Mkdir (dir @ [pre @ r]) 0x1C0 d = (d', x)" by fastforce
    then have "disk_ok d'" using keeps_okD[OF keeps_Mkdir[OF good] Cons.prems, of r "0x1C0"] by simp
    with m Cons.IH[of d'] show ?case by (cases x) simp_all
  qed simp
  then show ?thesis by (rule keeps_okI)
qed

lemma clean_onto_good: "list_all good_name p \<Longrightarrow> list_all good_name (clean_onto p cs)"
  by (induction p cs rule: clean_onto.induct) (auto simp: good_butlast good_name_def)

lemma join_path_good [simp]: "list_all good_name p \<Longrightarrow> list_all good_name (join_path p name)"
  by (simp add: join_path_def clean_onto_good)

section \<open>Paths without links\<close>

text \<open>
  Below a path without links, resolution is the identity; a name missing on the way is \<open>ENOENT\<close>.
\<close>

definition dirs_above :: "disk \<Rightarrow> path \<Rightarrow> bool" where
  "dirs_above d p \<longleftrightarrow> list_all (\<lambda>k. is_dir_at d (take k p)) [0..<length p]"

text \<open>No file and no link on the way.\<close>

definition clear_above :: "disk \<Rightarrow> path \<Rightarrow> bool" where
  "clear_above d p \<longleftrightarrow> list_all (\<lambda>k. node_at d (take k p) = None \<or> is_dir_at d (take k p)) [0..<length p]"

lemma strict_prefix_take: "strict_prefix q p \<longleftrightarrow> (\<exists>k < length p. q = take k p)"
proof
  assume "strict_prefix q p"
  then have "q = take (length q) p" "length q < length p" by (auto simp: strict_prefix_def prefix_def)
  then show "\<exists>k < length p. q = take k p" by blast
next
  assume "\<exists>k < length p. q = take k p"
  then obtain k where k: "k < length p" "q = take k p" by blast
  then have "length q < length p" by simp
  with k(2) show "strict_prefix q p" unfolding strict_prefix_def by (metis take_is_prefix less_irrefl)
qed

lemma dirs_above_iff: "dirs_above d p \<longleftrightarrow> (\<forall>q. strict_prefix q p \<longrightarrow> is_dir_at d q)"
  unfolding dirs_above_def list_all_iff strict_prefix_take by fastforce

lemma clear_above_iff: "clear_above d p \<longleftrightarrow> (\<forall>q. strict_prefix q p \<longrightarrow> node_at d q = None \<or> is_dir_at d q)"
  unfolding clear_above_def list_all_iff strict_prefix_take by fastforce

lemma dirs_above_parent: "disk_ok d \<Longrightarrow> p \<noteq> [] \<Longrightarrow> dirs_above d p \<longleftrightarrow> is_dir_at d (butlast p)"
proof
  assume "disk_ok d" "p \<noteq> []" "is_dir_at d (butlast p)"
  then show "dirs_above d p" unfolding dirs_above_iff
    by (metis append_butlast_last_id disk_ok_dir_above is_dir_at_iff prefix_order.le_imp_less_or_eq prefix_snoc strict_prefix_def)
qed (simp add: dirs_above_iff butlast_strict_prefix)

lemma walk_clear:
  assumes "list_all good_name cs" and "\<And>ds. strict_prefix ds cs \<Longrightarrow> ds \<noteq> [] \<Longrightarrow> node_at d (cur @ ds) = None \<or> is_dir_at d (cur @ ds)"
    and "follow \<Longrightarrow> \<forall>t. node_at d (cur @ cs) \<noteq> Some (Sym t)"
  shows "walk n follow d cur cs =
    (if \<forall>ds. strict_prefix ds cs \<longrightarrow> ds \<noteq> [] \<longrightarrow> is_dir_at d (cur @ ds) then Inr (cur @ cs) else Inl ENOENT)"
  using assms
proof (induction cs arbitrary: cur)
  case (Cons c cs)
  have c: "c \<noteq> ''.''" "c \<noteq> ''..''" using Cons.prems(1) by (auto simp: good_name_def)
  show ?case
  proof (cases "cs = []")
    case True
    have "\<not> (strict_prefix ds [c] \<and> ds \<noteq> [])" for ds by (auto simp: strict_prefix_def prefix_Cons)
    with True c Cons.prems(3) show ?thesis by (auto split: option.splits node.splits)
  next
    case False
    have split: "(\<forall>ds. strict_prefix ds (c # cs) \<longrightarrow> ds \<noteq> [] \<longrightarrow> P ds) \<longleftrightarrow>
        P [c] \<and> (\<forall>ds. strict_prefix ds cs \<longrightarrow> ds \<noteq> [] \<longrightarrow> P (c # ds))" for P
      using False by (auto simp: strict_prefix_def prefix_Cons)
    have first: "node_at d (cur @ [c]) = None \<or> is_dir_at d (cur @ [c])"
      using Cons.prems(2)[of "[c]"] False by (auto simp: strict_prefix_def)
    have IH: "walk n follow d (cur @ [c]) cs =
      (if \<forall>ds. strict_prefix ds cs \<longrightarrow> ds \<noteq> [] \<longrightarrow> is_dir_at d ((cur @ [c]) @ ds) then Inr ((cur @ [c]) @ cs) else Inl ENOENT)"
      by (rule Cons.IH) (use Cons.prems(1,3) Cons.prems(2)[of "c # _"] in \<open>auto simp: strict_prefix_def\<close>)
    show ?thesis
    proof (cases "node_at d (cur @ [c])")
      case None
      then show ?thesis using c False unfolding split by (simp add: is_dir_at_def)
    next
      case (Some x)
      with first obtain m where "x = Dir m" by (auto simp: is_dir_at_iff)
      with Some show ?thesis using c IH unfolding split by (auto simp: is_dir_at_iff)
    qed
  qed
qed simp

lemma resolve_clear:
  assumes "clear_above d p" and "list_all good_name p" and "follow \<Longrightarrow> \<forall>t. node_at d p \<noteq> Some (Sym t)"
  shows "resolve follow p d = (if dirs_above d p then Inr p else Inl ENOENT)"
proof -
  have "resolve follow p d = (if \<forall>ds. strict_prefix ds p \<longrightarrow> ds \<noteq> [] \<longrightarrow> is_dir_at d ([] @ ds) then Inr ([] @ p) else Inl ENOENT)"
    unfolding resolve_def by (rule walk_clear) (use assms in \<open>auto simp: clear_above_iff\<close>)
  moreover have "(\<forall>ds. strict_prefix ds p \<longrightarrow> ds \<noteq> [] \<longrightarrow> is_dir_at d ([] @ ds)) \<longleftrightarrow> dirs_above d p"
    by (auto simp: dirs_above_iff)
  ultimately show ?thesis by simp
qed

lemma clear_above_dirs: "dirs_above d p \<Longrightarrow> clear_above d p"
  by (simp add: dirs_above_iff clear_above_iff)

lemma clear_above_prefix: "clear_above d p \<Longrightarrow> prefix q p \<Longrightarrow> clear_above d q"
  by (meson clear_above_iff prefix_order.less_le_trans)

lemma node_dirs_above: "disk_ok d \<Longrightarrow> node_at d p = Some n \<Longrightarrow> dirs_above d p"
  by (meson dirs_above_iff disk_ok_dir_above)

text \<open>The conditions under which a call sees the node it names.\<close>

definition plain_path :: "disk \<Rightarrow> path \<Rightarrow> bool" where
  "plain_path d p \<longleftrightarrow> disk_ok d \<and> list_all good_name p \<and> clear_above d p"

lemma plainD: "plain_path d p \<Longrightarrow> disk_ok d" "plain_path d p \<Longrightarrow> list_all good_name p" "plain_path d p \<Longrightarrow> clear_above d p"
  by (simp_all add: plain_path_def)

lemma plain_prefix: "plain_path d p \<Longrightarrow> prefix q p \<Longrightarrow> plain_path d q"
  by (auto simp: plain_path_def clear_above_prefix list_all_iff dest: set_mono_prefix)

lemma node_plain: "disk_ok d \<Longrightarrow> node_at d p = Some n \<Longrightarrow> plain_path d p"
  using disk_okD(1)[of d p n] by (cases "p = []") (auto simp: plain_path_def clear_above_iff dirs_above_iff dest: node_dirs_above)

lemma resolve_plain:
  assumes "plain_path d p" and "follow \<Longrightarrow> \<forall>t. node_at d p \<noteq> Some (Sym t)"
  shows "resolve follow p d = (if dirs_above d p then Inr p else Inl ENOENT)"
  using assms by (simp add: plain_path_def resolve_clear)

lemma Lstat_plain: "plain_path d p \<Longrightarrow> Lstat p d = (case node_at d p of None \<Rightarrow> Inl ENOENT | Some n \<Rightarrow> Inr n)"
  using node_dirs_above[of d p] by (auto simp: Lstat_def resolve_plain plainD(1) split: option.splits)

lemma Stat_plain:
  "plain_path d p \<Longrightarrow> \<forall>t. node_at d p \<noteq> Some (Sym t) \<Longrightarrow> Stat p d = (case node_at d p of None \<Rightarrow> Inl ENOENT | Some n \<Rightarrow> Inr n)"
  using node_dirs_above[of d p] by (auto simp: Stat_def resolve_plain plainD(1) split: option.splits)

lemma ReadFile_plain: "plain_path d p \<Longrightarrow> node_at d p = Some (Reg i) \<Longrightarrow> ReadFile p d = Inr (get_data i d)"
  by (simp add: ReadFile_def Stat_plain)

text \<open>After \<open>MkdirAll\<close> every missing directory on the way is there, and nothing else has changed.\<close>

definition made :: "path \<Rightarrow> 32 word \<Rightarrow> disk \<Rightarrow> disk \<Rightarrow> bool" where
  "made p perm d d' \<longleftrightarrow> disk_ok d' \<and> inodes d' = inodes d \<and> umask d' = umask d \<and>
     (\<forall>q. node_at d' q = (if prefix q p \<and> node_at d q = None then Some (Dir (perm AND ModePerm AND NOT (umask d))) else node_at d q))"

lemma MkdirAll_plain:
  "plain_path d p \<Longrightarrow> node_at d p = None \<or> is_dir_at d p \<Longrightarrow> \<exists>d'. MkdirAll p perm d = (d', Inr ()) \<and> made p perm d d'"
proof (induction p rule: rev_induct)
  case Nil
  then show ?case by (simp add: MkdirAll.simps Stat_plain is_dir_def made_def plainD)
next
  case (snoc c p)
  let ?p = "p @ [c]"
  have link: "\<forall>t. node_at d ?p \<noteq> Some (Sym t)" using snoc.prems(2) by (auto simp: is_dir_at_def)
  show ?case
  proof (cases "node_at d ?p")
    case (Some n)
    with snoc.prems have "is_dir (Inr n)" by (auto simp: is_dir_def is_dir_at_iff)
    moreover have "\<not> (prefix q ?p \<and> node_at d q = None)" for q
      using disk_ok_dir_above[OF plainD(1)[OF snoc.prems(1)] Some, of q] Some
      by (auto simp: is_dir_at_iff prefix_order.le_less)
    then have "made ?p perm d d" using plainD(1)[OF snoc.prems(1)] by (auto simp: made_def)
    ultimately show ?thesis using Some snoc.prems(1) link by (subst MkdirAll.simps) (simp add: Stat_plain)
  next
    case None
    have "node_at d p = None \<or> is_dir_at d p"
      using plainD(3)[OF snoc.prems(1)] by (auto simp: clear_above_iff strict_prefix_def)
    then obtain d' where m: "MkdirAll p perm d = (d', Inr ())" "made p perm d d'"
      using snoc.IH plain_prefix[OF snoc.prems(1)] by auto
    then have at: "node_at d' q = (if prefix q p \<and> node_at d q = None then Some (Dir (perm AND ModePerm AND NOT (umask d))) else node_at d q)"
      and ok: "disk_ok d'" "inodes d' = inodes d" "umask d' = umask d" for q by (auto simp: made_def)
    have dir: "is_dir_at d' p" using at[of p] \<open>node_at d p = None \<or> is_dir_at d p\<close> by (auto simp: is_dir_at_iff)
    then have up: "dirs_above d' ?p" using dirs_above_parent[OF ok(1), of ?p] by simp
    have pl: "plain_path d' ?p" using ok(1) up plainD(2)[OF snoc.prems(1)] by (simp add: plain_path_def clear_above_dirs)
    have none: "node_at d' ?p = None" using at[of ?p] None by auto
    let ?d = "put_node ?p (Dir (perm AND ModePerm AND NOT (umask d))) d'"
    have mk: "Mkdir ?p perm d' = (?d, Inr ())"
      using resolve_plain[OF pl, of False] up none ok(3) by (simp add: Mkdir_def)
    have "made ?p perm d ?d" unfolding made_def
    proof (intro conjI allI)
      show "disk_ok ?d" using keeps_okD[OF keeps_Mkdir[OF plainD(2)[OF snoc.prems(1)]] ok(1), of perm] mk by simp
      show "node_at ?d q = (if prefix q ?p \<and> node_at d q = None then Some (Dir (perm AND ModePerm AND NOT (umask d))) else node_at d q)" for q
        using None by (simp add: at)
    qed (simp_all add: ok)
    moreover have "MkdirAll ?p perm d = (?d, Inr ())"
      using None snoc.prems(1) m(1) mk by (subst MkdirAll.simps) (simp add: Stat_plain andThen_def)
    ultimately show ?thesis by blast
  qed
qed

end
