(* ===== verification/Writer.thy ===== *)
theory Writer
  imports FileSystem Content
begin

text \<open>
  \<^verbatim>\<open>internal/files/writer.go\<close> and \<^verbatim>\<open>preallocate_linux.go\<close>: applying the entries of an archive to a
  directory (\<open>WriteTar\<close>, \<open>writeObject\<close>), with the removal and second attempt after an error, packs that
  are unpacked beside the directory and swapped in, and cached packs that are hard-linked from the
  local cache (\<open>HardlinkDir\<close>).
\<close>

unbundle bit_operations_syntax

section \<open>External code\<close>

text \<open>
  The packages the client calls and that are not part of the repository: the parallel directory walk
  (the paths below a directory it reports, relative to it, with whether each is a directory, in the
  order of the calls of its callback), globs, the random names of temporary directories, and
  \<^verbatim>\<open>fsdiff\<close> with its summaries in serialised form.
\<close>

record fsdiff_update =
  u_Path :: string
  u_Remove :: bool

record host =
  fastwalk :: "disk \<Rightarrow> path \<Rightarrow> (errno + path \<times> bool) list"
  temp_names :: "disk \<Rightarrow> string list"
  glob_compiles :: "string \<Rightarrow> bool"
  glob_match :: "string \<Rightarrow> string \<Rightarrow> bool"
  num_cpu :: int
  ReadSummary :: "path \<Rightarrow> disk \<Rightarrow> errno + bytes"
  WriteSummary :: "path \<Rightarrow> bytes \<Rightarrow> unit os"
  fsdiff_Diff :: "path \<Rightarrow> string list \<Rightarrow> bytes \<Rightarrow> disk \<Rightarrow> errno + fsdiff_update list \<times> bytes"

datatype ferr = Os errno | TarError dberr | UnhandledType char | BadGlob

type_synonym 'a io = "(disk, ferr, 'a) sem"

definition os_call :: "'a os \<Rightarrow> 'a io" where
  "os_call m d = (case m d of (d', Inl e) \<Rightarrow> (d', Inl (Os e)) | (d', Inr a) \<Rightarrow> (d', Inr a))"

section \<open>Matching\<close>

record FileMatcher =
  m_include :: "string option"
  m_exclude :: "string option"

definition NewFileMatcher :: "host \<Rightarrow> string \<Rightarrow> string \<Rightarrow> ferr + FileMatcher" where
  "NewFileMatcher H inc exc =
     (if inc \<noteq> [] \<and> \<not> glob_compiles H inc then Inl BadGlob
      else if exc \<noteq> [] \<and> \<not> glob_compiles H exc then Inl BadGlob
      else Inr \<lparr>m_include = (if inc = [] then None else Some inc),
                m_exclude = (if exc = [] then None else Some exc)\<rparr>)"

definition Match :: "host \<Rightarrow> FileMatcher \<Rightarrow> string \<Rightarrow> bool" where
  "Match H f filename =
     (let result = (case m_include f of Some g \<Rightarrow> glob_match H g filename | None \<Rightarrow> True) in
      case m_exclude f of
        Some g \<Rightarrow> if result then \<not> glob_match H g filename else result
      | None \<Rightarrow> result)"

section \<open>Writing one object\<close>

definition fileExists :: "path \<Rightarrow> disk \<Rightarrow> bool" where
  "fileExists p d \<longleftrightarrow> \<not> isl (Lstat p d)"

definition retryFileErrors :: "path \<Rightarrow> 'a os \<Rightarrow> 'a os" where
  "retryFileErrors path fn d =
     (case fn d of
        (d', Inr r) \<Rightarrow> (d', Inr r)
      | (d', Inl e) \<Rightarrow> andThen (RemoveAll path) (\<lambda>_. fn) d')"

text \<open>\<^verbatim>\<open>fallocate\<close> extends the file with zeroes.\<close>

definition PreAllocate :: "nat \<Rightarrow> int \<Rightarrow> disk \<Rightarrow> disk" where
  "PreAllocate file sz d =
     (if sz > 0 then
        set_data file (get_data file d @ replicate (nat sz - length (get_data file d)) CHR 0x00) d
      else d)"

definition CopyContent :: "nat \<Rightarrow> bytes \<Rightarrow> disk \<Rightarrow> disk" where
  "CopyContent file content d = set_data file (content @ drop (length content) (get_data file d)) d"

definition fix_mode :: "nat \<Rightarrow> 32 word \<Rightarrow> disk \<Rightarrow> disk" where
  "fix_mode file mode d = (if info_mode d (Reg file) \<noteq> mode then set_perm file mode d else d)"

definition write_regular :: "path \<Rightarrow> tar_header \<Rightarrow> bytes \<Rightarrow> path list \<Rightarrow> path list io" where
  "write_regular path header content existingDirs =
     (let dir = butlast path; createdDir = (dir \<notin> set existingDirs) in
      andThen (if createdDir then os_call (retryFileErrors dir (MkdirAll dir 0x1FF)) else ret ()) (\<lambda>_.
      andThen (os_call (retryFileErrors path (open_create True path (FileMode (h_Mode header))))) (\<lambda>file d.
        let d1 = CopyContent file content (PreAllocate file (h_Size header) d) in
        (if createdDir then d1 else fix_mode file (FileMode (h_Mode header)) d1,
         Inr (if createdDir then dir # existingDirs else existingDirs)))))"

definition makeSymlink :: "string \<Rightarrow> path \<Rightarrow> unit io" where
  "makeSymlink oldname newname =
     (let dir = butlast newname in
      andThen (os_call (retryFileErrors dir (MkdirAll dir 0x1FF)))
        (\<lambda>_. os_call (retryFileErrors newname (Symlink oldname newname))))"

text \<open>The callback of the walk, on the path relative to both directories.\<close>

definition link_one :: "path \<Rightarrow> path \<Rightarrow> errno + path \<times> bool \<Rightarrow> unit \<Rightarrow> unit io" where
  "link_one olddir newdir entry u d =
     (case entry of
        Inl e \<Rightarrow> (d, Inl (Os e))
      | Inr (rel, isDir) \<Rightarrow>
          let oldpath = olddir @ rel; newpath = clean_onto newdir rel in
          if newpath = newdir then (d, Inr ())
          else if isDir then
            (case Lstat oldpath d of
               Inl e \<Rightarrow> (d, Inl (Os e))
             | Inr info \<Rightarrow> os_call (Mkdir newpath (info_mode d info)) d)
          else os_call (Link oldpath newpath) d)"

definition HardlinkDir :: "host \<Rightarrow> path \<Rightarrow> path \<Rightarrow> unit io" where
  "HardlinkDir H olddir newdir =
     andThen (\<lambda>d. if fileExists newdir d then os_call (RemoveAll newdir) d else (d, Inr ())) (\<lambda>_ d.
       case Lstat olddir d of
         Inl e \<Rightarrow> (d, Inl (Os e))
       | Inr rootInfo \<Rightarrow>
           andThen (os_call (MkdirAll newdir (info_mode d rootInfo)))
             (\<lambda>_ d'. foldM (link_one olddir newdir) (fastwalk H d' olddir) () d') d)"

definition writeObject :: "host \<Rightarrow> path \<Rightarrow> path \<Rightarrow> tar_entry \<Rightarrow> path list \<Rightarrow> path list io" where
  "writeObject H rootDir cacheObjectsDir entry existingDirs =
     (let header = fst entry; content = snd entry; path = join_path rootDir (h_Name header) in
      if h_Typeflag header = TarCached then
        andThen (HardlinkDir H (join_path (join_path cacheObjectsDir (EncodeToString content)) (h_Name header)) path)
          (\<lambda>_. ret existingDirs)
      else if h_Typeflag header = TypeReg then write_regular path header content existingDirs
      else if h_Typeflag header = TypeDir then
        (if path \<in> set existingDirs then ret existingDirs
         else andThen (os_call (retryFileErrors path (MkdirAll path 0x1FF))) (\<lambda>_. ret (path # existingDirs)))
      else if h_Typeflag header = TypeSymlink then
        andThen (makeSymlink (h_Linkname header) path) (\<lambda>_. ret existingDirs)
      else if h_Typeflag header = TarDeleted then
        (\<lambda>d. case Remove path d of
           (d', Inl e) \<Rightarrow> (d', if e \<in> {ENOENT, EEXIST, ENOTEMPTY} then Inr existingDirs else Inl (Os e))
         | (d', Inr _) \<Rightarrow> (d', Inr existingDirs))
      else fail (UnhandledType (h_Typeflag header)))"

section \<open>Writing an archive\<close>

fun write_entries :: "host \<Rightarrow> path \<Rightarrow> path \<Rightarrow> FileMatcher option \<Rightarrow> bool \<Rightarrow> tar_entry list \<Rightarrow>
    path list \<Rightarrow> 32 word \<Rightarrow> bool \<Rightarrow> (32 word \<times> bool) io" where
  "write_entries H dir cacheObjectsDir matcher clean [] existingDirs written fileMatch =
     (if clean then ret (written, fileMatch) else fail (TarError ErrTarRead))"
| "write_entries H dir cacheObjectsDir matcher clean (e # es) existingDirs written fileMatch =
     (let fileMatch' = (case matcher of
            Some m \<Rightarrow> if Match H m (h_Name (fst e)) then fileMatch else False
          | None \<Rightarrow> fileMatch) in
      andThen (writeObject H dir cacheObjectsDir e existingDirs)
        (\<lambda>existingDirs'. write_entries H dir cacheObjectsDir matcher clean es existingDirs' (written + 1) fileMatch'))"

definition write_all :: "host \<Rightarrow> path \<Rightarrow> path \<Rightarrow> FileMatcher option \<Rightarrow> tar_reader \<Rightarrow> (32 word \<times> bool) io" where
  "write_all H dir cacheObjectsDir matcher reader =
     write_entries H dir cacheObjectsDir matcher (tr_clean reader) (tr_rest reader) [] 0 True"

definition swap_pack :: "path \<Rightarrow> path \<Rightarrow> string \<Rightarrow> unit io" where
  "swap_pack dir finalDir packPath =
     andThen (os_call (RemoveAll (join_path finalDir packPath))) (\<lambda>_ d.
       if fileExists (join_path dir packPath) d
       then os_call (Rename (join_path dir packPath) (join_path finalDir packPath)) d
       else (d, Inr ()))"

definition tmp_prefix :: string where
  "tmp_prefix = ''dateilager_pack_path_''"

definition WriteTar :: "host \<Rightarrow> path \<Rightarrow> path \<Rightarrow> tar_reader \<Rightarrow> string option \<Rightarrow> FileMatcher option \<Rightarrow> (32 word \<times> bool) io" where
  "WriteTar H finalDir cacheObjectsDir reader packPath matcher d =
     (case packPath of
        None \<Rightarrow> write_all H finalDir cacheObjectsDir matcher reader d
      | Some pp \<Rightarrow>
          if \<not> fileExists (join_path finalDir pp) d then write_all H finalDir cacheObjectsDir matcher reader d
          else
            (case MkdirTemp (finalDir @ [''.dl'']) tmp_prefix (temp_names H d) d of
               (d1, Inl e) \<Rightarrow> (d1, Inl (Os e))
             | (d1, Inr tmpDir) \<Rightarrow>
                 (case andThen (write_all H tmpDir cacheObjectsDir matcher reader)
                         (\<lambda>res. andThen (swap_pack tmpDir finalDir pp) (\<lambda>_. ret res)) d1 of
                    (d2, r) \<Rightarrow> (fst (RemoveAll tmpDir d2), r))))"

section \<open>The invariant is kept\<close>

lemma keeps_os_call [keeps_intros]: "keeps_ok m \<Longrightarrow> keeps_ok (os_call m)"
  by (fastforce simp: keeps_ok_def os_call_def split: prod.splits sum.splits)

lemma keeps_if [keeps_intros]: "keeps_ok m \<Longrightarrow> keeps_ok n \<Longrightarrow> keeps_ok (if b then m else n)"
  by simp

lemma keeps_retry [keeps_intros]:
  assumes "keeps_ok fn"
  shows "keeps_ok (retryFileErrors path fn)"
proof (rule keeps_okI)
  fix d assume "disk_ok d"
  moreover obtain d' r where f: "fn d = (d', r)" by fastforce
  ultimately have "disk_ok d'" using keeps_okD[OF assms, of d] by simp
  then have "disk_ok (fst (andThen (RemoveAll path) (\<lambda>_. fn) d'))"
    by (rule keeps_okD[OF keeps_andThen[OF keeps_RemoveAll assms]])
  with \<open>disk_ok d'\<close> f show "disk_ok (fst (retryFileErrors path fn d))"
    by (cases r) (simp_all add: retryFileErrors_def)
qed

lemma PreAllocate_ok [simp]: "disk_ok d \<Longrightarrow> disk_ok (PreAllocate f n d)"
  by (simp add: PreAllocate_def)

lemma write_handle_ok [simp]: "disk_ok d \<Longrightarrow> disk_ok (CopyContent f c d)" "disk_ok d \<Longrightarrow> disk_ok (fix_mode f m d)"
  by (simp_all add: CopyContent_def fix_mode_def)

lemma keeps_write_regular [keeps_intros]: "list_all good_name p \<Longrightarrow> keeps_ok (write_regular p h c ex)"
  unfolding write_regular_def Let_def
  by (intro keeps_intros good_butlast, assumption+) (rule keeps_okI, simp)

lemma keeps_makeSymlink [keeps_intros]: "list_all good_name p \<Longrightarrow> keeps_ok (makeSymlink t p)"
  unfolding makeSymlink_def Let_def by (intro keeps_intros good_butlast)

lemma keeps_link_one [keeps_intros]:
  assumes "list_all good_name new"
  shows "keeps_ok (link_one old new e u)"
proof (rule keeps_okI)
  fix d assume d: "disk_ok d"
  note good = clean_onto_good[OF assms]
  have "disk_ok (fst (os_call (Mkdir (clean_onto new rel) m) d))" "disk_ok (fst (os_call (Link o1 (clean_onto new rel)) d))" for rel m o1
    by (rule keeps_okD[OF _ d], intro keeps_intros good)+
  with d show "disk_ok (fst (link_one old new e u d))"
    by (simp add: link_one_def Let_def split: sum.splits prod.splits)
qed

text \<open>An operation that depends on what it reads keeps the invariant if every instance does.\<close>

lemma keeps_read: "(\<And>x. keeps_ok (f x)) \<Longrightarrow> keeps_ok (\<lambda>d. f (g d) d)"
  by (simp add: keeps_ok_def)

lemma keeps_case_sum [keeps_intros]:
  "(\<And>a. keeps_ok (f a)) \<Longrightarrow> (\<And>b. keeps_ok (g b)) \<Longrightarrow> keeps_ok (\<lambda>d. case x of Inl a \<Rightarrow> f a d | Inr b \<Rightarrow> g b d)"
  by (cases x) simp_all

lemma keeps_HardlinkDir [keeps_intros]:
  assumes "list_all good_name new"
  shows "keeps_ok (HardlinkDir H old new)"
proof -
  have "keeps_ok (\<lambda>d. if fileExists new d then os_call (RemoveAll new) d else (d, Inr ()))"
    by (rule keeps_okI) (simp add: keeps_okD[OF keeps_os_call[OF keeps_RemoveAll]])
  moreover have "keeps_ok (\<lambda>d. foldM (link_one old new) (fastwalk H d old) () d)"
    by (rule keeps_read[of "\<lambda>x. foldM (link_one old new) x ()"], intro keeps_intros assms)
  then have "keeps_ok (andThen (os_call (MkdirAll new m)) (\<lambda>_ d'. foldM (link_one old new) (fastwalk H d' old) () d'))" for m
    by (intro keeps_intros assms)
  then have "keeps_ok (\<lambda>d. case Lstat old d of Inl e \<Rightarrow> (d, Inl (Os e))
      | Inr r \<Rightarrow> andThen (os_call (MkdirAll new (info_mode d r))) (\<lambda>_ d'. foldM (link_one old new) (fastwalk H d' old) () d') d)"
    by (auto simp: keeps_ok_def split: sum.splits)
  ultimately show ?thesis unfolding HardlinkDir_def by (rule keeps_andThen)
qed

lemma keeps_writeObject [keeps_intros]:
  assumes "list_all good_name dir"
  shows "keeps_ok (writeObject H dir cache e ex)"
proof -
  let ?p = "join_path dir (h_Name (fst e))"
  have "keeps_ok (\<lambda>d. case Remove ?p d of
      (d', Inl e) \<Rightarrow> (d', if e \<in> {ENOENT, EEXIST, ENOTEMPTY} then Inr ex else Inl (Os e))
    | (d', Inr _) \<Rightarrow> (d', Inr ex))"
    using keeps_Remove[of ?p] by (fastforce simp: keeps_ok_def split: prod.splits sum.splits)
  then show ?thesis unfolding writeObject_def Let_def
    by (intro keeps_intros join_path_good assms)
qed

lemma keeps_write_entries [keeps_intros]:
  "list_all good_name dir \<Longrightarrow> keeps_ok (write_entries H dir cache m clean es ex n fm)"
  by (induction es arbitrary: ex n fm) (auto simp: Let_def intro!: keeps_intros)

lemma keeps_write_all [keeps_intros]: "list_all good_name dir \<Longrightarrow> keeps_ok (write_all H dir cache m r)"
  unfolding write_all_def by (intro keeps_intros)

lemma keeps_swap_pack [keeps_intros]:
  assumes "list_all good_name final"
  shows "keeps_ok (swap_pack dir final pp)"
proof -
  have "keeps_ok (\<lambda>d. if fileExists x d then os_call (Rename x (join_path final pp)) d else (d, Inr ()))" for x
    by (rule keeps_okI) (simp add: keeps_okD[OF keeps_os_call[OF keeps_Rename]] assms)
  then show ?thesis unfolding swap_pack_def by (intro keeps_intros)
qed

lemma MkdirTemp_place: "MkdirTemp dir pre rs d = (d', Inr t) \<Longrightarrow> \<exists>r \<in> set rs. t = dir @ [pre @ r]"
  by (induction rs arbitrary: d) (auto split: prod.splits sum.splits if_splits)

lemma keeps_WriteTar [keeps_intros]:
  assumes final: "list_all good_name final"
  shows "keeps_ok (WriteTar H final cache r pp m)"
proof (rule keeps_okI)
  fix d assume d: "disk_ok d"
  have all: "disk_ok (fst (write_all H final cache m r d))" using keeps_okD[OF keeps_write_all[OF final] d] .
  show "disk_ok (fst (WriteTar H final cache r pp m d))"
  proof (cases "pp = None \<or> \<not> fileExists (join_path final (the pp)) d")
    case True
    with all show ?thesis by (auto simp: WriteTar_def split: option.splits)
  next
    case False
    then obtain q where q: "pp = Some q" "fileExists (join_path final q) d" by auto
    obtain d1 t where t: "MkdirTemp (final @ [''.dl'']) tmp_prefix (temp_names H d) d = (d1, t)" by fastforce
    have dl: "list_all good_name (final @ [''.dl''])" using final by (simp add: good_name_def)
    have d1: "disk_ok d1"
      using keeps_okD[OF keeps_MkdirTemp[OF dl, of tmp_prefix "temp_names H d"] d] t by (simp add: tmp_prefix_def)
    show ?thesis
    proof (cases t)
      case (Inl e)
      with q t d1 show ?thesis by (simp add: WriteTar_def)
    next
      case (Inr tmp)
      let ?m = "andThen (write_all H tmp cache m r) (\<lambda>res. andThen (swap_pack tmp final q) (\<lambda>_. ret res))"
      have "list_all good_name tmp"
        using MkdirTemp_place t Inr dl by (fastforce simp: long_name_good tmp_prefix_def)
      then have k: "keeps_ok ?m" by (intro keeps_intros final)
      obtain d2 x where d2: "?m d1 = (d2, x)" by fastforce
      with keeps_okD[OF k d1] have "disk_ok d2" by simp
      from keeps_okD[OF keeps_RemoveAll this] q t Inr d2 show ?thesis by (simp add: WriteTar_def)
    qed
  qed
qed

end
