(* ===== verification/Mirror.thy ===== *)
theory Mirror
  imports Writer
begin

text \<open>
  What writing an archive does to the files below a directory. A tree is seen through its leaves,
  the contents of its files and the targets of its links. The lemmas hold for entries that fit the tree: no
  file or link stands on the way to their path or is buried below it, and no link stands where a
  file or a directory is to be written.
\<close>

section \<open>Leaves\<close>

datatype leaf = LFile bytes | LLink string

definition leaf_at :: "disk \<Rightarrow> path \<Rightarrow> leaf option" where
  "leaf_at d p =
     (case node_at d p of
        Some (Reg i) \<Rightarrow> Some (LFile (get_data i d))
      | Some (Sym t) \<Rightarrow> Some (LLink t)
      | _ \<Rightarrow> None)"

lemma leaf_at_None_iff: "leaf_at d p = None \<longleftrightarrow> node_at d p = None \<or> is_dir_at d p"
  by (auto simp: leaf_at_def is_dir_at_def split: option.splits node.splits)

lemma leaf_at_cong: "node_at d p = node_at d' q \<Longrightarrow> inodes d = inodes d' \<Longrightarrow> leaf_at d p = leaf_at d' q"
  by (simp add: leaf_at_def get_data_def split: option.splits node.splits)

text \<open>No file below \<open>R\<close> shares its content with another one there.\<close>

definition unshared :: "path \<Rightarrow> disk \<Rightarrow> bool" where
  "unshared R d \<longleftrightarrow> (\<forall>p q i. prefix R p \<longrightarrow> prefix R q \<longrightarrow> node_at d p = Some (Reg i) \<longrightarrow> node_at d q = Some (Reg i) \<longrightarrow> p = q)"

definition bare_below :: "disk \<Rightarrow> path \<Rightarrow> bool" where
  "bare_below d p \<longleftrightarrow> (\<forall>q. strict_prefix p q \<longrightarrow> leaf_at d q = None)"

text \<open>The effect of an operation on the path \<open>p\<close>, as the rest of the tree below \<open>R\<close> sees it.\<close>

definition touches :: "path \<Rightarrow> path \<Rightarrow> disk \<Rightarrow> disk \<Rightarrow> bool" where
  "touches R p d d' \<longleftrightarrow> disk_ok d' \<and> unshared R d' \<and> umask d' = umask d \<and> bare_below d' p \<and>
     (\<forall>q. \<not> prefix q p \<and> \<not> prefix p q \<longrightarrow> node_at d' q = node_at d q) \<and>
     (\<forall>q. strict_prefix q p \<longrightarrow> node_at d' q = node_at d q \<or> node_at d q = None \<and> is_dir_at d' q) \<and>
     (\<forall>q i. prefix R q \<and> q \<noteq> p \<and> node_at d q = Some (Reg i) \<longrightarrow> get_data i d' = get_data i d)"

lemma touches_leaf:
  assumes "touches R p d d'" and "bare_below d p" and "prefix R q" and "q \<noteq> p"
  shows "leaf_at d' q = leaf_at d q"
proof -
  consider "strict_prefix p q" | "strict_prefix q p" | "\<not> prefix q p" "\<not> prefix p q"
    using assms(4) by (auto simp: strict_prefix_def)
  then show ?thesis
  proof cases
    case 1
    then show ?thesis using assms(1,2) by (simp add: touches_def bare_below_def)
  next
    case 2
    then have n: "node_at d' q = node_at d q \<or> node_at d q = None \<and> is_dir_at d' q" using assms(1) by (simp add: touches_def)
    show ?thesis
    proof (cases "node_at d' q = node_at d q")
      case True
      then show ?thesis using assms by (auto simp: leaf_at_def touches_def split: option.splits node.splits)
    next
      case False
      then show ?thesis using n by (metis leaf_at_None_iff)
    qed
  next
    case 3
    then have "node_at d' q = node_at d q" using assms(1) by (simp add: touches_def)
    then show ?thesis using assms by (auto simp: leaf_at_def touches_def split: option.splits node.splits)
  qed
qed

text \<open>What an operation on one path leaves of the conditions on another.\<close>

lemma touches_clear:
  assumes "touches R p d d'" and "plain_path d q" and "\<not> prefix p q"
  shows "plain_path d' q"
proof -
  have "node_at d' r = None \<or> is_dir_at d' r" if "strict_prefix r q" for r
  proof -
    have "\<not> prefix p r" using that assms(3) by (meson prefix_order.order_trans prefix_order.less_imp_le)
    moreover have "node_at d r = None \<or> is_dir_at d r" using that assms(2) by (simp add: plain_path_def clear_above_iff)
    ultimately show ?thesis using assms(1) unfolding touches_def by (metis is_dir_at_def strict_prefix_def)
  qed
  then show ?thesis using assms(1,2) by (simp add: plain_path_def clear_above_iff touches_def)
qed

lemma touches_dir:
  assumes "touches R p d d'" and "is_dir_at d q" and "\<not> prefix p q"
  shows "is_dir_at d' q"
  using assms unfolding touches_def by (metis is_dir_at_def is_dir_at_iff option.distinct(1) strict_prefix_def)

lemma touches_bare:
  assumes "touches R p d d'" and "bare_below d q" and "\<not> prefix p q" and "\<not> prefix q p"
  shows "bare_below d' q"
proof -
  have "node_at d' r = node_at d r" if "strict_prefix q r" for r
  proof -
    have "\<not> prefix r p" using that assms(4) by (meson prefix_order.order_trans prefix_order.less_imp_le)
    moreover have "\<not> prefix p r"
      using that assms(3,4) by (meson prefix_same_cases prefix_order.less_imp_le)
    ultimately show ?thesis using assms(1) by (simp add: touches_def)
  qed
  then show ?thesis using assms(2) by (auto simp: bare_below_def leaf_at_None_iff is_dir_at_def)
qed

section \<open>Single calls\<close>

lemma made_touches:
  assumes "made p perm d d'" and "unshared R d" and "plain_path d p" and "bare_below d p" and "node_at d p = None \<or> is_dir_at d p"
  shows "touches R p d d'" and "is_dir_at d' p"
proof -
  have at: "node_at d' q = (if prefix q p \<and> node_at d q = None then Some (Dir (perm AND ModePerm AND NOT (umask d))) else node_at d q)" for q
    using assms(1) by (simp add: made_def)
  have reg: "node_at d' q = Some (Reg i) \<longleftrightarrow> node_at d q = Some (Reg i)" for q i by (simp add: at)
  have "bare_below d' p" using assms(4) by (auto simp: bare_below_def leaf_at_None_iff at is_dir_at_def)
  then show "touches R p d d'" using assms(1,2) unfolding touches_def unshared_def
    by (auto simp: reg made_def get_data_def is_dir_at_def)
  show "is_dir_at d' p" using assms(5) by (auto simp: at is_dir_at_def)
qed

lemma made_then_touches:
  assumes "made (butlast p) perm d d1" and "touches R p d1 d2" and "p \<noteq> []"
  shows "touches R p d d2"
proof -
  have at: "node_at d1 q = (if prefix q (butlast p) \<and> node_at d q = None then Some (Dir (perm AND ModePerm AND NOT (umask d))) else node_at d q)" for q
    using assms(1) by (simp add: made_def)
  have below: "prefix q (butlast p) \<longleftrightarrow> strict_prefix q p" for q
    using assms(3) by (metis append_butlast_last_id prefix_order.less_le prefix_snoc butlast_strict_prefix prefix_order.le_less_trans)
  have reg: "node_at d1 q = Some (Reg i) \<longleftrightarrow> node_at d q = Some (Reg i)" for q i by (simp add: at)
  have "node_at d2 q = node_at d q" if "\<not> prefix q p" "\<not> prefix p q" for q
    using that assms(2) at[of q] below[of q] by (simp add: touches_def strict_prefix_def)
  moreover have "node_at d2 q = node_at d q \<or> node_at d q = None \<and> is_dir_at d2 q" if "strict_prefix q p" for q
    using that assms(2) at[of q] below[of q] unfolding touches_def is_dir_at_def
    by (metis (no_types, lifting) option.simps(5) node.simps(11))
  moreover have "get_data i d2 = get_data i d" if "prefix R q" "q \<noteq> p" "node_at d q = Some (Reg i)" for q i
  proof -
    have "get_data i d2 = get_data i d1" using that assms(2) reg[of q i] by (simp add: touches_def)
    also have "\<dots> = get_data i d" using assms(1) by (simp add: made_def get_data_def)
    finally show ?thesis .
  qed
  moreover have "disk_ok d2" "unshared R d2" "bare_below d2 p" "umask d2 = umask d"
    using assms(1,2) by (simp_all add: touches_def made_def)
  ultimately show ?thesis unfolding touches_def by blast
qed

lemma made_parent:
  assumes "plain_path d p" and "p \<noteq> []"
  obtains d1 where "retryFileErrors (butlast p) (MkdirAll (butlast p) perm) d = (d1, Inr ())" and "made (butlast p) perm d d1"
proof -
  have pre: "strict_prefix (butlast p) p" using assms(2) by (rule butlast_strict_prefix)
  have "plain_path d (butlast p)" using plain_prefix[OF assms(1)] pre by (simp add: strict_prefix_def)
  moreover have "node_at d (butlast p) = None \<or> is_dir_at d (butlast p)"
    using assms(1) pre by (simp add: plain_path_def clear_above_iff)
  ultimately obtain d1 where "MkdirAll (butlast p) perm d = (d1, Inr ())" "made (butlast p) perm d d1"
    using MkdirAll_plain by blast
  then show ?thesis by (intro that) (simp_all add: retryFileErrors_def)
qed

lemma made_dirs_above:
  assumes "made (butlast p) perm d d1" and "plain_path d p" and "p \<noteq> []"
  shows "plain_path d1 p" and "dirs_above d1 p" and "node_at d1 p = node_at d p"
    and "unshared R d \<Longrightarrow> unshared R d1" and "bare_below d p \<Longrightarrow> bare_below d1 p"
proof -
  have at: "node_at d1 q = (if prefix q (butlast p) \<and> node_at d q = None then Some (Dir (perm AND ModePerm AND NOT (umask d))) else node_at d q)" for q
    using assms(1) by (simp add: made_def)
  have pre: "strict_prefix (butlast p) p" using assms(3) by (rule butlast_strict_prefix)
  have "node_at d (butlast p) = None \<or> is_dir_at d (butlast p)"
    using assms(2) pre by (simp add: plain_path_def clear_above_iff)
  then have "is_dir_at d1 (butlast p)" by (auto simp: at is_dir_at_def)
  moreover have "disk_ok d1" using assms(1) by (simp add: made_def)
  ultimately show up: "dirs_above d1 p" using dirs_above_parent assms(3) by blast
  show "plain_path d1 p" using up \<open>disk_ok d1\<close> assms(2) by (simp add: plain_path_def clear_above_dirs)
  have low: "\<not> prefix q (butlast p)" if "prefix p q" for q
    using that pre prefix_order.order_trans[of p q "butlast p"] by (auto simp: prefix_order.less_le_not_le)
  show "node_at d1 p = node_at d p" using low[of p] by (simp add: at)
  have "node_at d1 q = Some (Reg i) \<longleftrightarrow> node_at d q = Some (Reg i)" for q i by (simp add: at)
  then show "unshared R d \<Longrightarrow> unshared R d1" unfolding unshared_def by simp
  have "node_at d1 q = node_at d q" if "strict_prefix p q" for q
    using low[of q] that by (simp add: at strict_prefix_def)
  then show "bare_below d p \<Longrightarrow> bare_below d1 p" unfolding bare_below_def leaf_at_None_iff is_dir_at_def by simp
qed

text \<open>A new or replaced node at \<open>p\<close>, everything below it gone if it was a directory.\<close>

lemma placed_touches:
  assumes "disk_ok d'" and "umask d' = umask d" and "p \<noteq> []"
    and at: "\<And>q. node_at d' q = (if q = p then x else if prefix p q \<and> b then None else node_at d q)"
    and "\<And>i. x = Some (Reg i) \<Longrightarrow> node_at d p = Some (Reg i) \<or> length (inodes d) \<le> i"
    and "\<And>j. j < length (inodes d) \<Longrightarrow> x \<noteq> Some (Reg j) \<Longrightarrow> get_data j d' = get_data j d"
    and "disk_ok d" and "unshared R d" and "bare_below d p" and "prefix R p"
  shows "touches R p d d'"
proof -
  have old: "j < length (inodes d)" if "node_at d q = Some (Reg j)" for q j
    using disk_okD(3)[OF assms(7) that] that by (cases "q = []") (auto simp: inode_ok_def)
  have alone: "q = p" if "x = Some (Reg i)" "node_at d q = Some (Reg i)" "prefix R q" for q i
    using assms(5)[OF that(1)] old[OF that(2)] assms(8,10) that(2,3) unfolding unshared_def by (meson not_less)
  have "unshared R d'" unfolding unshared_def
  proof (intro allI impI)
    fix q r i assume h: "prefix R q" "prefix R r" "node_at d' q = Some (Reg i)" "node_at d' r = Some (Reg i)"
    then have q: "if q = p then x = Some (Reg i) else node_at d q = Some (Reg i)"
      and r: "if r = p then x = Some (Reg i) else node_at d r = Some (Reg i)" by (auto simp: at split: if_splits)
    show "q = r"
    proof (cases "q = p \<or> r = p")
      case True
      then show ?thesis using q r alone[of i] h(1,2) by metis
    next
      case False
      then show ?thesis using q r assms(8) h(1,2) unfolding unshared_def by auto
    qed
  qed
  moreover have "bare_below d' p" using assms(9)
    by (auto simp: bare_below_def leaf_at_None_iff at is_dir_at_def)
  moreover have "get_data i d' = get_data i d" if "prefix R q" "q \<noteq> p" "node_at d q = Some (Reg i)" for q i
  proof (rule assms(6))
    show "i < length (inodes d)" using old that(3) .
    show "x \<noteq> Some (Reg i)" using alone that by blast
  qed
  ultimately show ?thesis using assms(1,2) by (auto simp: touches_def at strict_prefix_def)
qed

text \<open>Opening a file for writing, at the first or the second attempt.\<close>

lemma get_set_data [simp]:
  "i < length (inodes d) \<Longrightarrow> get_data i (set_data i b d) = b"
  "j \<noteq> i \<Longrightarrow> get_data j (set_data i b d) = get_data j d"
  by (simp_all add: get_data_def set_data_def)

lemma get_set_perm [simp]: "get_data j (set_perm i m d) = get_data j d"
  by (cases "i < length (inodes d)"; cases "i = j") (simp_all add: get_data_def set_perm_def list_update_beyond)

lemma new_inode_spec:
  assumes "new_inode p m d = (d', i)" and "p \<noteq> []"
  shows "i = length (inodes d)" and "length (inodes d') = Suc i" and "get_data i d' = []" and "umask d' = umask d"
    and "node_at d' q = (if q = p then Some (Reg i) else node_at d q)" and "j < i \<Longrightarrow> get_data j d' = get_data j d"
  using assms by (auto simp: new_inode_def Let_def get_data_def nth_append)

lemma open_create_plain:
  assumes "plain_path d p" and "dirs_above d p" and "p \<noteq> []" and "\<forall>t. node_at d p \<noteq> Some (Sym t)" and "\<not> is_dir_at d p"
  obtains d' i where "open_create True p m d = (d', Inr i)" and "umask d' = umask d"
    and "\<And>q. node_at d' q = (if q = p then Some (Reg i) else node_at d q)"
    and "i < length (inodes d')" and "get_data i d' = []" and "node_at d p = Some (Reg i) \<or> length (inodes d) \<le> i"
    and "\<And>j. j < length (inodes d) \<Longrightarrow> j \<noteq> i \<Longrightarrow> get_data j d' = get_data j d"
proof -
  have r: "resolve True p d = Inr p" using resolve_plain[OF assms(1), of True] assms(2,4) by simp
  consider "node_at d p = None" | i where "node_at d p = Some (Reg i)"
    using assms(4,5) by (cases "node_at d p") (auto simp: is_dir_at_def split: node.splits)
  then show ?thesis
  proof cases
    case 1
    obtain d' i where n: "new_inode p m d = (d', i)" by fastforce
    note spec = new_inode_spec[OF n assms(3)]
    have "open_create True p m d = (d', Inr i)" using r 1 n by (simp add: open_create_def)
    then show ?thesis by (rule that) (use spec in auto)
  next
    case (2 i)
    then have "i < length (inodes d)" using disk_okD(3)[OF plainD(1)[OF assms(1)] 2 assms(3)] by (simp add: inode_ok_def)
    moreover have "open_create True p m d = (set_data i [] d, Inr i)" using r 2 by (simp add: open_create_def)
    ultimately show ?thesis by (intro that[of "set_data i [] d" i]) (use 2 in auto)
  qed
qed

lemma RemoveAll_plain:
  assumes "plain_path d p" and "dirs_above d p" and "p \<noteq> []"
  shows "RemoveAll p d = (cut_tree p d, Inr ())" and "plain_path (cut_tree p d) p" and "dirs_above (cut_tree p d) p"
proof -
  show "RemoveAll p d = (cut_tree p d, Inr ())" using resolve_plain[OF assms(1), of False] assms(2,3) by (simp add: RemoveAll_def)
  have "node_at (cut_tree p d) q = node_at d q" if "strict_prefix q p" for q
    using that assms(3) by (auto simp: strict_prefix_def dest: prefix_order.antisym)
  then have "clear_above (cut_tree p d) p" and "dirs_above (cut_tree p d) p"
    using assms(1,2) by (auto simp: plain_path_def clear_above_iff dirs_above_iff is_dir_at_def)
  then show "plain_path (cut_tree p d) p" and "dirs_above (cut_tree p d) p"
    using assms(1,3) by (simp_all add: plain_path_def disk_ok_cut_tree)
qed

lemma retry_open:
  assumes "plain_path d p" and "dirs_above d p" and "p \<noteq> []" and "\<forall>t. node_at d p \<noteq> Some (Sym t)"
  obtains d' i where "retryFileErrors p (open_create True p m) d = (d', Inr i)" and "umask d' = umask d"
    and "\<And>q. node_at d' q = (if q = p then Some (Reg i) else if prefix p q \<and> is_dir_at d p then None else node_at d q)"
    and "i < length (inodes d')" and "get_data i d' = []" and "node_at d p = Some (Reg i) \<or> length (inodes d) \<le> i"
    and "\<And>j. j < length (inodes d) \<Longrightarrow> j \<noteq> i \<Longrightarrow> get_data j d' = get_data j d"
proof (cases "is_dir_at d p")
  case False
  obtain d' i where o: "open_create True p m d = (d', Inr i)" "umask d' = umask d"
    "\<And>q. node_at d' q = (if q = p then Some (Reg i) else node_at d q)"
    "i < length (inodes d')" "get_data i d' = []" "node_at d p = Some (Reg i) \<or> length (inodes d) \<le> i"
    "\<And>j. j < length (inodes d) \<Longrightarrow> j \<noteq> i \<Longrightarrow> get_data j d' = get_data j d"
    using open_create_plain[OF assms False] by blast
  show ?thesis by (rule that[of d' i]) (use False o in \<open>simp_all add: retryFileErrors_def\<close>)
next
  case True
  let ?d = "cut_tree p d"
  note cut = RemoveAll_plain[OF assms(1-3)]
  have first: "open_create True p m d = (d, Inl EISDIR)"
    using resolve_plain[OF assms(1), of True] assms(2,4) True by (auto simp: open_create_def is_dir_at_iff)
  have gone: "node_at ?d p = None" using assms(3) by simp
  obtain d' i where o: "open_create True p m ?d = (d', Inr i)" "umask d' = umask ?d"
    "\<And>q. node_at d' q = (if q = p then Some (Reg i) else node_at ?d q)"
    "i < length (inodes d')" "get_data i d' = []" "node_at ?d p = Some (Reg i) \<or> length (inodes ?d) \<le> i"
    "\<And>j. j < length (inodes ?d) \<Longrightarrow> j \<noteq> i \<Longrightarrow> get_data j d' = get_data j ?d"
    using open_create_plain[OF cut(2,3) assms(3)] gone by (auto simp: is_dir_at_def)
  have "retryFileErrors p (open_create True p m) d = (d', Inr i)"
    using first cut(1) o(1) by (simp add: retryFileErrors_def andThen_def)
  then show ?thesis
    by (rule that) (use True assms(3) o gone in \<open>simp_all add: get_data_def\<close>)
qed

section \<open>Entries\<close>

definition fits :: "disk \<Rightarrow> path \<Rightarrow> tar_entry \<Rightarrow> bool" where
  "fits d p e \<longleftrightarrow> plain_path d p \<and> p \<noteq> [] \<and> bare_below d p \<and>
     (h_Typeflag (fst e) = TypeReg \<and> h_Size (fst e) = int (length (snd e)) \<and> (\<forall>t. node_at d p \<noteq> Some (Sym t))
    \<or> h_Typeflag (fst e) = TypeDir \<and> (\<forall>t. node_at d p \<noteq> Some (Sym t))
    \<or> h_Typeflag (fst e) = TypeSymlink \<and> h_Linkname (fst e) \<noteq> []
    \<or> h_Typeflag (fst e) = TarDeleted)"

definition entry_leaf :: "tar_entry \<Rightarrow> leaf option" where
  "entry_leaf e =
     (if h_Typeflag (fst e) = TypeReg then Some (LFile (snd e))
      else if h_Typeflag (fst e) = TypeSymlink then Some (LLink (h_Linkname (fst e)))
      else None)"

lemma write_handle:
  assumes "i < length (inodes d)" and "get_data i d = []" and "sz = int (length c)"
    and "d' = (if b then CopyContent i c (PreAllocate i sz d) else fix_mode i m (CopyContent i c (PreAllocate i sz d)))"
  shows "get_data i d' = c" and "j \<noteq> i \<Longrightarrow> get_data j d' = get_data j d" and "node_at d' q = node_at d q"
    and "umask d' = umask d"
  using assms by (simp_all add: CopyContent_def PreAllocate_def fix_mode_def)

lemma write_regular_effect:
  assumes "plain_path d p" and "p \<noteq> []" and "bare_below d p" and "\<forall>t. node_at d p \<noteq> Some (Sym t)"
    and "h_Size h = int (length c)" and "unshared R d" and "prefix R p" and "\<forall>x \<in> set ex. is_dir_at d x"
  shows "\<exists>d' ex'. write_regular p h c ex d = (d', Inr ex') \<and> touches R p d d' \<and> leaf_at d' p = Some (LFile c) \<and>
    set ex' \<subseteq> insert (butlast p) (set ex) \<and> is_dir_at d' (butlast p)"
proof -
  let ?new = "butlast p \<notin> set ex" and ?m = "FileMode (h_Mode h)"
  obtain d1 where d1: "(if ?new then os_call (retryFileErrors (butlast p) (MkdirAll (butlast p) 0x1FF)) else ret ()) d = (d1, Inr ())"
    and made: "made (butlast p) 0x1FF d d1"
  proof (cases ?new)
    case True
    obtain d1 where "retryFileErrors (butlast p) (MkdirAll (butlast p) 0x1FF) d = (d1, Inr ())" "made (butlast p) 0x1FF d d1"
      using assms(1,2) by (rule made_parent)
    with True show ?thesis by (intro that[of d1]) (simp_all add: os_call_def)
  next
    case False
    have "made (butlast p) 0x1FF d d"
      using False assms(1,8) disk_ok_dir_above[OF plainD(1)[OF assms(1)], of "butlast p"]
      by (auto simp: made_def plainD is_dir_at_iff prefix_order.le_less)
    with False that show ?thesis by simp
  qed
  note m = made_dirs_above[OF made assms(1,2)]
  have nosym: "\<forall>t. node_at d1 p \<noteq> Some (Sym t)" using m(3) assms(4) by simp
  obtain d2 i where o: "retryFileErrors p (open_create True p ?m) d1 = (d2, Inr i)" "umask d2 = umask d1"
    "\<And>q. node_at d2 q = (if q = p then Some (Reg i) else if prefix p q \<and> is_dir_at d1 p then None else node_at d1 q)"
    "i < length (inodes d2)" "get_data i d2 = []" "node_at d1 p = Some (Reg i) \<or> length (inodes d1) \<le> i"
    "\<And>j. j < length (inodes d1) \<Longrightarrow> j \<noteq> i \<Longrightarrow> get_data j d2 = get_data j d1"
    using retry_open[OF m(1,2) assms(2) nosym, where m="?m"] by blast
  let ?d3 = "CopyContent i c (PreAllocate i (h_Size h) d2)"
  define d3 where "d3 = (if ?new then ?d3 else fix_mode i ?m ?d3)"
  note w = write_handle[OF o(4,5) assms(5) d3_def]
  have run: "write_regular p h c ex d = (d3, Inr (if ?new then butlast p # ex else ex))"
    using d1 o(1) by (simp add: write_regular_def Let_def andThen_def os_call_def d3_def)
  have "disk_ok d3"
    using keeps_okD[OF keeps_write_regular[OF plainD(2)[OF assms(1)]] plainD(1)[OF assms(1)], of h c ex] run by simp
  then have "touches R p d1 d3"
    by (rule placed_touches[where x="Some (Reg i)" and b="is_dir_at d1 p"])
      (use w o m assms plainD(1)[OF m(1)] in \<open>auto split: if_splits\<close>)
  then have t: "touches R p d d3" using made_then_touches[OF made _ assms(2)] by blast
  have "is_dir_at d3 (butlast p)"
    using m(2) w(3)[of "butlast p"] o(3)[of "butlast p"] butlast_strict_prefix[OF assms(2)] dirs_above_iff[of d1 p]
    by (auto simp: is_dir_at_def strict_prefix_def dest: prefix_order.antisym)
  moreover have "leaf_at d3 p = Some (LFile c)" using w(1) w(3)[of p] o(3)[of p] by (simp add: leaf_at_def)
  ultimately show ?thesis using run t by auto
qed

lemma retry_symlink:
  assumes "plain_path d p" and "dirs_above d p" and "p \<noteq> []" and "t \<noteq> []"
  obtains d' where "retryFileErrors p (Symlink t p) d = (d', Inr ())" and "umask d' = umask d" and "inodes d' = inodes d"
    and "\<And>q. node_at d' q = (if q = p then Some (Sym t) else if prefix p q \<and> node_at d p \<noteq> None then None else node_at d q)"
proof (cases "node_at d p")
  case None
  have "Symlink t p d = (put_node p (Sym t) d, Inr ())"
    using resolve_plain[OF assms(1), of False] assms None by (simp add: Symlink_def)
  then show ?thesis by (intro that[of "put_node p (Sym t) d"]) (use None assms(3) in \<open>simp_all add: retryFileErrors_def\<close>)
next
  case (Some x)
  let ?d = "cut_tree p d"
  note cut = RemoveAll_plain[OF assms(1-3)]
  have "Symlink t p d = (d, Inl EEXIST)"
    using resolve_plain[OF assms(1), of False] assms Some by (simp add: Symlink_def)
  moreover have "Symlink t p ?d = (put_node p (Sym t) ?d, Inr ())"
    using resolve_plain[OF cut(2), of False] cut(3) assms(3,4) by (simp add: Symlink_def)
  ultimately have "retryFileErrors p (Symlink t p) d = (put_node p (Sym t) ?d, Inr ())"
    using cut(1) by (simp add: retryFileErrors_def andThen_def)
  then show ?thesis by (rule that) (use Some assms(3) in simp_all)
qed

lemma makeSymlink_effect:
  assumes "plain_path d p" and "p \<noteq> []" and "bare_below d p" and "t \<noteq> []" and "unshared R d" and "prefix R p"
  shows "\<exists>d'. makeSymlink t p d = (d', Inr ()) \<and> touches R p d d' \<and> leaf_at d' p = Some (LLink t)"
proof -
  obtain d1 where d1: "retryFileErrors (butlast p) (MkdirAll (butlast p) 0x1FF) d = (d1, Inr ())"
    and made: "made (butlast p) 0x1FF d d1" using assms(1,2) by (rule made_parent)
  note m = made_dirs_above[OF made assms(1,2)]
  obtain d2 where d2: "retryFileErrors p (Symlink t p) d1 = (d2, Inr ())" "umask d2 = umask d1" "inodes d2 = inodes d1"
    "\<And>q. node_at d2 q = (if q = p then Some (Sym t) else if prefix p q \<and> node_at d1 p \<noteq> None then None else node_at d1 q)"
    using retry_symlink[OF m(1,2) assms(2,4)] by blast
  have run: "makeSymlink t p d = (d2, Inr ())" using d1 d2(1) by (simp add: makeSymlink_def Let_def andThen_def os_call_def)
  have "disk_ok d2"
    using keeps_okD[OF keeps_makeSymlink[OF plainD(2)[OF assms(1)]] plainD(1)[OF assms(1)], of t] run by simp
  then have "touches R p d1 d2"
    by (rule placed_touches[where x="Some (Sym t)" and b="node_at d1 p \<noteq> None"])
      (use d2 m assms plainD(1)[OF m(1)] in \<open>simp_all add: get_data_def\<close>)
  then have "touches R p d d2" using made_then_touches[OF made _ assms(2)] by blast
  then show ?thesis using run d2(4)[of p] by (simp add: leaf_at_def)
qed

lemma directory_effect:
  assumes "plain_path d p" and "p \<noteq> []" and "bare_below d p" and "\<forall>t. node_at d p \<noteq> Some (Sym t)" and "unshared R d" and "prefix R p"
  shows "\<exists>d'. retryFileErrors p (MkdirAll p 0x1FF) d = (d', Inr ()) \<and> touches R p d d' \<and> is_dir_at d' p"
proof (cases "node_at d p = None \<or> is_dir_at d p")
  case True
  then obtain d' where "MkdirAll p 0x1FF d = (d', Inr ())" and made: "made p 0x1FF d d'" using MkdirAll_plain[OF assms(1)] by blast
  then show ?thesis using made_touches[OF made assms(5,1,3) True] by (simp add: retryFileErrors_def)
next
  case False
  then obtain i where i: "node_at d p = Some (Reg i)" using assms(4)
    by (cases "node_at d p") (auto simp: is_dir_at_def split: node.splits)
  let ?d = "cut_tree p d"
  have up: "dirs_above d p" using node_dirs_above[OF plainD(1)[OF assms(1)] i] .
  note cut = RemoveAll_plain[OF assms(1) up assms(2)]
  have first: "MkdirAll p 0x1FF d = (d, Inl ENOTDIR)"
    using Stat_plain[OF assms(1,4)] i by (simp add: MkdirAll.simps[of p] is_dir_def)
  have gone: "node_at ?d p = None" using assms(2) by simp
  obtain d' where d': "MkdirAll p 0x1FF ?d = (d', Inr ())" and made: "made p 0x1FF ?d d'" using MkdirAll_plain[OF cut(2)] gone by blast
  have c: "touches R p d ?d"
    by (rule placed_touches[where x=None and b=True]) (use assms plainD(1)[OF assms(1)] in \<open>simp_all add: disk_ok_cut_tree get_data_def\<close>)
  have at: "node_at d' q = (if q = p then Some (Dir (0x1FF AND ModePerm AND NOT (umask d))) else if prefix p q \<and> True then None else node_at d q)" for q
  proof -
    have "\<not> prefix q p \<or> q = p \<or> node_at d q \<noteq> None" using up by (auto simp: dirs_above_iff is_dir_at_iff strict_prefix_def)
    then show ?thesis using made assms(2) by (auto simp: made_def dest: prefix_order.antisym)
  qed
  have "touches R p d d'"
    by (rule placed_touches[OF _ _ _ at]) (use made assms plainD(1)[OF assms(1)] in \<open>simp_all add: made_def get_data_def\<close>)
  moreover have "retryFileErrors p (MkdirAll p 0x1FF) d = (d', Inr ())"
    using first cut(1) d' by (simp add: retryFileErrors_def andThen_def)
  ultimately show ?thesis using at[of p] by (simp add: is_dir_at_def)
qed

lemma remove_effect:
  assumes "plain_path d p" and "p \<noteq> []" and "bare_below d p" and "unshared R d" and "prefix R p"
  shows "\<exists>d' r. Remove p d = (d', r) \<and> (r = Inr () \<or> r = Inl ENOENT \<or> r = Inl ENOTEMPTY) \<and> touches R p d d' \<and> leaf_at d' p = None"
proof -
  have same: "touches R p d d" using assms by (simp add: touches_def plainD)
  have cut: "touches R p d (cut_node p d)" if "is_dir_at d p \<Longrightarrow> \<not> has_child d p"
    by (rule placed_touches[where x=None and b=False])
      (use assms plainD(1)[OF assms(1)] that in \<open>simp_all add: disk_ok_cut get_data_def\<close>)
  show ?thesis
  proof (cases "node_at d p")
    case None
    then have "Remove p d = (d, Inl ENOENT)"
      using resolve_plain[OF assms(1), of False] assms(2) by (simp add: Remove_def)
    with same None show ?thesis by (simp add: leaf_at_def)
  next
    case (Some x)
    have "resolve False p d = Inr p"
      using resolve_plain[OF assms(1), of False] node_dirs_above[OF plainD(1)[OF assms(1)] Some] by simp
    then have "Remove p d = (if is_dir_at d p \<and> has_child d p then (d, Inl ENOTEMPTY) else (cut_node p d, Inr ()))"
      using assms(2) Some by (simp add: Remove_def is_dir_at_def split: node.splits)
    with same cut show ?thesis using assms(2)
      by (auto simp: leaf_at_None_iff)
  qed
qed

text \<open>One entry: the tree has its leaf at the path of the entry, and the others where they were.\<close>

lemma writeObject_effect:
  assumes fits: "fits d p e" and p: "p = join_path root (h_Name (fst e))" and "unshared R d" and "prefix R p"
    and ex: "\<forall>x \<in> set ex. is_dir_at d x"
  shows "\<exists>d' ex'. writeObject H root cache e ex d = (d', Inr ex') \<and> touches R p d d' \<and> leaf_at d' p = entry_leaf e \<and>
    (h_Typeflag (fst e) = TypeDir \<longrightarrow> is_dir_at d' p) \<and> (\<forall>x \<in> set ex'. x \<in> set ex \<or> prefix x p \<and> is_dir_at d' x)"
proof -
  have f: "plain_path d p" "p \<noteq> []" "bare_below d p" using fits by (simp_all add: fits_def)
  have up: "prefix (butlast p) p" by (rule prefixeq_butlast)
  consider (reg) "h_Typeflag (fst e) = TypeReg" "h_Size (fst e) = int (length (snd e))" "\<forall>t. node_at d p \<noteq> Some (Sym t)"
    | (dir) "h_Typeflag (fst e) = TypeDir" "\<forall>t. node_at d p \<noteq> Some (Sym t)"
    | (sym) "h_Typeflag (fst e) = TypeSymlink" "h_Linkname (fst e) \<noteq> []"
    | (del) "h_Typeflag (fst e) = TarDeleted" using fits by (auto simp: fits_def)
  then show ?thesis
  proof cases
    case reg
    obtain d' ex' where "write_regular p (fst e) (snd e) ex d = (d', Inr ex')" "touches R p d d'"
      "leaf_at d' p = Some (LFile (snd e))" "set ex' \<subseteq> insert (butlast p) (set ex)" "is_dir_at d' (butlast p)"
      using write_regular_effect[OF f reg(3,2) assms(3,4) ex] by blast
    moreover have "writeObject H root cache e ex d = write_regular p (fst e) (snd e) ex d"
      using reg(1) by (simp add: writeObject_def p Let_def typeflag_defs)
    ultimately show ?thesis using reg(1) up by (auto simp: entry_leaf_def typeflag_defs)
  next
    case dir
    obtain d' where d': "retryFileErrors p (MkdirAll p 0x1FF) d = (d', Inr ())" "touches R p d d'" "is_dir_at d' p"
      using directory_effect[OF f dir(2) assms(3,4)] by blast
    have eq: "writeObject H root cache e ex d =
        (if p \<in> set ex then (d, Inr ex) else (d', Inr (p # ex)))"
      using dir(1) d'(1) by (simp add: writeObject_def p Let_def typeflag_defs andThen_def os_call_def)
    have "touches R p d d" using f assms(3) by (simp add: touches_def plainD)
    moreover have "leaf_at x p = None" if "is_dir_at x p" for x using that by (simp add: leaf_at_None_iff)
    ultimately show ?thesis using eq d' dir(1) ex by (auto simp: entry_leaf_def typeflag_defs)
  next
    case sym
    obtain d' where "makeSymlink (h_Linkname (fst e)) p d = (d', Inr ())" "touches R p d d'" "leaf_at d' p = Some (LLink (h_Linkname (fst e)))"
      using makeSymlink_effect[OF f sym(2) assms(3,4)] by blast
    then show ?thesis using sym(1) by (auto simp: writeObject_def p[symmetric] Let_def typeflag_defs andThen_def entry_leaf_def)
  next
    case del
    obtain d' r where "Remove p d = (d', r)" "r = Inr () \<or> r = Inl ENOENT \<or> r = Inl ENOTEMPTY" "touches R p d d'" "leaf_at d' p = None"
      using remove_effect[OF f assms(3,4)] by blast
    then show ?thesis using del by (auto simp: writeObject_def p[symmetric] Let_def typeflag_defs entry_leaf_def)
  qed
qed

section \<open>Archives\<close>

definition apart :: "path \<Rightarrow> path \<Rightarrow> bool" where
  "apart p q \<longleftrightarrow> \<not> prefix p q \<and> \<not> prefix q p"

definition entry_path :: "path \<Rightarrow> tar_entry \<Rightarrow> path" where
  "entry_path root e = join_path root (h_Name (fst e))"

text \<open>The paths of an archive are apart: none is above another, none occurs twice.\<close>

definition all_apart :: "path list \<Rightarrow> bool" where
  "all_apart ps \<longleftrightarrow> sorted_wrt apart ps"

definition under :: "path list \<Rightarrow> path \<Rightarrow> bool" where
  "under ps q \<longleftrightarrow> list_ex (\<lambda>p. prefix p q) ps"

text \<open>
  The effect of writing to the paths \<open>ps\<close>: below them the leaves are \<open>T\<close>, everything else is as before.
\<close>

definition effect :: "path \<Rightarrow> path list \<Rightarrow> (path \<Rightarrow> leaf option) \<Rightarrow> disk \<Rightarrow> disk \<Rightarrow> bool" where
  "effect R ps T d d' \<longleftrightarrow> disk_ok d' \<and> unshared R d' \<and> umask d' = umask d \<and>
     (\<forall>q. prefix R q \<longrightarrow> leaf_at d' q = (if under ps q then T q else leaf_at d q)) \<and>
     (\<forall>q. (\<forall>p \<in> set ps. apart p q) \<longrightarrow> node_at d' q = node_at d q \<and> (bare_below d q \<longrightarrow> bare_below d' q)) \<and>
     (\<forall>q. \<not> under ps q \<longrightarrow> node_at d' q = node_at d q \<or> node_at d q = None \<and> is_dir_at d' q)"

lemma effectD:
  assumes "effect R ps T d d'"
  shows "disk_ok d'" and "unshared R d'" and "umask d' = umask d"
    and "prefix R q \<Longrightarrow> leaf_at d' q = (if under ps q then T q else leaf_at d q)"
    and "\<forall>p \<in> set ps. apart p q \<Longrightarrow> node_at d' q = node_at d q"
    and "\<forall>p \<in> set ps. apart p q \<Longrightarrow> bare_below d q \<Longrightarrow> bare_below d' q"
    and "\<not> under ps q \<Longrightarrow> node_at d' q = node_at d q \<or> node_at d q = None \<and> is_dir_at d' q"
  using assms by (simp_all add: effect_def)

lemma under_simps [simp]:
  "\<not> under [] q" "under (p # ps) q \<longleftrightarrow> prefix p q \<or> under ps q" "under (ps @ qs) q \<longleftrightarrow> under ps q \<or> under qs q"
  by (auto simp: under_def)

lemma under_iff: "under ps q \<longleftrightarrow> (\<exists>p \<in> set ps. prefix p q)"
  by (simp add: under_def list_ex_iff)

lemma effect_dir: "effect R ps T d d' \<Longrightarrow> \<not> under ps q \<Longrightarrow> is_dir_at d q \<Longrightarrow> is_dir_at d' q"
  using effectD(7)[of R ps T d d' q] by (auto simp: is_dir_at_def)

lemma effect_plain:
  assumes "effect R ps T d d'" and "\<not> under ps q" and "plain_path d q"
  shows "plain_path d' q"
proof -
  have "node_at d' r = None \<or> is_dir_at d' r" if r: "strict_prefix r q" for r
  proof -
    have "\<not> under ps r" using r assms(2) unfolding under_iff by (meson prefix_order.order_trans prefix_order.less_imp_le)
    moreover have "node_at d r = None \<or> is_dir_at d r" using r assms(3) by (simp add: plain_path_def clear_above_iff)
    ultimately show ?thesis using effectD(7)[OF assms(1), of r] by (auto simp: is_dir_at_def)
  qed
  then show ?thesis using assms(3) effectD(1)[OF assms(1)] by (simp add: plain_path_def clear_above_iff)
qed

lemma apart_not_under: "\<forall>p \<in> set ps. apart p q \<Longrightarrow> \<not> under ps q"
  by (auto simp: under_iff apart_def)

lemma effect_none: "disk_ok d \<Longrightarrow> unshared R d \<Longrightarrow> effect R [] T d d"
  by (simp add: effect_def)

lemma under_apart:
  assumes "all_apart (ps @ qs)" and "under ps q"
  shows "\<not> under qs q"
  using assms unfolding all_apart_def sorted_wrt_append under_iff apart_def by (meson prefix_same_cases)

lemma effect_append:
  assumes e1: "effect R ps T d d1" and e2: "effect R qs U d1 d2" and "all_apart (ps @ qs)"
    and "\<And>q. under ps q \<Longrightarrow> V q = T q" and "\<And>q. under qs q \<Longrightarrow> V q = U q"
  shows "effect R (ps @ qs) V d d2"
proof -
  have "leaf_at d2 q = (if under (ps @ qs) q then V q else leaf_at d q)" if "prefix R q" for q
    using effectD(4)[OF e1 that] effectD(4)[OF e2 that] under_apart[OF assms(3), of q] assms(4,5)[of q] by simp
  moreover have "node_at d2 q = node_at d q \<and> (bare_below d q \<longrightarrow> bare_below d2 q)" if "\<forall>p \<in> set (ps @ qs). apart p q" for q
    using that effectD(5,6)[OF e1] effectD(5,6)[OF e2] by simp
  moreover have "node_at d2 q = node_at d q \<or> node_at d q = None \<and> is_dir_at d2 q" if "\<not> under (ps @ qs) q" for q
    using that effectD(7)[OF e1, of q] effectD(7)[OF e2, of q] by (auto simp: is_dir_at_def)
  ultimately show ?thesis using effectD(3)[OF e1] effectD(1-3)[OF e2] by (simp add: effect_def)
qed

lemma effect_fits:
  assumes "effect R ps T d d'" and "fits d q f" and "\<forall>p \<in> set ps. apart p q"
  shows "fits d' q f"
  using assms(2) effectD(5,6)[OF assms(1,3)] effect_plain[OF assms(1) apart_not_under[OF assms(3)]]
  by (auto simp: fits_def)

lemma touches_effect:
  assumes t: "touches R p d d'" and "bare_below d p" and "leaf_at d' p = T p" and "\<And>q. strict_prefix p q \<Longrightarrow> T q = None"
  shows "effect R [p] T d d'"
proof -
  have "leaf_at d' q = (if prefix p q then T q else leaf_at d q)" if "prefix R q" for q
  proof (cases "strict_prefix p q")
    case True
    then show ?thesis using t assms(4) by (simp add: touches_def bare_below_def strict_prefix_def)
  next
    case False
    then show ?thesis using assms(3) touches_leaf[OF t assms(2) that] by (auto simp: strict_prefix_def)
  qed
  moreover have "node_at d' q = node_at d q \<or> node_at d q = None \<and> is_dir_at d' q" if "\<not> under [p] q" for q
    using t that by (cases "prefix q p") (auto simp: touches_def strict_prefix_def)
  ultimately show ?thesis using t touches_bare[OF t]
    by (auto simp: effect_def touches_def apart_def)
qed

text \<open>The leaves of an archive.\<close>

definition archive_leaf :: "path \<Rightarrow> tar_entry list \<Rightarrow> path \<Rightarrow> leaf option" where
  "archive_leaf root es q = (case map_of (map (\<lambda>e. (entry_path root e, entry_leaf e)) es) q of Some l \<Rightarrow> l | None \<Rightarrow> None)"

lemma archive_leaf_Nil [simp]: "archive_leaf root [] q = None"
  by (simp add: archive_leaf_def)

lemma archive_leaf_Cons:
  "archive_leaf root (e # es) q = (if entry_path root e = q then entry_leaf e else archive_leaf root es q)"
  by (simp add: archive_leaf_def)

lemma archive_leaf_not_under: "\<not> under (map (entry_path root) es) q \<Longrightarrow> archive_leaf root es q = None"
  by (induction es) (auto simp: archive_leaf_Cons)

lemma archive_leaf_append:
  assumes "all_apart (map (entry_path root) (es @ fs))"
  shows "under (map (entry_path root) es) q \<Longrightarrow> archive_leaf root (es @ fs) q = archive_leaf root es q"
    and "under (map (entry_path root) fs) q \<Longrightarrow> archive_leaf root (es @ fs) q = archive_leaf root fs q"
proof -
  have app: "archive_leaf root (es @ fs) q =
      (if q \<in> set (map (entry_path root) es) then archive_leaf root es q else archive_leaf root fs q)"
    by (induction es) (auto simp: archive_leaf_Cons)
  have a: "\<not> (under (map (entry_path root) es) q \<and> under (map (entry_path root) fs) q)"
    using under_apart[of "map (entry_path root) es" "map (entry_path root) fs"] assms by auto
  have self: "q \<in> set ps \<Longrightarrow> under ps q" for ps by (auto simp: under_iff)
  have miss: "q \<notin> set (map (entry_path root) es) \<Longrightarrow> archive_leaf root es q = None" for es
    by (induction es) (auto simp: archive_leaf_Cons)
  show "under (map (entry_path root) es) q \<Longrightarrow> archive_leaf root (es @ fs) q = archive_leaf root es q"
    using app a archive_leaf_not_under[of root fs q] miss[of es] by auto
  show "under (map (entry_path root) fs) q \<Longrightarrow> archive_leaf root (es @ fs) q = archive_leaf root fs q"
    using app a self[of "map (entry_path root) es"] by auto
qed

lemma archive_leaf_member:
  assumes "all_apart (map (entry_path root) es)" and "e \<in> set es"
  shows "archive_leaf root es (entry_path root e) = entry_leaf e"
  using assms by (induction es) (auto simp: archive_leaf_Cons all_apart_def apart_def)

definition matches_all :: "host \<Rightarrow> FileMatcher option \<Rightarrow> tar_entry list \<Rightarrow> bool" where
  "matches_all H matcher es = (case matcher of Some m \<Rightarrow> list_all (\<lambda>e. Match H m (h_Name (fst e))) es | None \<Rightarrow> True)"

lemma write_entries_effect:
  assumes "disk_ok d" and "unshared R d" and "\<forall>e \<in> set es. fits d (entry_path root e) e \<and> prefix R (entry_path root e)"
    and "all_apart (map (entry_path root) es)" and "\<forall>x \<in> set ex. is_dir_at d x \<and> \<not> under (map (entry_path root) es) x"
  shows "\<exists>d'. write_entries H root cache m True es ex n fm d = (d', Inr (n + of_nat (length es), fm \<and> matches_all H m es)) \<and>
    effect R (map (entry_path root) es) (archive_leaf root es) d d' \<and>
    (\<forall>e \<in> set es. h_Typeflag (fst e) = TypeDir \<longrightarrow> is_dir_at d' (entry_path root e))"
  using assms
proof (induction es arbitrary: d ex n fm)
  case Nil
  then show ?case by (simp add: effect_none matches_all_def split: option.splits)
next
  case (Cons e es)
  let ?p = "entry_path root e" and ?fm = "case m of Some x \<Rightarrow> if Match H x (h_Name (fst e)) then fm else False | None \<Rightarrow> fm"
  let ?ps = "map (entry_path root) es"
  have ap: "apart ?p (entry_path root f)" if "f \<in> set es" for f
    using Cons.prems(4) that by (auto simp: all_apart_def)
  have fe: "fits d ?p e" "prefix R ?p" using Cons.prems(3) by auto
  obtain d1 ex1 where w: "writeObject H root cache e ex d = (d1, Inr ex1)" and t: "touches R ?p d d1"
    and l: "leaf_at d1 ?p = entry_leaf e" "h_Typeflag (fst e) = TypeDir \<longrightarrow> is_dir_at d1 ?p"
    and ex1: "\<forall>x \<in> set ex1. x \<in> set ex \<or> prefix x ?p \<and> is_dir_at d1 x"
    using writeObject_effect[OF fe(1) entry_path_def Cons.prems(2) fe(2), of ex H cache] Cons.prems(5) by auto
  have one: "effect R [?p] (archive_leaf root [e]) d d1"
    by (rule touches_effect[OF t]) (use fe(1) l in \<open>auto simp: fits_def archive_leaf_def strict_prefix_def\<close>)
  have "\<forall>f \<in> set es. fits d1 (entry_path root f) f \<and> prefix R (entry_path root f)"
    using Cons.prems(3) ap effect_fits[OF one] by auto
  moreover have "\<forall>x \<in> set ex1. is_dir_at d1 x \<and> \<not> under ?ps x"
  proof
    fix x assume "x \<in> set ex1"
    then consider "x \<in> set ex" | "prefix x ?p" "is_dir_at d1 x" using ex1 by blast
    then show "is_dir_at d1 x \<and> \<not> under ?ps x"
    proof cases
      case 1
      then show ?thesis using Cons.prems(5) touches_dir[OF t] by auto
    next
      case 2
      then show ?thesis using ap unfolding apart_def under_iff by (auto dest: prefix_order.order_trans)
    qed
  qed
  moreover have "disk_ok d1" "unshared R d1" "all_apart ?ps" using t Cons.prems(4) by (simp_all add: touches_def all_apart_def)
  ultimately obtain d2 where d2: "effect R ?ps (archive_leaf root es) d1 d2"
    "\<forall>f \<in> set es. h_Typeflag (fst f) = TypeDir \<longrightarrow> is_dir_at d2 (entry_path root f)"
    "write_entries H root cache m True es ex1 (n + 1) ?fm d1 = (d2, Inr (n + 1 + of_nat (length es), ?fm \<and> matches_all H m es))"
    using Cons.IH[of d1 ex1 "n + 1" ?fm] by blast
  have a: "all_apart (map (entry_path root) ([e] @ es))" using Cons.prems(4) by simp
  have "effect R ([?p] @ ?ps) (archive_leaf root ([e] @ es)) d d2"
    by (rule effect_append[OF one d2(1)]) (use a archive_leaf_append[OF a] in auto)
  moreover have "h_Typeflag (fst e) = TypeDir \<longrightarrow> is_dir_at d2 ?p"
    using l(2) effect_dir[OF d2(1), of ?p] ap unfolding under_iff apart_def by auto
  ultimately show ?case using w d2(2,3)
    by (auto simp: Let_def andThen_def matches_all_def split: option.splits)
qed

section \<open>Names that stay below the directory\<close>

definition plain_name :: "string \<Rightarrow> bool" where
  "plain_name name \<longleftrightarrow> ''..'' \<notin> set (Split name CHR ''/'')"

definition name_path :: "string \<Rightarrow> path" where
  "name_path name = filter (\<lambda>c. c \<noteq> [] \<and> c \<noteq> ''.'') (Split name CHR ''/'')"

lemma clean_onto_plain: "''..'' \<notin> set cs \<Longrightarrow> clean_onto p cs = p @ filter (\<lambda>c. c \<noteq> [] \<and> c \<noteq> ''.'') cs"
  by (induction p cs rule: clean_onto.induct) auto

lemma join_plain: "plain_name name \<Longrightarrow> join_path root name = root @ name_path name"
  by (simp add: join_path_def name_path_def plain_name_def clean_onto_plain)

lemma name_path_good: "plain_name name \<Longrightarrow> list_all good_name (name_path name)"
  by (auto simp: name_path_def plain_name_def good_name_def list_all_iff)

section \<open>Packs\<close>

text \<open>An entry of a pack, to be written into an empty directory.\<close>

definition pack_entry :: "path \<Rightarrow> tar_entry \<Rightarrow> bool" where
  "pack_entry pc e \<longleftrightarrow> plain_name (h_Name (fst e)) \<and> prefix pc (name_path (h_Name (fst e))) \<and>
     (h_Typeflag (fst e) = TypeReg \<and> h_Size (fst e) = int (length (snd e))
    \<or> h_Typeflag (fst e) = TypeDir
    \<or> h_Typeflag (fst e) = TypeSymlink \<and> h_Linkname (fst e) \<noteq> [])"

lemma plain_below_empty:
  assumes "disk_ok d" and "is_dir_at d t" and "\<And>q. strict_prefix t q \<Longrightarrow> node_at d q = None" and "list_all good_name r"
  shows "plain_path d (t @ r)"
proof -
  have "node_at d q = None \<or> is_dir_at d q" if "strict_prefix q (t @ r)" for q
  proof -
    have "prefix q t \<or> strict_prefix t q" using that by (auto simp: strict_prefix_def prefix_append)
    then show ?thesis
    proof
      assume "prefix q t"
      then show ?thesis using assms(1,2) disk_ok_dir_above[OF assms(1), of t _ q] by (auto simp: is_dir_at_iff prefix_order.le_less)
    qed (use assms(3) in blast)
  qed
  moreover have "list_all good_name (t @ r)" using is_dir_at_good[OF assms(1,2)] assms(4) by simp
  ultimately show ?thesis using assms(1) by (simp add: plain_path_def clear_above_iff)
qed

lemma fits_empty:
  assumes "disk_ok d" and "is_dir_at d t" and "\<And>q. strict_prefix t q \<Longrightarrow> node_at d q = None" and "pack_entry pc e" and "pc \<noteq> []"
  shows "fits d (entry_path t e) e"
proof -
  let ?r = "name_path (h_Name (fst e))"
  have p: "entry_path t e = t @ ?r" using assms(4) by (simp add: entry_path_def pack_entry_def join_plain)
  have "?r \<noteq> []" using assms(4,5) by (auto simp: pack_entry_def)
  have none: "node_at d q = None" if "prefix (t @ ?r) q" for q
    using that \<open>?r \<noteq> []\<close> by (intro assms(3)) (auto simp: prefix_def strict_prefix_def)
  have "plain_path d (t @ ?r)"
    using assms(4) by (intro plain_below_empty[OF assms(1-3)]) (auto simp: pack_entry_def name_path_good)
  moreover have "bare_below d (t @ ?r)" using none by (simp add: bare_below_def leaf_at_None_iff strict_prefix_def)
  ultimately show ?thesis using assms(4) none[of "t @ ?r"] \<open>?r \<noteq> []\<close> by (auto simp: fits_def p pack_entry_def)
qed

lemma Mkdir_plain:
  assumes "plain_path d p" and "dirs_above d p" and "p \<noteq> []" and "node_at d p = None"
  shows "Mkdir p perm d = (put_node p (Dir (perm AND ModePerm AND NOT (umask d))) d, Inr ())"
  using resolve_plain[OF assms(1), of False] assms(2,4) by (simp add: Mkdir_def)

lemma MkdirTemp_fresh:
  assumes "disk_ok d" and "is_dir_at d dir" and "2 < length pre" and "r \<in> set rs" and "node_at d (dir @ [pre @ r]) = None"
  shows "\<exists>r' \<in> set rs. \<exists>m. node_at d (dir @ [pre @ r']) = None \<and>
    MkdirTemp dir pre rs d = (put_node (dir @ [pre @ r']) (Dir m) d, Inr (dir @ [pre @ r']))"
  using assms(4,5)
proof (induction rs)
  case (Cons x rs)
  let ?p = "dir @ [pre @ x]"
  have up: "dirs_above d ?p" using dirs_above_parent[OF assms(1), of ?p] assms(2) by simp
  moreover have "list_all good_name ?p" using is_dir_at_good[OF assms(1,2)] assms(3) by (simp add: long_name_good)
  ultimately have pl: "plain_path d ?p" using assms(1) by (simp add: plain_path_def clear_above_dirs)
  show ?case
  proof (cases "node_at d ?p")
    case None
    then show ?thesis using Mkdir_plain[OF pl up _ None, of "0x1C0"] by auto
  next
    case (Some n)
    then have "Mkdir ?p 0x1C0 d = (d, Inl EEXIST)" using resolve_plain[OF pl, of False] up by (simp add: Mkdir_def)
    with Cons Some show ?thesis by (cases "r = x") auto
  qed
qed simp

text \<open>The swap: what was below \<open>q\<close> goes away, what is below \<open>t\<close> takes its place.\<close>

lemma swap_effect:
  assumes "disk_ok d" and "unshared R d" and "plain_path d q" and "is_dir_at d (butlast q)" and "q \<noteq> []"
    and "plain_path d p" and "p \<noteq> []" and "apart q p" and "prefix R q" and "prefix R p"
    and names: "join_path t pp = p" "join_path R pp = q"
  shows "\<exists>d'. swap_pack t R pp d = (d', Inr ()) \<and> disk_ok d' \<and> unshared R d' \<and> umask d' = umask d \<and> inodes d' = inodes d \<and>
    (\<forall>r. node_at d' r = (if prefix q r then node_at d (p @ drop (length q) r) else if prefix p r then None else node_at d r))"
proof -
  let ?d1 = "cut_tree q d"
  have up: "dirs_above d q" using dirs_above_parent[OF assms(1,5)] assms(4) by simp
  note cut = RemoveAll_plain[OF assms(3) up assms(5)]
  have ok1: "disk_ok ?d1" using assms(1,5) by (rule disk_ok_cut_tree)
  have pq: "\<not> prefix q r" if "prefix p r" for r
    using assms(8) that unfolding apart_def by (meson prefix_same_cases)
  have at1: "node_at ?d1 r = node_at d r" if "prefix p r" for r using pq[OF that] assms(5) by simp
  have pl1: "plain_path ?d1 p"
    using assms(5,6) ok1 by (auto simp: plain_path_def clear_above_iff is_dir_at_def)
  have ex: "fileExists p ?d1 \<longleftrightarrow> node_at d p \<noteq> None"
    using Lstat_plain[OF pl1] at1[of p] by (simp add: fileExists_def split: option.splits)
  have run: "swap_pack t R pp d = (if node_at d p = None then (?d1, Inr ()) else os_call (Rename p q) ?d1)"
    using cut(1) ex by (simp add: swap_pack_def names andThen_def os_call_def)
  have un: "unshared R d'" if at: "\<forall>r. node_at d' r = (if prefix q r then node_at d (p @ drop (length q) r) else if prefix p r then None else node_at d r)" for d'
    unfolding unshared_def
  proof (intro allI impI)
    fix a b i assume h: "prefix R a" "prefix R b" "node_at d' a = Some (Reg i)" "node_at d' b = Some (Reg i)"
    let ?f = "\<lambda>r. if prefix q r then p @ drop (length q) r else r"
    have "node_at d (?f a) = Some (Reg i)" "node_at d (?f b) = Some (Reg i)" using h(3,4) at by (auto split: if_splits)
    moreover have "prefix R (?f a)" "prefix R (?f b)" using h(1,2) assms(10) by (auto simp: prefix_def)
    ultimately have "?f a = ?f b" using assms(2) unfolding unshared_def by blast
    moreover have "?f r = p @ x \<Longrightarrow> \<not> prefix q r \<Longrightarrow> node_at d' r = None" for r x using at by auto
    ultimately show "a = b" using h(3,4) at by (auto simp: prefix_def split: if_splits)
  qed
  show ?thesis
  proof (cases "node_at d p")
    case None
    have "node_at d (p @ x) = None" for x
      using disk_ok_dir_above[OF assms(1), of "p @ x" _ p] None by (cases "x = []") (force simp: is_dir_at_def strict_prefix_def)+
    then have "\<forall>r. node_at ?d1 r = (if prefix q r then node_at d (p @ drop (length q) r) else if prefix p r then None else node_at d r)"
      using assms(5) by (auto simp: prefix_def)
    then show ?thesis using run None ok1 un by auto
  next
    case (Some n)
    let ?d2 = "move_tree p q ?d1"
    have "resolve False p ?d1 = Inr p" "resolve False q ?d1 = Inr q"
      using resolve_plain[OF pl1, of False] node_dirs_above[OF ok1, of p n] Some at1[of p] resolve_plain[OF cut(2), of False] cut(3) by auto
    then have "Rename p q ?d1 = (?d2, Inr ())"
      using Some at1[of p] assms(5,7,8) by (auto simp: Rename_def apart_def strict_prefix_def)
    with run Some have r: "swap_pack t R pp d = (?d2, Inr ())" by (simp add: os_call_def)
    have ok2: "disk_ok ?d2"
    proof (rule disk_ok_move[OF ok1])
      show "list_all good_name q" using plainD(2)[OF assms(3)] .
      show "is_dir_at ?d1 (butlast q)" using cut(3) dirs_above_parent[OF ok1 assms(5)] by simp
      show "\<not> is_dir_at ?d1 q" using assms(5) by (simp add: is_dir_at_def)
    qed (use Some at1[of p] assms in \<open>auto simp: apart_def\<close>)
    have "\<not> has_child ?d1 q" using ok1 assms(5) by (auto simp: has_child_iff strict_prefix_def)
    from node_at_move[OF this assms(7,5)]
    have "\<forall>r. node_at ?d2 r = (if prefix q r then node_at d (p @ drop (length q) r) else if prefix p r then None else node_at d r)"
      using pq assms(5,8) by (auto simp: apart_def) (metis prefixI)
    then show ?thesis using r ok2 un by auto
  qed
qed

lemma apart_append [simp]: "apart (r @ p) (r @ q) \<longleftrightarrow> apart p q"
  by (simp add: apart_def)

lemma pack_entry_path: "pack_entry pc e \<Longrightarrow> entry_path root e = root @ name_path (h_Name (fst e))"
  by (simp add: entry_path_def pack_entry_def join_plain)

lemma archive_leaf_shift:
  assumes "\<forall>e \<in> set es. pack_entry pc e"
  shows "archive_leaf root (es) (root @ q) = archive_leaf root' es (root' @ q)"
  using assms by (induction es) (auto simp: archive_leaf_Cons pack_entry_path)

lemma all_apart_shift:
  assumes "\<forall>e \<in> set es. pack_entry pc e"
  shows "all_apart (map (entry_path root) es) \<longleftrightarrow> all_apart (map (entry_path root') es)"
proof -
  have "map (entry_path r) es = map ((@) r) (map (\<lambda>e. name_path (h_Name (fst e))) es)" for r
    using assms pack_entry_path by auto
  then have "all_apart (map (entry_path r) es) \<longleftrightarrow> sorted_wrt apart (map (\<lambda>e. name_path (h_Name (fst e))) es)" for r
    by (simp only: all_apart_def sorted_wrt_map apart_append)
  then show ?thesis by simp
qed

lemma nothing_below: "disk_ok d \<Longrightarrow> node_at d t = None \<Longrightarrow> prefix t x \<Longrightarrow> node_at d x = None"
  using disk_ok_dir_above[of d x _ t] by (cases "node_at d x") (auto simp: is_dir_at_def prefix_order.le_less)

text \<open>The pack in its temporary directory.\<close>

lemma unpack_effect:
  assumes ok: "disk_ok d" "unshared R d" and t: "t \<noteq> []" "node_at d t = None" "is_dir_at d (butlast t)" "prefix R t" "list_all good_name t"
    and es: "\<forall>e \<in> set es. pack_entry pc e" "all_apart (map (entry_path t) es)" and "pc \<noteq> []" "list_all good_name pc"
    and d1_def: "d1 = put_node t (Dir p) d"
  shows "\<exists>d2. write_all H t cache m \<lparr>tr_rest = es, tr_clean = True\<rparr> d1 = (d2, Inr (of_nat (length es), matches_all H m es)) \<and>
    disk_ok d2 \<and> unshared R d2 \<and> umask d2 = umask d \<and> plain_path d2 (t @ pc) \<and> is_dir_at d2 t \<and>
    (\<forall>q. prefix R q \<longrightarrow> prefix t q \<longrightarrow> leaf_at d2 q = archive_leaf t es q) \<and>
    (\<forall>q. \<not> prefix t q \<longrightarrow> node_at d2 q = node_at d q) \<and>
    (\<forall>q. prefix R q \<longrightarrow> \<not> prefix t q \<longrightarrow> leaf_at d2 q = leaf_at d q)"
proof -
  note none = nothing_below[OF ok(1) t(2)]
  have at1: "node_at d1 q = (if q = t then Some (Dir p) else node_at d q)" for q using t(1) by (simp add: d1_def)
  have ok1: "disk_ok d1" unfolding d1_def by (rule disk_ok_put) (use ok t in \<open>auto simp: inode_ok_def is_dir_def\<close>)
  have un1: "unshared R d1" using ok(2) by (simp add: unshared_def at1)
  have dir1: "is_dir_at d1 t" by (simp add: at1 is_dir_at_def)
  have below1: "node_at d1 q = None" if "strict_prefix t q" for q using that none by (auto simp: at1 strict_prefix_def)
  have f: "\<forall>e \<in> set es. fits d1 (entry_path t e) e \<and> prefix R (entry_path t e)"
    using fits_empty[OF ok1 dir1 below1] es(1) \<open>pc \<noteq> []\<close> t(4) by (auto simp: pack_entry_path)
  obtain d2 where w: "write_entries H t cache m True es [] 0 True d1 = (d2, Inr (0 + of_nat (length es), True \<and> matches_all H m es))"
    and eff: "effect R (map (entry_path t) es) (archive_leaf t es) d1 d2"
    and dirs: "\<forall>e \<in> set es. h_Typeflag (fst e) = TypeDir \<longrightarrow> is_dir_at d2 (entry_path t e)"
    using write_entries_effect[OF ok1 un1 f es(2), of "[]" H cache m 0 True] by auto
  have deep: "strict_prefix t (entry_path t e)" if "e \<in> set es" for e
    using that es(1) \<open>pc \<noteq> []\<close> by (auto simp: pack_entry_path pack_entry_def strict_prefix_def)
  have nt: "\<not> under (map (entry_path t) es) q" if "\<not> strict_prefix t q" for q
    using that deep unfolding under_iff by (auto dest!: prefix_order.less_le_trans)
  have leaf1: "leaf_at d1 q = None" if "prefix t q" for q
    using that below1[of q] dir1 by (auto simp: leaf_at_None_iff strict_prefix_def)
  have leaf: "leaf_at d2 q = archive_leaf t es q" if "prefix R q" "prefix t q" for q
    using effectD(4)[OF eff that(1)] leaf1[OF that(2)] archive_leaf_not_under[of t es q] by simp
  have out: "node_at d2 q = node_at d q" if "\<not> prefix t q" for q
  proof (cases "prefix q t")
    case True
    then have "is_dir_at d q" using that t(1,3) disk_ok_dir_above[OF ok(1)] dirs_above_parent[OF ok(1) t(1)]
      by (auto simp: dirs_above_iff strict_prefix_def)
    moreover have "node_at d1 q = node_at d q" using that by (auto simp: at1)
    ultimately show ?thesis using effectD(7)[OF eff nt, of q] that by (auto simp: strict_prefix_def is_dir_at_iff)
  next
    case False
    then have "apart (entry_path t e) q" if "e \<in> set es" for e
      using deep[OF that] \<open>\<not> prefix t q\<close> unfolding apart_def by (meson prefix_same_cases prefix_order.order_trans prefix_order.less_imp_le)
    then show ?thesis using effectD(5)[OF eff, of q] that at1[of q] by auto
  qed
  have pl: "plain_path d2 (t @ pc)"
  proof (cases "under (map (entry_path t) es) (t @ pc)")
    case False
    then show ?thesis using effect_plain[OF eff] plain_below_empty[OF ok1 dir1 below1] assms(11) by blast
  next
    case True
    then obtain e where e: "e \<in> set es" "prefix (entry_path t e) (t @ pc)" by (auto simp: under_iff)
    then have p: "entry_path t e = t @ pc" using es(1) by (auto simp: pack_entry_path pack_entry_def dest: prefix_order.antisym)
    have "leaf_at d2 (t @ pc) = entry_leaf e"
      using leaf[of "t @ pc"] archive_leaf_member[OF es(2) e(1)] t(4) p by simp
    moreover have "entry_leaf e \<noteq> None \<or> h_Typeflag (fst e) = TypeDir" using es(1) e(1) by (auto simp: pack_entry_def entry_leaf_def)
    ultimately have "node_at d2 (t @ pc) \<noteq> None" using dirs e(1) p by (metis is_dir_at_iff leaf_at_None_iff option.distinct(1))
    then show ?thesis using node_plain[OF effectD(1)[OF eff]] by blast
  qed
  have "leaf_at d2 q = leaf_at d q" if "prefix R q" "\<not> prefix t q" for q
  proof -
    have "leaf_at d1 q = leaf_at d q" using that(2) at1[of q] by (intro leaf_at_cong) (auto simp: d1_def)
    then show ?thesis using effectD(4)[OF eff that(1)] nt[of q] that(2) by (simp add: strict_prefix_def)
  qed
  moreover have "umask d1 = umask d" by (simp add: d1_def)
  moreover have "is_dir_at d2 t" using effect_dir[OF eff nt dir1] by simp
  ultimately show ?thesis using w pl leaf out effectD(1-3)[OF eff] by (simp add: write_all_def)
qed

text \<open>Unpacking beside the directory and swapping: the files of the pack are exactly those of the archive.\<close>

lemma WriteTar_pack_effect:
  assumes ok: "disk_ok d" "unshared R d" and dl: "is_dir_at d (R @ [''.dl''])"
    and pp: "plain_name pp" "name_path pp = pc" "pc \<noteq> []" "hd pc \<noteq> ''.dl''"
    and there: "node_at d (R @ pc) \<noteq> None"
    and es: "\<forall>e \<in> set es. pack_entry pc e" "all_apart (map (entry_path R) es)"
    and fresh: "r \<in> set (temp_names H d)" "node_at d (R @ [''.dl'', tmp_prefix @ r]) = None"
  shows "\<exists>d'. WriteTar H R cache \<lparr>tr_rest = es, tr_clean = True\<rparr> (Some pp) m d = (d', Inr (of_nat (length es), matches_all H m es)) \<and>
    effect R [R @ pc] (archive_leaf R es) d d'"
proof -
  let ?q = "R @ pc"
  have pre: "2 < length tmp_prefix" by (simp add: tmp_prefix_def)
  obtain r' p where r': "node_at d (R @ [''.dl''] @ [tmp_prefix @ r']) = None"
    "MkdirTemp (R @ [''.dl'']) tmp_prefix (temp_names H d) d = (put_node (R @ [''.dl''] @ [tmp_prefix @ r']) (Dir p) d, Inr (R @ [''.dl''] @ [tmp_prefix @ r']))"
    using MkdirTemp_fresh[OF ok(1) dl pre fresh(1)] fresh(2) by auto
  define t where "t = R @ [''.dl''] @ [tmp_prefix @ r']"
  have t: "t \<noteq> []" "node_at d t = None" "butlast t = R @ [''.dl'']" "prefix R t" "list_all good_name t"
    using r'(1) pre is_dir_at_good[OF ok(1) dl] by (simp_all add: t_def butlast_append long_name_good)
  have mk: "MkdirTemp (R @ [''.dl'']) tmp_prefix (temp_names H d) d = (put_node t (Dir p) d, Inr t)" using r'(2) by (simp add: t_def)
  have good: "list_all good_name pc" using name_path_good[OF pp(1)] pp(2) by simp
  obtain d2 where w: "write_all H t cache m \<lparr>tr_rest = es, tr_clean = True\<rparr> (put_node t (Dir p) d) = (d2, Inr (of_nat (length es), matches_all H m es))"
    and d2: "disk_ok d2" "unshared R d2" "umask d2 = umask d" "plain_path d2 (t @ pc)" "is_dir_at d2 t"
    and leaf: "\<And>q. prefix R q \<Longrightarrow> prefix t q \<Longrightarrow> leaf_at d2 q = archive_leaf t es q"
    and out: "\<And>q. \<not> prefix t q \<Longrightarrow> node_at d2 q = node_at d q"
    and rest: "\<And>q. prefix R q \<Longrightarrow> \<not> prefix t q \<Longrightarrow> leaf_at d2 q = leaf_at d q"
    using unpack_effect[OF ok t(1,2) _ t(4,5) es(1) _ pp(3) good refl, where H=H and cache=cache and m=m and p=p] dl t(3) all_apart_shift[OF es(1), of R t] es(2) by auto
  have ap: "apart ?q t" "apart ?q (t @ pc)" using pp(3,4) by (cases pc; auto simp: t_def apart_def)+
  have q2: "node_at d2 ?q \<noteq> None" using out[of ?q] ap(1) there by (simp add: apart_def)
  have q: "?q \<noteq> []" "plain_path d2 ?q" "is_dir_at d2 (butlast ?q)"
    using q2 pp(3) node_plain[OF d2(1)] disk_okD(2)[OF d2(1), of ?q] by auto
  obtain d3 where d3: "swap_pack t R pp d2 = (d3, Inr ())" "disk_ok d3" "unshared R d3" "umask d3 = umask d2" "inodes d3 = inodes d2"
    and at3: "\<And>r. node_at d3 r = (if prefix ?q r then node_at d2 (t @ pc @ drop (length ?q) r) else if prefix (t @ pc) r then None else node_at d2 r)"
    using swap_effect[OF d2(1,2) q(2,3,1) d2(4) _ ap(2), of t pp] pp t(4) by (auto simp: join_plain)
  have t3: "node_at d3 t = node_at d2 t" using at3[of t] ap(1) pp(3) by (simp add: apart_def)
  then have "node_at d3 t \<noteq> None" using d2(5) by (auto simp: is_dir_at_iff)
  then have "RemoveAll t d3 = (cut_tree t d3, Inr ())"
    using RemoveAll_plain(1)[OF node_plain[OF d3(2)] node_dirs_above[OF d3(2)] t(1)] by blast
  moreover have "fileExists (join_path R pp) d"
    using Lstat_plain[OF node_plain[OF ok(1)], of ?q] there pp by (auto simp: fileExists_def join_plain)
  ultimately have run: "WriteTar H R cache \<lparr>tr_rest = es, tr_clean = True\<rparr> (Some pp) m d =
      (cut_tree t d3, Inr (of_nat (length es), matches_all H m es))"
    using mk w d3(1) by (simp add: WriteTar_def andThen_def)
  let ?d = "cut_tree t d3"
  have same: "node_at ?d x = node_at d x" if "\<not> prefix ?q x" for x
    using that at3[of x] out[of x] nothing_below[OF ok(1) t(2), of x] t(1) by (auto dest: append_prefixD)
  have data: "get_data i ?d = get_data i d2" for i by (simp add: get_data_def d3(5))
  have "leaf_at ?d x = (if under [?q] x then archive_leaf R es x else leaf_at d x)" if "prefix R x" for x
  proof (cases "prefix ?q x")
    case True
    then obtain y where x: "x = R @ pc @ y" by (auto simp: prefix_def)
    have "\<not> prefix t x" using ap(1) True unfolding apart_def by (meson prefix_same_cases)
    then have "leaf_at ?d x = leaf_at d2 (t @ pc @ y)" using at3[of x] t(1) True by (simp add: leaf_at_def data x split: option.splits node.splits)
    also have "\<dots> = archive_leaf R es x" using leaf[of "t @ pc @ y"] t(4) archive_leaf_shift[OF es(1), of t "pc @ y" R] by (simp add: x)
    finally show ?thesis using True by simp
  next
    case False
    then show ?thesis
      using same[OF False] rest[OF that] out[of x] nothing_below[OF ok(1) t(2), of x] by (cases "prefix t x") (auto simp: leaf_at_def data split: option.splits node.splits)
  qed
  moreover have "unshared R ?d" using d3(3) t(1) by (auto simp: unshared_def split: if_splits)
  moreover have "bare_below ?d x" if "apart ?q x" "bare_below d x" for x
  proof -
    have "\<not> prefix ?q y" if "strict_prefix x y" for y
      using that \<open>apart ?q x\<close> unfolding apart_def by (meson prefix_same_cases prefix_order.less_imp_le)
    then show ?thesis using that(2) same unfolding bare_below_def leaf_at_None_iff is_dir_at_def by simp
  qed
  ultimately have "effect R [?q] (archive_leaf R es) d ?d"
    using same disk_ok_cut_tree[OF d3(2) t(1)] d3(4) d2(3) by (simp add: effect_def apart_def)
  with run show ?thesis by blast
qed

end
