(* ===== verification/LocalDir.thy ===== *)
theory LocalDir
  imports Mirror Auths
begin

text \<open>
  \<^verbatim>\<open>pkg/client/dir.go\<close> and \<^verbatim>\<open>pkg/client/token.go\<close>: the metadata directory of a local copy with its version
  file and summary, the version file of the local cache, and the token; and \<open>ObjectFromFilePath\<close> of
  \<^verbatim>\<open>internal/pb/fs.go\<close>, which reads an object back from the directory.
\<close>

datatype client_error =
    Files ferr | InvalidVersion string | VersionChanged int int | InvalidState string
  | InvalidStateInt string | Rpc code | EmptyLink | NoToken | NilResponse | CacheNotPrepared | NotADirectory | NotWritable

type_synonym 'a cio = "(disk, client_error, 'a) sem"

definition file_call :: "'a io \<Rightarrow> 'a cio" where
  "file_call m d = (case m d of (d', Inl e) \<Rightarrow> (d', Inl (Files e)) | (d', Inr a) \<Rightarrow> (d', Inr a))"

definition reading :: "(disk \<Rightarrow> client_error + 'a) \<Rightarrow> 'a cio" where
  "reading f d = (d, f d)"

section \<open>The metadata directory\<close>

definition metadataDir :: string where
  "metadataDir = ''.dl''"

definition versionFile :: "path \<Rightarrow> path" where
  "versionFile dir = dir @ [metadataDir, ''version'']"

definition summaryFile :: "path \<Rightarrow> path" where
  "summaryFile dir = dir @ [metadataDir, ''sum.s2'']"

definition fsdiffIgnores :: "string list" where
  "fsdiffIgnores = [''.dl'', ''.dl/version'', ''.dl/sum.s2'', ''.dl/diff.s2'']"

definition ensureMetadataDir :: "path \<Rightarrow> unit cio" where
  "ensureMetadataDir dir = file_call (os_call (MkdirAll (dir @ [metadataDir]) 0x1FD))"

definition CacheObjectsDir :: "path \<Rightarrow> path" where
  "CacheObjectsDir cacheRootDir = cacheRootDir @ [''objects'']"

definition CacheTmpDir :: "path \<Rightarrow> path" where
  "CacheTmpDir cacheRootDir = cacheRootDir @ [''tmp'']"

definition cacheVersionPath :: "path \<Rightarrow> path" where
  "cacheVersionPath cacheRootDir = cacheRootDir @ [''versions'']"

text \<open>Lines that are not numbers are skipped.\<close>

definition ReadCacheVersionFile :: "path \<Rightarrow> disk \<Rightarrow> int list" where
  "ReadCacheVersionFile cacheRootDir d =
     (case ReadFile (cacheVersionPath cacheRootDir) d of
        Inl e \<Rightarrow> []
      | Inr content \<Rightarrow> List.map_filter ParseInt (Split content CHR 0x0A))"

definition ReadVersionFile :: "path \<Rightarrow> disk \<Rightarrow> client_error + int" where
  "ReadVersionFile dir d =
     (case ReadFile (versionFile dir) d of
        Inl e \<Rightarrow> if e = ENOENT then Inr 0 else Inl (Files (Os e))
      | Inr bytes \<Rightarrow>
          (case ParseInt (TrimSpace bytes) of
             None \<Rightarrow> Inl (InvalidVersion bytes)
           | Some version \<Rightarrow> Inr version))"

definition WriteVersionFile :: "path \<Rightarrow> int \<Rightarrow> unit cio" where
  "WriteVersionFile dir version =
     andThen (ensureMetadataDir dir)
       (\<lambda>_. file_call (os_call (WriteFile (versionFile dir) (FormatInt version) 0x1ED)))"

text \<open>The summary is written before the differences are used.\<close>

definition DiffAndSummarize :: "host \<Rightarrow> path \<Rightarrow> fsdiff_update list cio" where
  "DiffAndSummarize H dir =
     andThen (ensureMetadataDir dir) (\<lambda>_.
     andThen (reading (\<lambda>d.
       case ReadSummary H (summaryFile dir) d of
         Inl e \<Rightarrow> if e = ENOENT then Inr [] else Inl (Files (Os e))
       | Inr summary \<Rightarrow> Inr summary)) (\<lambda>summary.
     andThen (reading (\<lambda>d.
       case fsdiff_Diff H dir fsdiffIgnores summary d of
         Inl e \<Rightarrow> Inl (Files (Os e))
       | Inr r \<Rightarrow> Inr r)) (\<lambda>(updates, summary').
     andThen (file_call (os_call (WriteSummary H (summaryFile dir) summary'))) (\<lambda>_.
     ret updates))))"

section \<open>Reading an object\<close>

definition ObjectFromFilePath :: "path \<Rightarrow> string \<Rightarrow> disk \<Rightarrow> client_error + pb_object" where
  "ObjectFromFilePath directory path d =
     (let fullPath = join_path directory path in
      case Lstat fullPath d of
        Inl e \<Rightarrow>
          if e = ENOENT then Inr \<lparr>Path = path, Mode = 0, Size = 0, Deleted = True, Content = None\<rparr>
          else Inl (Files (Os e))
      | Inr info \<Rightarrow>
          (let mode = info_mode d info;
               object = (\<lambda>content. \<lparr>Path = path, Mode = uint mode, Size = int (length content), Deleted = False, Content = Some content\<rparr>)
           in
           if TarTypeFromMode mode = TypeReg then
             (case ReadFile fullPath d of Inl e \<Rightarrow> Inl (Files (Os e)) | Inr content \<Rightarrow> Inr (object content))
           else if TarTypeFromMode mode = TypeDir then Inr (object [])
           else
             (case Readlink fullPath d of
                Inl e \<Rightarrow> Inl (Files (Os e))
              | Inr target \<Rightarrow> if target = [] then Inl EmptyLink else Inr (object target))))"

section \<open>The token\<close>

definition client_getToken :: "(string \<Rightarrow> string) \<Rightarrow> (string \<Rightarrow> path) \<Rightarrow> disk \<Rightarrow> client_error + string" where
  "client_getToken Getenv absolute d =
     (let token = Getenv ''DL_TOKEN'' in
      if token = [] then
        (let tokenFile = Getenv ''DL_TOKEN_FILE'' in
         if tokenFile = [] then Inl NoToken
         else (case ReadFile (absolute tokenFile) d of Inl e \<Rightarrow> Inl (Files (Os e)) | Inr bytes \<Rightarrow> Inr bytes))
      else Inr token)"

section \<open>The invariant is kept\<close>

lemma keeps_file_call [keeps_intros]: "keeps_ok m \<Longrightarrow> keeps_ok (file_call m)"
  by (fastforce simp: keeps_ok_def file_call_def split: prod.splits sum.splits)

lemma keeps_reading [keeps_intros]: "keeps_ok (reading f)"
  by (simp add: keeps_ok_def reading_def)

lemma metadata_good [simp]: "good_name metadataDir" "good_name ''version''" "good_name ''sum.s2''"
  by (simp_all add: good_name_def metadataDir_def)

lemma keeps_ensureMetadataDir [keeps_intros]: "list_all good_name dir \<Longrightarrow> keeps_ok (ensureMetadataDir dir)"
  unfolding ensureMetadataDir_def by (intro keeps_intros) simp

lemma keeps_WriteVersionFile [keeps_intros]: "list_all good_name dir \<Longrightarrow> keeps_ok (WriteVersionFile dir v)"
  unfolding WriteVersionFile_def by (intro keeps_intros) (simp_all add: versionFile_def)

lemma keeps_DiffAndSummarize [keeps_intros]:
  assumes "list_all good_name dir" and "\<And>p s. keeps_ok (WriteSummary H p s)"
  shows "keeps_ok (DiffAndSummarize H dir)"
  unfolding DiffAndSummarize_def by (intro keeps_intros assms) (auto intro!: keeps_intros assms split: prod.splits)

section \<open>The version file\<close>

text \<open>A local copy: a directory whose metadata directory, if there, is one, and whose version file, if there, is a file.\<close>

definition local_dir :: "disk \<Rightarrow> path \<Rightarrow> bool" where
  "local_dir d dir \<longleftrightarrow> disk_ok d \<and> is_dir_at d dir \<and>
     (node_at d (dir @ [metadataDir]) = None \<or> is_dir_at d (dir @ [metadataDir])) \<and>
     (case node_at d (versionFile dir) of None \<Rightarrow> True | Some (Reg i) \<Rightarrow> True | _ \<Rightarrow> False)"

lemma local_dir_plain:
  assumes "local_dir d dir"
  shows "plain_path d (dir @ [metadataDir])" and "plain_path d (versionFile dir)"
proof -
  have ok: "disk_ok d" "is_dir_at d dir" using assms by (simp_all add: local_dir_def)
  have up: "dirs_above d (dir @ [metadataDir])" using dirs_above_parent[OF ok(1), of "dir @ [metadataDir]"] ok(2) by simp
  show pm: "plain_path d (dir @ [metadataDir])"
    using ok(1) up is_dir_at_good[OF ok] by (simp add: plain_path_def clear_above_dirs)
  have "node_at d q = None \<or> is_dir_at d q" if "strict_prefix q (versionFile dir)" for q
  proof -
    have "q = dir @ [metadataDir] \<or> strict_prefix q (dir @ [metadataDir])"
      using that by (auto simp: versionFile_def strict_prefix_def prefix_append prefix_Cons)
    then show ?thesis using assms pm by (auto simp: local_dir_def plain_path_def clear_above_iff)
  qed
  then show "plain_path d (versionFile dir)"
    using ok(1) is_dir_at_good[OF ok] by (simp add: plain_path_def clear_above_iff versionFile_def)
qed

lemma file_bare_below:
  assumes "disk_ok d" and "\<not> is_dir_at d p"
  shows "bare_below d p"
  unfolding bare_below_def leaf_at_None_iff
proof (intro allI impI disjI1)
  fix q assume "strict_prefix p q"
  then show "node_at d q = None" using disk_ok_dir_above[OF assms(1), of q _ p] assms(2) by (cases "node_at d q") auto
qed

lemma version_butlast [simp]: "butlast (versionFile dir) = dir @ [metadataDir]" "versionFile dir \<noteq> []"
  "dir @ [metadataDir] \<noteq> versionFile dir"
  by (simp_all add: versionFile_def butlast_append)

lemma WriteVersionFile_effect:
  assumes l: "local_dir d dir" and un: "unshared R d" and R: "prefix R dir"
  shows "\<exists>d'. WriteVersionFile dir v d = (d', Inr ()) \<and> touches R (versionFile dir) d d' \<and>
    leaf_at d' (versionFile dir) = Some (LFile (FormatInt v)) \<and> is_dir_at d' (dir @ [metadataDir])"
proof -
  let ?p = "versionFile dir"
  have pl: "plain_path d ?p" using local_dir_plain(2)[OF l] .
  have ok: "disk_ok d" and nd: "\<not> is_dir_at d ?p" "\<forall>t. node_at d ?p \<noteq> Some (Sym t)"
    using l by (auto simp: local_dir_def is_dir_at_iff split: option.splits node.splits)
  have bare: "bare_below d ?p" using file_bare_below[OF ok nd(1)] .
  obtain d1 where d1: "MkdirAll (butlast ?p) 0x1FD d = (d1, Inr ())" and made: "made (butlast ?p) 0x1FD d d1"
    using MkdirAll_plain[OF local_dir_plain(1)[OF l]] l by (auto simp: local_dir_def)
  note m = made_dirs_above[OF made pl version_butlast(2)]
  have nd1: "\<not> is_dir_at d1 ?p" "\<forall>t. node_at d1 ?p \<noteq> Some (Sym t)" using nd m(3) by (simp_all add: is_dir_at_def)
  obtain d2 i where o: "open_create True ?p 0x1ED d1 = (d2, Inr i)" "umask d2 = umask d1"
    "\<And>q. node_at d2 q = (if q = ?p then Some (Reg i) else node_at d1 q)"
    "i < length (inodes d2)" "get_data i d2 = []" "node_at d1 ?p = Some (Reg i) \<or> length (inodes d1) \<le> i"
    "\<And>j. j < length (inodes d1) \<Longrightarrow> j \<noteq> i \<Longrightarrow> get_data j d2 = get_data j d1"
    using open_create_plain[OF m(1,2) version_butlast(2) nd1(2,1), where m="0x1ED"] by blast
  let ?d3 = "set_data i (FormatInt v) d2"
  have run: "WriteVersionFile dir v d = (?d3, Inr ())"
    using d1 o(1) by (simp add: WriteVersionFile_def ensureMetadataDir_def file_call_def os_call_def WriteFile_def andThen_def)
  have good: "list_all good_name dir" using pl by (simp add: plain_path_def versionFile_def)
  have "disk_ok ?d3" using keeps_okD[OF keeps_WriteVersionFile[OF good] ok, of v] run by simp
  then have "touches R ?p d1 ?d3"
    by (rule placed_touches[where x="Some (Reg i)" and b=False])
      (use o m bare un R plainD(1)[OF m(1)] in \<open>auto simp: versionFile_def\<close>)
  then have "touches R ?p d ?d3" using made_then_touches[OF made] by simp
  moreover have "is_dir_at ?d3 (dir @ [metadataDir])"
    using m(2) o(3)[of "dir @ [metadataDir]"] dirs_above_parent[OF plainD(1)[OF m(1)], of ?p] by (simp add: is_dir_at_def)
  ultimately show ?thesis using run o(3)[of ?p] o(4) by (simp add: leaf_at_def)
qed

lemma ReadVersionFile_leaf:
  assumes "disk_ok d" and "leaf_at d (versionFile dir) = Some (LFile (FormatInt v))" and "is_int64 v"
  shows "ReadVersionFile dir d = Inr v"
proof -
  obtain i where i: "node_at d (versionFile dir) = Some (Reg i)" "get_data i d = FormatInt v"
    using assms(2) by (auto simp: leaf_at_def split: option.splits node.splits)
  then have "ReadFile (versionFile dir) d = Inr (FormatInt v)" using ReadFile_plain[OF node_plain[OF assms(1) i(1)] i(1)] by simp
  then show ?thesis using assms(3) by (simp add: ReadVersionFile_def TrimSpace_FormatInt ParseInt_FormatInt)
qed

lemma ReadVersionFile_missing:
  assumes "local_dir d dir" and "node_at d (versionFile dir) = None"
  shows "ReadVersionFile dir d = Inr 0"
  using Stat_plain[OF local_dir_plain(2)[OF assms(1)]] assms(2) by (simp add: ReadVersionFile_def ReadFile_def)

text \<open>Versions are appended to the cache's file, one per line.\<close>

lemma Split_lines: "Split (b @ FormatInt v @ [c]) c = butlast (Split b c) @ [last (Split b c) @ FormatInt v, []]" if "c \<notin> set (FormatInt v)"
proof (induction b)
  case Nil
  then show ?case using Split_append_sep[OF that, of "[]"] by simp
next
  case (Cons x b)
  obtain y ys where y: "Split b c = y # ys" using Split_nonempty[of b c] by (cases "Split b c") auto
  with Cons show ?case by (cases ys) (auto split: list.splits)
qed

lemma Split_snoc: "\<exists>ys. ys \<noteq> [] \<and> Split (t @ [c]) c = ys @ [[]]"
proof (induction t)
  case (Cons x t)
  then obtain y ys where "Split (t @ [c]) c = (y # ys) @ [[]]" by (metis neq_Nil_conv)
  then show ?case by (cases "x = c") (auto intro: exI[of _ "[] # y # ys"] exI[of _ "(x # y) # ys"])
qed (auto intro: exI[of _ "[[]]"])

lemma Split_ends: "HasSuffix b [c] \<or> b = [] \<Longrightarrow> last (Split b c) = []"
  using Split_snoc by (auto simp: HasSuffix_iff) (metis last_snoc)

lemma versions_append:
  assumes "is_int64 v" and "HasSuffix b [CHR 0x0A] \<or> b = []"
  shows "List.map_filter ParseInt (Split (b @ FormatInt v @ [CHR 0x0A]) CHR 0x0A) = List.map_filter ParseInt (Split b CHR 0x0A) @ [v]"
proof -
  let ?f = "List.map_filter ParseInt" and ?b = "butlast (Split b CHR 0x0A)"
  have nl: "CHR 0x0A \<notin> set (FormatInt v)" using FormatInt_chars[of "CHR 0x0A" v] by auto
  have e: "last (Split b CHR 0x0A) = []" using Split_ends[OF assms(2)] .
  have b: "Split b CHR 0x0A = ?b @ [[]]" using e Split_nonempty[of b "CHR 0x0A"] by (metis append_butlast_last_id)
  have app: "?f (xs @ ys) = ?f xs @ ?f ys" for xs ys by (simp add: List.map_filter_def)
  have one: "?f [FormatInt v, []] = [v]" "?f [[]] = []"
    using ParseInt_FormatInt[OF assms(1)] by (simp_all add: map_filter_simps) (simp_all add: ParseInt_def)
  have "?f (Split (b @ FormatInt v @ [CHR 0x0A]) CHR 0x0A) = ?f (?b @ [FormatInt v, []])"
    using Split_lines[OF nl, of b] e by simp
  also have "\<dots> = ?f (?b @ [[]]) @ [v]" by (simp only: app one append.right_neutral)
  also have "?b @ [[]] = Split b CHR 0x0A" using b by simp
  finally show ?thesis .
qed

section \<open>Reading back what was written\<close>

lemma node_types:
  "TarTypeFromMode (x AND ModePerm) = TypeReg"
  "TarTypeFromMode (ModeDir OR m) = TypeDir"
  "TarTypeFromMode (ModeSymlink OR ModePerm) = TypeSymlink"
proof -
  have "(x AND ModePerm) AND ModeDir = 0" "(x AND ModePerm) AND ModeSymlink = 0"
    by (simp_all add: and.assoc ModePerm_def ModeDir_def ModeSymlink_def)
  then show "TarTypeFromMode (x AND ModePerm) = TypeReg" by (simp add: TarTypeFromMode_def)
  have "(ModeDir OR m) AND ModeDir = ModeDir" by (rule bit_eqI) (auto simp: bit_and_iff bit_or_iff)
  then show "TarTypeFromMode (ModeDir OR m) = TypeDir" by (simp add: TarTypeFromMode_def)
  show "TarTypeFromMode (ModeSymlink OR ModePerm) = TypeSymlink"
    by (simp add: TarTypeFromMode_def ModePerm_def ModeDir_def ModeSymlink_def)
qed

lemma ObjectFromFilePath_node:
  assumes "disk_ok d" and p: "join_path dir path = p" and n: "node_at d p = Some n"
  shows "ObjectFromFilePath dir path d =
    (case n of
       Reg i \<Rightarrow> Inr \<lparr>Path = path, Mode = uint (info_mode d n), Size = int (length (get_data i d)), Deleted = False, Content = Some (get_data i d)\<rparr>
     | Dir m \<Rightarrow> Inr \<lparr>Path = path, Mode = uint (info_mode d n), Size = 0, Deleted = False, Content = Some []\<rparr>
     | Sym t \<Rightarrow> if t = [] then Inl EmptyLink
         else Inr \<lparr>Path = path, Mode = uint (info_mode d n), Size = int (length t), Deleted = False, Content = Some t\<rparr>)"
proof -
  have pl: "plain_path d p" using node_plain[OF assms(1) n] .
  have "Lstat p d = Inr n" using Lstat_plain[OF pl] n by simp
  then show ?thesis using ReadFile_plain[OF pl] n
    by (cases n) (simp_all add: ObjectFromFilePath_def p Let_def info_mode_def node_types typeflag_defs Readlink_def)
qed

lemma ObjectFromFilePath_missing:
  assumes "plain_path d (join_path dir path)" and "node_at d (join_path dir path) = None"
  shows "ObjectFromFilePath dir path d = Inr \<lparr>Path = path, Mode = 0, Size = 0, Deleted = True, Content = None\<rparr>"
  using Lstat_plain[OF assms(1)] assms(2) by (simp add: ObjectFromFilePath_def Let_def)

end
