(* ===== verification/Pool.thy ===== *)
theory Pool
  imports Prelude
begin

text \<open>
  The goroutines of \<open>Rebuild\<close> and \<open>GetCache\<close> in \<^verbatim>\<open>pkg/client/client.go\<close>: a receiver checks the messages of a
  stream and puts them into a bounded channel, a group of workers takes them out and writes them, and the group's result is the
  first error. The step relation interleaves the receiver and the workers in every possible
  way; writing one message is one step. \<open>run_pool\<close> executes the steps a scheduler picks.
\<close>

section \<open>States and steps\<close>

text \<open>
  The receiver holds the message it has received last; \<open>pl_source\<close> and \<open>pl_end\<close> are what the stream still
  delivers and how it ends. \<open>pl_seen\<close> is the receiver's part of the state (the version it has seen),
  \<open>pl_state\<close> the workers' (the disk and the counters). A worker waits (\<open>None\<close>) or has taken a
  message; one that has returned is gone from the list. The first error cancels the context of the group.
\<close>

record ('r, 'v, 's, 'e) pool =
  pl_held :: "'r option"
  pl_source :: "'r list"
  pl_end :: "'e option"
  pl_chan :: "'r list"
  pl_closed :: bool
  pl_workers :: "'r option list"
  pl_seen :: 'v
  pl_state :: 's
  pl_err :: "'e option"

definition first_error :: "'e option \<Rightarrow> 'e option \<Rightarrow> 'e option" where
  "first_error old new = (case old of None \<Rightarrow> new | Some e \<Rightarrow> Some e)"

text \<open>The receiver gets the next message, or closes the channel.\<close>

definition receive_next :: "('r, 'v, 's, 'e) pool \<Rightarrow> ('r, 'v, 's, 'e) pool" where
  "receive_next p =
     (case pl_source p of
        r # rs \<Rightarrow> p\<lparr>pl_held := Some r, pl_source := rs\<rparr>
      | [] \<Rightarrow> p\<lparr>pl_held := None, pl_closed := True, pl_err := first_error (pl_err p) (pl_end p)\<rparr>)"

definition send_held :: "'r \<Rightarrow> 'v \<Rightarrow> ('r, 'v, 's, 'e) pool \<Rightarrow> ('r, 'v, 's, 'e) pool" where
  "send_held r v p = receive_next (p\<lparr>pl_seen := v, pl_chan := pl_chan p @ [r]\<rparr>)"

definition stop_receiver :: "'e option \<Rightarrow> ('r, 'v, 's, 'e) pool \<Rightarrow> ('r, 'v, 's, 'e) pool" where
  "stop_receiver e p = p\<lparr>pl_held := None, pl_closed := True, pl_err := first_error (pl_err p) e\<rparr>"

definition take_next :: "nat \<Rightarrow> ('r, 'v, 's, 'e) pool \<Rightarrow> ('r, 'v, 's, 'e) pool" where
  "take_next i p = p\<lparr>pl_chan := tl (pl_chan p), pl_workers := (pl_workers p)[i := Some (hd (pl_chan p))]\<rparr>"

definition without_worker :: "nat \<Rightarrow> 'r option list \<Rightarrow> 'r option list" where
  "without_worker i ws = take i ws @ drop (Suc i) ws"

definition write_done :: "nat \<Rightarrow> 's \<times> ('e + unit) \<Rightarrow> ('r, 'v, 's, 'e) pool \<Rightarrow> ('r, 'v, 's, 'e) pool" where
  "write_done i result p =
     (case result of
        (s, Inr _) \<Rightarrow> p\<lparr>pl_state := s, pl_workers := (pl_workers p)[i := None]\<rparr>
      | (s, Inl e) \<Rightarrow> p\<lparr>pl_state := s, pl_workers := without_worker i (pl_workers p), pl_err := first_error (pl_err p) (Some e)\<rparr>)"

definition leave_group :: "nat \<Rightarrow> ('r, 'v, 's, 'e) pool \<Rightarrow> ('r, 'v, 's, 'e) pool" where
  "leave_group i p = p\<lparr>pl_workers := without_worker i (pl_workers p)\<rparr>"

inductive pool_step :: "nat \<Rightarrow> ('r \<Rightarrow> 'v \<Rightarrow> 'e + 'v) \<Rightarrow> ('r \<Rightarrow> ('s, 'e, unit) sem) \<Rightarrow>
    ('r, 'v, 's, 'e) pool \<Rightarrow> ('r, 'v, 's, 'e) pool \<Rightarrow> bool"
  for cap check wr where
  send: "pl_held p = Some r \<Longrightarrow> check r (pl_seen p) = Inr v \<Longrightarrow> length (pl_chan p) < cap \<Longrightarrow>
    pool_step cap check wr p (send_held r v p)"
| refuse: "pl_held p = Some r \<Longrightarrow> check r (pl_seen p) = Inl e \<Longrightarrow>
    pool_step cap check wr p (stop_receiver (Some e) p)"
| halt: "pl_held p = Some r \<Longrightarrow> pl_err p \<noteq> None \<Longrightarrow> pool_step cap check wr p (stop_receiver None p)"
| take: "i < length (pl_workers p) \<Longrightarrow> pl_workers p ! i = None \<Longrightarrow> pl_chan p \<noteq> [] \<Longrightarrow>
    pool_step cap check wr p (take_next i p)"
| finish: "i < length (pl_workers p) \<Longrightarrow> pl_workers p ! i = Some r \<Longrightarrow>
    pool_step cap check wr p (write_done i (wr r (pl_state p)) p)"
| leave: "i < length (pl_workers p) \<Longrightarrow> pl_workers p ! i = None \<Longrightarrow> pl_chan p = [] \<and> pl_closed p \<or> pl_err p \<noteq> None \<Longrightarrow>
    pool_step cap check wr p (leave_group i p)"

text \<open>The group has returned when the receiver and all the workers have.\<close>

definition pool_done :: "('r, 'v, 's, 'e) pool \<Rightarrow> bool" where
  "pool_done p \<longleftrightarrow> pl_held p = None \<and> pl_workers p = []"

definition pool_start :: "nat \<Rightarrow> 'r \<Rightarrow> 'r list \<Rightarrow> 'e option \<Rightarrow> 'v \<Rightarrow> 's \<Rightarrow> ('r, 'v, 's, 'e) pool" where
  "pool_start n r rs ending v s =
     \<lparr>pl_held = Some r, pl_source = rs, pl_end = ending, pl_chan = [], pl_closed = False,
      pl_workers = replicate n None, pl_seen = v, pl_state = s, pl_err = None\<rparr>"

text \<open>The steps as a list, the receiver's first.\<close>

definition receiver_moves :: "nat \<Rightarrow> ('r \<Rightarrow> 'v \<Rightarrow> 'e + 'v) \<Rightarrow> ('r, 'v, 's, 'e) pool \<Rightarrow> ('r, 'v, 's, 'e) pool list" where
  "receiver_moves cap check p =
     (case pl_held p of
        None \<Rightarrow> []
      | Some r \<Rightarrow>
          (case check r (pl_seen p) of
             Inl e \<Rightarrow> [stop_receiver (Some e) p]
           | Inr v \<Rightarrow> if length (pl_chan p) < cap then [send_held r v p] else []) @
          (if pl_err p \<noteq> None then [stop_receiver None p] else []))"

definition worker_moves :: "('r \<Rightarrow> ('s, 'e, unit) sem) \<Rightarrow> ('r, 'v, 's, 'e) pool \<Rightarrow> nat \<Rightarrow> ('r, 'v, 's, 'e) pool list" where
  "worker_moves wr p i =
     (case pl_workers p ! i of
        Some r \<Rightarrow> [write_done i (wr r (pl_state p)) p]
      | None \<Rightarrow>
          (if pl_chan p \<noteq> [] then [take_next i p] else []) @
          (if pl_chan p = [] \<and> pl_closed p \<or> pl_err p \<noteq> None then [leave_group i p] else []))"

definition pool_moves :: "nat \<Rightarrow> ('r \<Rightarrow> 'v \<Rightarrow> 'e + 'v) \<Rightarrow> ('r \<Rightarrow> ('s, 'e, unit) sem) \<Rightarrow>
    ('r, 'v, 's, 'e) pool \<Rightarrow> ('r, 'v, 's, 'e) pool list" where
  "pool_moves cap check wr p = receiver_moves cap check p @ concat (map (worker_moves wr p) [0..<length (pl_workers p)])"

inductive_cases pool_stepE: "pool_step cap check wr p q"

lemma pool_moves_step: "q \<in> set (pool_moves cap check wr p) \<longleftrightarrow> pool_step cap check wr p q"
proof
  assume "q \<in> set (pool_moves cap check wr p)"
  then consider "q \<in> set (receiver_moves cap check p)" | i where "i < length (pl_workers p)" "q \<in> set (worker_moves wr p i)"
    by (auto simp: pool_moves_def)
  then show "pool_step cap check wr p q"
  proof cases
    case 1
    then obtain r where r: "pl_held p = Some r" by (cases "pl_held p") (auto simp: receiver_moves_def)
    then show ?thesis using 1 pool_step.send[OF r] pool_step.refuse[OF r] pool_step.halt[OF r]
      by (auto simp: receiver_moves_def split: sum.splits if_splits)
  next
    case 2
    then show ?thesis using pool_step.take[OF 2(1)] pool_step.finish[OF 2(1)] pool_step.leave[OF 2(1)]
      by (cases "pl_workers p ! i") (auto simp: worker_moves_def split: if_splits)
  qed
next
  have worker: "q \<in> set (worker_moves wr p i) \<Longrightarrow> i < length (pl_workers p) \<Longrightarrow> q \<in> set (pool_moves cap check wr p)" for i
    by (auto simp: pool_moves_def)
  have receiver: "q \<in> set (receiver_moves cap check p) \<Longrightarrow> q \<in> set (pool_moves cap check wr p)"
    by (simp add: pool_moves_def)
  assume "pool_step cap check wr p q"
  then show "q \<in> set (pool_moves cap check wr p)"
  proof (cases rule: pool_step.cases)
    case (take i)
    then show ?thesis using worker[of i] by (simp add: worker_moves_def)
  next
    case (finish i r)
    then show ?thesis using worker[of i] by (simp add: worker_moves_def)
  next
    case (leave i)
    then show ?thesis using worker[of i] by (simp add: worker_moves_def)
  qed (use receiver in \<open>auto simp: receiver_moves_def\<close>)
qed

section \<open>Every run ends\<close>

definition busy :: "'r option list \<Rightarrow> 'r multiset" where
  "busy ws = mset (List.map_filter id ws)"

definition pool_left :: "('r, 'v, 's, 'e) pool \<Rightarrow> nat" where
  "pool_left p = 3 * (length (pl_source p) + (if pl_held p = None then 0 else 1)) + 2 * length (pl_chan p) +
     size (busy (pl_workers p)) + length (pl_workers p)"

lemma busy_simps [simp]: "busy [] = {#}" "busy (None # ws) = busy ws" "busy (Some r # ws) = add_mset r (busy ws)"
  by (simp_all add: busy_def map_filter_simps)

lemma busy_replicate [simp]: "busy (replicate n None) = {#}"
  by (induction n) simp_all

lemma busy_taken [simp]: "i < length ws \<Longrightarrow> ws ! i = None \<Longrightarrow> busy (ws[i := Some r]) = add_mset r (busy ws)"
proof (induction ws arbitrary: i)
  case (Cons w ws)
  then show ?case by (cases i; cases w) auto
qed simp

lemma busy_done: "i < length ws \<Longrightarrow> ws ! i = Some r \<Longrightarrow> busy ws = add_mset r (busy (ws[i := None]))"
proof (induction ws arbitrary: i)
  case (Cons w ws)
  then show ?case by (cases i; cases w) auto
qed simp

lemma busy_without [simp]: "i < length ws \<Longrightarrow> busy (without_worker i ws) = busy (ws[i := None])"
proof (induction ws arbitrary: i)
  case (Cons w ws)
  then show ?case by (cases i; cases w) (auto simp: without_worker_def)
qed simp

lemma busy_idle [simp]: "i < length ws \<Longrightarrow> ws ! i = None \<Longrightarrow> busy (ws[i := None]) = busy ws"
  by (metis list_update_id)

lemma length_without [simp]: "i < length ws \<Longrightarrow> length (without_worker i ws) = length ws - 1"
  by (simp add: without_worker_def)

lemmas pool_effects = send_held_def receive_next_def stop_receiver_def take_next_def write_done_def leave_group_def

lemma pool_step_left: "pool_step cap check wr p q \<Longrightarrow> pool_left q < pool_left p"
proof (induction rule: pool_step.induct)
  case (finish i p r)
  obtain s x where "wr r (pl_state p) = (s, x)" by fastforce
  moreover have "size (busy (pl_workers p)) = Suc (size (busy ((pl_workers p)[i := None])))" using busy_done[OF finish] by simp
  ultimately show ?case using finish(1) by (cases x) (simp_all add: pool_left_def write_done_def)
next
  case (take i p)
  then show ?case by (cases "pl_chan p") (simp_all add: pool_left_def take_next_def)
qed (auto simp: pool_left_def pool_effects split: list.splits)

text \<open>
  A run under a scheduler, which picks one of the possible steps. A pool in which nothing can move, and
  which has not returned, waits for ever.
\<close>

function run_pool :: "nat \<Rightarrow> ('r \<Rightarrow> 'v \<Rightarrow> 'e + 'v) \<Rightarrow> ('r \<Rightarrow> ('s, 'e, unit) sem) \<Rightarrow> (nat \<Rightarrow> nat) \<Rightarrow>
    ('r, 'v, 's, 'e) pool \<Rightarrow> ('r, 'v, 's, 'e) pool option" where
  "run_pool cap check wr sched p =
     (if pool_done p then Some p
      else if pool_moves cap check wr p = [] then None
      else run_pool cap check wr sched
             (pool_moves cap check wr p ! (sched (pool_left p) mod length (pool_moves cap check wr p))))"
  by pat_completeness auto

lemma pool_pick:
  "pool_moves cap check wr p \<noteq> [] \<Longrightarrow> pool_step cap check wr p (pool_moves cap check wr p ! (k mod length (pool_moves cap check wr p)))"
  by (metis length_greater_0_conv mod_less_divisor nth_mem pool_moves_step)

termination run_pool
  by (relation "measure (\<lambda>(_, _, _, _, p). pool_left p)") (auto intro: pool_step_left pool_pick)

declare run_pool.simps [simp del]

lemma run_pool_runs: "run_pool cap check wr sched p = Some q \<Longrightarrow> (pool_step cap check wr)\<^sup>*\<^sup>* p q \<and> pool_done q"
proof (induction cap check wr sched p rule: run_pool.induct)
  case (1 cap check wr sched p)
  show ?case
  proof (cases "pool_done p")
    case True
    then show ?thesis using 1(2) by (simp add: run_pool.simps)
  next
    case False
    then have moves: "pool_moves cap check wr p \<noteq> []" using 1(2) by (auto simp: run_pool.simps[of cap check wr sched p] split: if_splits)
    then show ?thesis using 1(1)[OF False moves] 1(2) False pool_pick[OF moves, of "sched (pool_left p)"]
      by (auto simp: run_pool.simps[of cap check wr sched p] intro: converse_rtranclp_into_rtranclp)
  qed
qed

text \<open>The receiver has a message, or the channel is closed; without an error, only at the end of the stream.\<close>

definition pool_ok :: "('r, 'v, 's, 'e) pool \<Rightarrow> bool" where
  "pool_ok p \<longleftrightarrow> (pl_held p = None \<longleftrightarrow> pl_closed p) \<and> (pl_closed p \<and> pl_err p = None \<longrightarrow> pl_source p = [] \<and> pl_end p = None)"

lemma first_error_None [simp]: "first_error a b = None \<longleftrightarrow> a = None \<and> b = None"
  by (simp add: first_error_def split: option.splits)

lemma pool_start_ok: "pool_ok (pool_start n r rs e v s)"
  by (simp add: pool_ok_def pool_start_def)

lemma pool_step_ok: "pool_step cap check wr p q \<Longrightarrow> pool_ok p \<Longrightarrow> pool_ok q"
  by (induction rule: pool_step.induct) (auto simp: pool_ok_def pool_effects split: list.splits prod.splits sum.splits)

lemma pool_run_ok: "(pool_step cap check wr)\<^sup>*\<^sup>* p q \<Longrightarrow> pool_ok p \<Longrightarrow> pool_ok q"
  by (induction rule: rtranclp_induct) (auto intro: pool_step_ok)

text \<open>
  With room in the channel, a pool that still has a worker can move. The workers only go away
  one by one, and the last one not before there is an error or nothing is left.
\<close>

definition served :: "('r, 'v, 's, 'e) pool \<Rightarrow> bool" where
  "served p \<longleftrightarrow> pool_ok p \<and> (pl_workers p = [] \<longrightarrow> pl_closed p \<or> pl_err p \<noteq> None)"

lemma pool_step_served: "pool_step cap check wr p q \<Longrightarrow> served p \<Longrightarrow> served q"
proof -
  assume step: "pool_step cap check wr p q" and p: "served p"
  have "pl_workers q = [] \<longrightarrow> pl_closed q \<or> pl_err q \<noteq> None" using step p
    by (induction rule: pool_step.induct)
       (auto simp: served_def pool_effects without_worker_def split: list.splits prod.splits sum.splits)
  then show ?thesis using pool_step_ok[OF step] p by (simp add: served_def)
qed

lemma pool_progress:
  assumes "served p" and "0 < cap" and "\<not> pool_done p"
  shows "pool_moves cap check wr p \<noteq> []"
proof -
  have "\<exists>q. pool_step cap check wr p q"
  proof (cases "\<exists>i < length (pl_workers p). pl_workers p ! i \<noteq> None \<or> pl_chan p \<noteq> [] \<or> pl_closed p \<or> pl_err p \<noteq> None")
    case True
    then show ?thesis using pool_step.take pool_step.finish pool_step.leave by (metis option.exhaust)
  next
    case False
    then obtain r where r: "pl_held p = Some r" and full: "pl_err p = None \<Longrightarrow> pl_chan p = []"
      using assms(1,3) by (auto simp: served_def pool_ok_def pool_done_def)
    show ?thesis
    proof (cases "pl_err p")
      case None
      then show ?thesis using pool_step.send[OF r, of check _ cap wr] pool_step.refuse[OF r, of check _ cap wr] full assms(2)
        by (cases "check r (pl_seen p)") auto
    next
      case (Some e)
      then show ?thesis using pool_step.halt[OF r, of cap check wr] by auto
    qed
  qed
  then show ?thesis using pool_moves_step[of _ cap check wr p] by auto
qed

lemma run_pool_ends: "served p \<Longrightarrow> 0 < cap \<Longrightarrow> \<exists>q. run_pool cap check wr sched p = Some q"
proof (induction cap check wr sched p rule: run_pool.induct)
  case (1 cap check wr sched p)
  show ?case
  proof (cases "pool_done p")
    case True
    then show ?thesis by (simp add: run_pool.simps)
  next
    case False
    then have moves: "pool_moves cap check wr p \<noteq> []" using pool_progress[OF 1(2,3)] by blast
    then show ?thesis using 1(1)[OF False moves pool_step_served[OF pool_pick[OF moves] 1(2)] 1(3)] False
      by (simp add: run_pool.simps[of cap check wr sched p])
  qed
qed

lemma served_start: "0 < n \<Longrightarrow> served (pool_start n r rs e v s)"
  using pool_start_ok by (auto simp: served_def pool_start_def)

text \<open>The result of the group: the first error, or what the receiver has seen.\<close>

definition group_result :: "('r, 'v, 's, 'e) pool \<Rightarrow> 's \<times> ('e + 'v)" where
  "group_result p = (pl_state p, case pl_err p of Some e \<Rightarrow> Inl e | None \<Rightarrow> Inr (pl_seen p))"

definition run_group :: "int \<Rightarrow> nat \<Rightarrow> ('r \<Rightarrow> 'v \<Rightarrow> 'e + 'v) \<Rightarrow> ('r \<Rightarrow> ('s, 'e, unit) sem) \<Rightarrow> (nat \<Rightarrow> nat) \<Rightarrow>
    'r list \<Rightarrow> 'e option \<Rightarrow> 'v \<Rightarrow> 's \<Rightarrow> ('s \<times> ('e + 'v)) option" where
  "run_group workers cap check wr sched msgs ending v s =
     map_option group_result (run_pool cap check wr sched (pool_start (nat workers) (hd msgs) (tl msgs) ending v s))"

section \<open>What a run without error has done\<close>

text \<open>The receiver on its own: the messages it accepts, and what it has seen or why it stops.\<close>

fun accepted_msgs :: "('r \<Rightarrow> 'v \<Rightarrow> 'e + 'v) \<Rightarrow> 'r list \<Rightarrow> 'v \<Rightarrow> 'r list \<times> ('e + 'v)" where
  "accepted_msgs check [] v = ([], Inr v)"
| "accepted_msgs check (r # rs) v =
     (case check r v of
        Inl e \<Rightarrow> ([], Inl e)
      | Inr v' \<Rightarrow> (case accepted_msgs check rs v' of (ms, x) \<Rightarrow> (r # ms, x)))"

lemma accepted_snoc: "accepted_msgs check xs v = (xs, Inr w) \<Longrightarrow> check r w = Inr w' \<Longrightarrow> accepted_msgs check (xs @ [r]) v = (xs @ [r], Inr w')"
  by (induction xs arbitrary: v) (auto split: sum.splits prod.splits)

lemma accepted_member: "accepted_msgs check (xs @ r # ys) v = (xs @ r # ys, y) \<Longrightarrow> accepted_msgs check xs v = (xs, Inr w) \<Longrightarrow> \<exists>w'. check r w = Inr w'"
  by (induction xs arbitrary: v) (auto split: sum.splits prod.splits)

definition pending :: "('r, 'v, 's, 'e) pool \<Rightarrow> 'r multiset" where
  "pending p = mset (pl_source p) + (case pl_held p of None \<Rightarrow> {#} | Some r \<Rightarrow> {#r#}) + mset (pl_chan p) + busy (pl_workers p)"

text \<open>
  As long as no error is known, the messages written so far, in the order of their writing, account for the
  state of the workers, and together with the pending ones they are the messages of the stream; what the
  receiver has seen comes from the messages it has sent.
\<close>

definition accounts :: "('r \<Rightarrow> ('s, 'e, unit) sem) \<Rightarrow> 's \<Rightarrow> 'r list \<Rightarrow> ('r, 'v, 's, 'e) pool \<Rightarrow> bool" where
  "accounts wr s0 msgs p \<longleftrightarrow> pl_err p = None \<longrightarrow>
     (\<exists>done. foldM (\<lambda>r _. wr r) done () s0 = (pl_state p, Inr ()) \<and> mset done + pending p = mset msgs)"

definition heard :: "('r \<Rightarrow> 'v \<Rightarrow> 'e + 'v) \<Rightarrow> 'v \<Rightarrow> 'r list \<Rightarrow> ('r, 'v, 's, 'e) pool \<Rightarrow> bool" where
  "heard check v0 msgs p \<longleftrightarrow> pl_err p = None \<longrightarrow>
     (\<exists>sent. msgs = sent @ (case pl_held p of None \<Rightarrow> [] | Some r \<Rightarrow> [r]) @ pl_source p \<and>
       accepted_msgs check sent v0 = (sent, Inr (pl_seen p)))"

lemma foldM_snoc: "foldM f (xs @ [x]) a = andThen (foldM f xs a) (f x)"
  by (induction xs arbitrary: a) (auto simp: andThen_def fun_eq_iff split: prod.splits sum.splits)

lemma pool_finish_accounts:
  assumes i: "i < length (pl_workers p)" "pl_workers p ! i = Some r" and acc: "accounts wr s0 msgs p" "pl_err p = None" and w: "wr r (pl_state p) = (s, Inr ())"
  shows "accounts wr s0 msgs (write_done i (wr r (pl_state p)) p)"
proof -
  obtain dn where dn: "foldM (\<lambda>r _. wr r) dn () s0 = (pl_state p, Inr ())" "mset dn + pending p = mset msgs"
    using acc by (auto simp: accounts_def)
  have "foldM (\<lambda>r _. wr r) (dn @ [r]) () s0 = (s, Inr ())" using dn(1) w by (simp add: foldM_snoc andThen_def)
  moreover have "mset (dn @ [r]) + pending (write_done i (s, Inr ()) p) = mset msgs"
    using dn(2) busy_done[OF i] by (simp add: pending_def write_done_def)
  ultimately show ?thesis using w unfolding accounts_def by (intro impI exI[of _ "dn @ [r]"]) (simp add: write_done_def)
qed

lemma pool_step_accounts: "pool_step cap check wr p q \<Longrightarrow> accounts wr s0 msgs p \<Longrightarrow> accounts wr s0 msgs q"
proof (induction rule: pool_step.induct)
  case (finish i p r)
  show ?case
  proof (cases "pl_err p = None \<and> \<not> isl (snd (wr r (pl_state p)))")
    case True
    then have "wr r (pl_state p) = (fst (wr r (pl_state p)), Inr ())" by (metis (full_types) isl_def old.unit.exhaust prod.collapse sum.collapse(2))
    then show ?thesis using pool_finish_accounts finish True by metis
  next
    case False
    then show ?thesis by (auto simp: accounts_def write_done_def isl_def split: prod.splits sum.splits)
  qed
next
  case (take i p)
  then obtain r rs where "pl_chan p = r # rs" by (cases "pl_chan p") auto
  then show ?case using take by (simp add: accounts_def pending_def take_next_def)
qed (auto simp: accounts_def pending_def pool_effects split: list.splits)

lemma pool_step_heard: "pool_step cap check wr p q \<Longrightarrow> heard check v0 msgs p \<Longrightarrow> heard check v0 msgs q"
proof (induction rule: pool_step.induct)
  case (send p r v)
  show ?case unfolding heard_def
  proof
    assume "pl_err (send_held r v p) = None"
    then have "pl_err p = None" by (auto simp: pool_effects split: list.splits)
    then obtain sent where "msgs = sent @ r # pl_source p" "accepted_msgs check sent v0 = (sent, Inr (pl_seen p))"
      using send by (auto simp: heard_def)
    then show "\<exists>sent. msgs = sent @ (case pl_held (send_held r v p) of None \<Rightarrow> [] | Some r \<Rightarrow> [r]) @ pl_source (send_held r v p) \<and>
        accepted_msgs check sent v0 = (sent, Inr (pl_seen (send_held r v p)))"
      using accepted_snoc[of check sent v0 "pl_seen p" r v] send(2) by (intro exI[of _ "sent @ [r]"]) (auto simp: pool_effects split: list.splits)
  qed
qed (auto simp: heard_def pool_effects split: prod.splits sum.splits)

lemma pool_start_accounts: "accounts wr s0 (r # rs) (pool_start n r rs ending v s0)"
  unfolding accounts_def by (intro impI exI[of _ "[]"]) (simp add: pool_start_def pending_def)

lemma pool_start_heard: "heard check v (r # rs) (pool_start n r rs ending v s0)"
  by (simp add: heard_def pool_start_def)

lemma pool_step_end: "pool_step cap check wr p q \<Longrightarrow> pl_end q = pl_end p"
  by (induction rule: pool_step.induct) (auto simp: pool_effects split: list.splits prod.splits sum.splits)

text \<open>No worker leaves with messages in the channel as long as there is no error.\<close>

definition drained :: "('r, 'v, 's, 'e) pool \<Rightarrow> bool" where
  "drained p \<longleftrightarrow> pl_err p = None \<and> pl_workers p = [] \<longrightarrow> pl_chan p = [] \<and> pl_closed p"

lemma pool_step_drained: "pool_step cap check wr p q \<Longrightarrow> pool_ok p \<Longrightarrow> drained p \<Longrightarrow> drained q"
  by (induction rule: pool_step.induct)
     (auto simp: drained_def pool_ok_def pool_effects without_worker_def split: list.splits prod.splits sum.splits)

text \<open>
  A run that has returned without an error has written every message of the stream exactly once, one after the
  other in some order, the receiver has accepted them all, and the stream has ended without an error.
\<close>

lemma pool_run_facts:
  assumes "(pool_step cap check wr)\<^sup>*\<^sup>* (pool_start n r rs ending v s0) p" and "0 < n"
  shows "pool_ok p" and "accounts wr s0 (r # rs) p" and "heard check v (r # rs) p" and "pl_end p = ending" and "drained p"
proof -
  have "pool_ok p \<and> accounts wr s0 (r # rs) p \<and> heard check v (r # rs) p \<and> pl_end p = ending \<and> drained p" using assms(1)
  proof (induction rule: rtranclp_induct)
    case base
    show ?case using pool_start_ok pool_start_accounts pool_start_heard assms(2) by (auto simp: pool_start_def drained_def)
  next
    case (step p q)
    then show ?case using pool_step_ok pool_step_accounts pool_step_heard pool_step_end pool_step_drained by metis
  qed
  then show "pool_ok p" "accounts wr s0 (r # rs) p" "heard check v (r # rs) p" "pl_end p = ending" "drained p" by auto
qed

theorem pool_complete:
  assumes run: "(pool_step cap check wr)\<^sup>*\<^sup>* (pool_start n r rs ending v s0) p" "0 < n" and p: "pool_done p" "pl_err p = None"
  shows "\<exists>order. mset order = mset (r # rs) \<and> foldM (\<lambda>r _. wr r) order () s0 = (pl_state p, Inr ())"
    and "accepted_msgs check (r # rs) v = (r # rs, Inr (pl_seen p))" and "ending = None"
proof -
  note facts = pool_run_facts[OF run]
  have src: "pl_source p = []" "ending = None" using facts(1,4) p by (auto simp: pool_ok_def pool_done_def)
  have "pl_chan p = []" using facts(5) p by (auto simp: drained_def pool_done_def)
  then have "pending p = {#}" using src p by (simp add: pending_def pool_done_def)
  then show "\<exists>order. mset order = mset (r # rs) \<and> foldM (\<lambda>r _. wr r) order () s0 = (pl_state p, Inr ())"
    using facts(2) p(2) by (auto simp: accounts_def)
  show "accepted_msgs check (r # rs) v = (r # rs, Inr (pl_seen p))" "ending = None"
    using facts(3) p src by (auto simp: heard_def pool_done_def)
qed

text \<open>If the messages can be written in every order, no run fails.\<close>

theorem pool_no_error:
  assumes run: "(pool_step cap check wr)\<^sup>*\<^sup>* (pool_start n r rs None v s0) p" "0 < n"
    and all: "\<And>order. mset order \<subseteq># mset (r # rs) \<Longrightarrow> \<exists>s. foldM (\<lambda>r _. wr r) order () s0 = (s, Inr ())"
    and ok: "fst (accepted_msgs check (r # rs) v) = r # rs"
  shows "pl_err p = None"
  using run(1)
proof (induction rule: rtranclp_induct)
  case base
  show ?case by (simp add: pool_start_def)
next
  case (step p q)
  note facts = pool_run_facts[OF step(1) run(2)]
  obtain dn where dn: "foldM (\<lambda>r _. wr r) dn () s0 = (pl_state p, Inr ())" "mset dn + pending p = mset (r # rs)"
    using facts(2) step(3) by (auto simp: accounts_def)
  obtain sent where sent: "r # rs = sent @ (case pl_held p of None \<Rightarrow> [] | Some r \<Rightarrow> [r]) @ pl_source p"
    "accepted_msgs check sent v = (sent, Inr (pl_seen p))" using facts(3) step(3) by (auto simp: heard_def)
  from step(2) show ?case
  proof (cases rule: pool_step.cases)
    case (refuse x e)
    then have "r # rs = sent @ x # pl_source p" using sent(1) by simp
    then show ?thesis using accepted_member[OF _ sent(2), of x "pl_source p"] ok refuse by (metis Inl_Inr_False prod.collapse)
  next
    case (finish i x)
    have "x \<in># pending p" using busy_done[OF finish(2,3)] by (simp add: pending_def)
    then have "mset (dn @ [x]) \<subseteq># mset (r # rs)" using dn(2) by (metis add_mset_add_single mset_append mset_single_iff_right mset.simps(1) mset.simps(2) mset_subset_eq_single subset_mset.add_left_mono)
    from all[OF this] obtain s where "wr x (pl_state p) = (s, Inr ())"
      using dn(1) by (auto simp: foldM_snoc andThen_def)
    then show ?thesis using finish step(3) by (simp add: write_done_def)
  qed (use step(3) facts(4) in \<open>auto simp: pool_effects split: list.splits\<close>)
qed

corollary run_group_success:
  assumes "0 < workers" and "0 < cap" and "msgs \<noteq> []"
    and "\<And>order. mset order \<subseteq># mset msgs \<Longrightarrow> \<exists>s. foldM (\<lambda>r _. wr r) order () s0 = (s, Inr ())"
    and "accepted_msgs check msgs v = (msgs, Inr w)"
  shows "\<exists>order s. mset order = mset msgs \<and> foldM (\<lambda>r _. wr r) order () s0 = (s, Inr ()) \<and>
    run_group workers cap check wr sched msgs None v s0 = Some (s, Inr w)"
proof -
  obtain r rs where msgs: "msgs = r # rs" using assms(3) by (cases msgs) auto
  let ?start = "pool_start (nat workers) r rs None v s0"
  have n: "0 < nat workers" using assms(1) by simp
  obtain p where p: "run_pool cap check wr sched ?start = Some p" using run_pool_ends[OF served_start[OF n] assms(2), of check wr sched] by blast
  from run_pool_runs[OF p] have run: "(pool_step cap check wr)\<^sup>*\<^sup>* ?start p" "pool_done p" by auto
  have err: "pl_err p = None" using pool_no_error[OF run(1) n] assms(4,5) msgs by auto
  from pool_complete[OF run(1) n run(2) err] show ?thesis using p err msgs assms(5)
    by (auto simp: run_group_def group_result_def)
qed

lemma run_group_runs:
  assumes "run_group workers cap check wr sched msgs ending v s = Some (s', x)"
  shows "\<exists>p. (pool_step cap check wr)\<^sup>*\<^sup>* (pool_start (nat workers) (hd msgs) (tl msgs) ending v s) p \<and> pool_done p \<and> pl_state p = s'"
  using assms run_pool_runs by (fastforce simp: run_group_def group_result_def)

section \<open>Invariants of the workers' state\<close>

locale pool_writer =
  fixes wr :: "'r \<Rightarrow> ('s, 'e, unit) sem" and I :: "'s \<Rightarrow> bool"
  assumes keeps: "I s \<Longrightarrow> I (fst (wr r s))"
begin

lemma step_keeps: "pool_step cap check wr p q \<Longrightarrow> I (pl_state p) \<Longrightarrow> I (pl_state q)"
proof (induction rule: pool_step.induct)
  case (finish i p r)
  then show ?case using keeps[of "pl_state p" r] by (auto simp: write_done_def split: prod.splits sum.splits)
qed (auto simp: pool_effects split: list.splits)

lemma run_keeps: "(pool_step cap check wr)\<^sup>*\<^sup>* p q \<Longrightarrow> I (pl_state p) \<Longrightarrow> I (pl_state q)"
  by (induction rule: rtranclp_induct) (auto intro: step_keeps)

lemma group_keeps: "run_group workers cap check wr sched msgs ending v s = Some (s', x) \<Longrightarrow> I s \<Longrightarrow> I s'"
  using run_keeps by (fastforce dest!: run_group_runs simp: pool_start_def)

end

end
