(* ===== verification/Upload.thy ===== *)
theory Upload
  imports Pool
begin

text \<open>
  The goroutines of \<open>Update\<close> in \<^verbatim>\<open>pkg/client/client.go\<close>: the caller queues the updates in a channel that has room for all of
  them and closes it; readers take updates, read the objects and pass them on through a bounded channel to a sender, which sends
  them to the service and ends the stream when it has sent as many as there are updates. The first error cancels the
  context of the group. What reading an update gives does not change while the group runs.
\<close>

section \<open>Steps\<close>

record ('u, 'b, 'e) upload =
  up_unqueued :: "'u list"
  up_queue :: "'u list"
  up_readers :: "'b option list"
  up_chan :: "'b list"
  up_sent :: "'b list"
  up_sending :: bool
  up_err :: "'e option"

definition queue_next :: "('u, 'b, 'e) upload \<Rightarrow> ('u, 'b, 'e) upload" where
  "queue_next p = p\<lparr>up_unqueued := tl (up_unqueued p), up_queue := up_queue p @ [hd (up_unqueued p)]\<rparr>"

definition read_next :: "('u \<Rightarrow> 'e + 'b) \<Rightarrow> nat \<Rightarrow> ('u, 'b, 'e) upload \<Rightarrow> ('u, 'b, 'e) upload" where
  "read_next rd i p =
     (case rd (hd (up_queue p)) of
        Inr ob \<Rightarrow> p\<lparr>up_queue := tl (up_queue p), up_readers := (up_readers p)[i := Some ob]\<rparr>
      | Inl e \<Rightarrow> p\<lparr>up_queue := tl (up_queue p), up_readers := without_worker i (up_readers p), up_err := first_error (up_err p) (Some e)\<rparr>)"

definition pass_on :: "nat \<Rightarrow> 'b \<Rightarrow> ('u, 'b, 'e) upload \<Rightarrow> ('u, 'b, 'e) upload" where
  "pass_on i ob p = p\<lparr>up_chan := up_chan p @ [ob], up_readers := (up_readers p)[i := None]\<rparr>"

definition reader_leaves :: "nat \<Rightarrow> ('u, 'b, 'e) upload \<Rightarrow> ('u, 'b, 'e) upload" where
  "reader_leaves i p = p\<lparr>up_readers := without_worker i (up_readers p)\<rparr>"

definition send_next :: "('u, 'b, 'e) upload \<Rightarrow> ('u, 'b, 'e) upload" where
  "send_next p = p\<lparr>up_chan := tl (up_chan p), up_sent := up_sent p @ [hd (up_chan p)]\<rparr>"

definition sender_returns :: "('u, 'b, 'e) upload \<Rightarrow> ('u, 'b, 'e) upload" where
  "sender_returns p = p\<lparr>up_sending := False\<rparr>"

inductive upload_step :: "nat \<Rightarrow> ('u \<Rightarrow> 'e + 'b) \<Rightarrow> nat \<Rightarrow> ('u, 'b, 'e) upload \<Rightarrow> ('u, 'b, 'e) upload \<Rightarrow> bool"
  for cap rd len where
  enqueue: "up_unqueued p \<noteq> [] \<Longrightarrow> upload_step cap rd len p (queue_next p)"
| read: "i < length (up_readers p) \<Longrightarrow> up_readers p ! i = None \<Longrightarrow> up_queue p \<noteq> [] \<Longrightarrow> upload_step cap rd len p (read_next rd i p)"
| pass: "i < length (up_readers p) \<Longrightarrow> up_readers p ! i = Some ob \<Longrightarrow> length (up_chan p) < cap \<Longrightarrow> upload_step cap rd len p (pass_on i ob p)"
| leave: "i < length (up_readers p) \<Longrightarrow> up_readers p ! i = None \<and> up_queue p = [] \<and> up_unqueued p = [] \<or> up_err p \<noteq> None \<Longrightarrow>
    upload_step cap rd len p (reader_leaves i p)"
| send: "up_sending p \<Longrightarrow> up_chan p \<noteq> [] \<Longrightarrow> length (up_sent p) \<noteq> len \<Longrightarrow> upload_step cap rd len p (send_next p)"
| finish: "up_sending p \<Longrightarrow> length (up_sent p) = len \<or> up_err p \<noteq> None \<Longrightarrow> upload_step cap rd len p (sender_returns p)"

definition upload_done :: "('u, 'b, 'e) upload \<Rightarrow> bool" where
  "upload_done p \<longleftrightarrow> up_unqueued p = [] \<and> up_readers p = [] \<and> \<not> up_sending p"

definition upload_start :: "nat \<Rightarrow> 'u list \<Rightarrow> ('u, 'b, 'e) upload" where
  "upload_start n us =
     \<lparr>up_unqueued = us, up_queue = [], up_readers = replicate n None, up_chan = [], up_sent = [], up_sending = True, up_err = None\<rparr>"

text \<open>The steps as a list.\<close>

definition reader_moves :: "nat \<Rightarrow> ('u \<Rightarrow> 'e + 'b) \<Rightarrow> ('u, 'b, 'e) upload \<Rightarrow> nat \<Rightarrow> ('u, 'b, 'e) upload list" where
  "reader_moves cap rd p i =
     (case up_readers p ! i of
        None \<Rightarrow> (if up_queue p \<noteq> [] then [read_next rd i p] else []) @
          (if up_queue p = [] \<and> up_unqueued p = [] \<or> up_err p \<noteq> None then [reader_leaves i p] else [])
      | Some ob \<Rightarrow> (if length (up_chan p) < cap then [pass_on i ob p] else []) @ (if up_err p \<noteq> None then [reader_leaves i p] else []))"

definition sender_moves :: "nat \<Rightarrow> ('u, 'b, 'e) upload \<Rightarrow> ('u, 'b, 'e) upload list" where
  "sender_moves len p =
     (if up_sending p then
        (if up_chan p \<noteq> [] \<and> length (up_sent p) \<noteq> len then [send_next p] else []) @
        (if length (up_sent p) = len \<or> up_err p \<noteq> None then [sender_returns p] else [])
      else [])"

definition upload_moves :: "nat \<Rightarrow> ('u \<Rightarrow> 'e + 'b) \<Rightarrow> nat \<Rightarrow> ('u, 'b, 'e) upload \<Rightarrow> ('u, 'b, 'e) upload list" where
  "upload_moves cap rd len p =
     (if up_unqueued p \<noteq> [] then [queue_next p] else []) @ sender_moves len p @
     concat (map (reader_moves cap rd p) [0..<length (up_readers p)])"

lemma upload_moves_step: "q \<in> set (upload_moves cap rd len p) \<longleftrightarrow> upload_step cap rd len p q"
proof
  assume "q \<in> set (upload_moves cap rd len p)"
  then consider "up_unqueued p \<noteq> []" "q = queue_next p" | "q \<in> set (sender_moves len p)"
    | i where "i < length (up_readers p)" "q \<in> set (reader_moves cap rd p i)" by (auto simp: upload_moves_def split: if_splits)
  then show "upload_step cap rd len p q"
  proof cases
    case 3
    then show ?thesis using upload_step.read[OF 3(1)] upload_step.pass[OF 3(1)] upload_step.leave[OF 3(1)]
      by (cases "up_readers p ! i") (auto simp: reader_moves_def split: if_splits)
  qed (auto simp: sender_moves_def intro: upload_step.intros split: if_splits)
next
  have reader: "q \<in> set (reader_moves cap rd p i) \<Longrightarrow> i < length (up_readers p) \<Longrightarrow> q \<in> set (upload_moves cap rd len p)" for i
    by (auto simp: upload_moves_def)
  assume "upload_step cap rd len p q"
  then show "q \<in> set (upload_moves cap rd len p)"
  proof (cases rule: upload_step.cases)
    case (read i)
    then show ?thesis using reader[of i] by (simp add: reader_moves_def)
  next
    case (pass i ob)
    then show ?thesis using reader[of i] by (simp add: reader_moves_def)
  next
    case (leave i)
    then show ?thesis using reader[of i] by (cases "up_readers p ! i") (auto simp: reader_moves_def)
  qed (auto simp: upload_moves_def sender_moves_def)
qed

section \<open>Every run ends\<close>

definition upload_left :: "('u, 'b, 'e) upload \<Rightarrow> nat" where
  "upload_left p = 5 * length (up_unqueued p) + 4 * length (up_queue p) + 3 * size (busy (up_readers p)) + length (up_readers p) +
     2 * length (up_chan p) + (if up_sending p then 1 else 0)"

lemmas upload_effects = queue_next_def read_next_def pass_on_def reader_leaves_def send_next_def sender_returns_def

lemma size_busy_done: "i < length ws \<Longrightarrow> ws ! i = Some r \<Longrightarrow> size (busy ws) = Suc (size (busy (ws[i := None])))"
  using busy_done by fastforce

lemma size_busy_removed: "i < length ws \<Longrightarrow> size (busy (ws[i := None])) \<le> size (busy ws)"
  using size_busy_done busy_idle by (cases "ws ! i") fastforce+

lemma upload_step_left: "upload_step cap rd len p q \<Longrightarrow> upload_left q < upload_left p"
proof (induction rule: upload_step.induct)
  case (read i p)
  then obtain u us where "up_queue p = u # us" by (cases "up_queue p") auto
  then show ?case using read by (cases "rd (hd (up_queue p))") (simp_all add: upload_left_def read_next_def)
next
  case (pass i p ob)
  then show ?case using size_busy_done[OF pass(1,2)] by (simp add: upload_left_def pass_on_def)
next
  case (leave i p)
  then show ?case using size_busy_removed[OF leave(1)] by (simp add: upload_left_def reader_leaves_def)
qed (auto simp: upload_left_def upload_effects neq_Nil_conv)

function run_upload :: "nat \<Rightarrow> ('u \<Rightarrow> 'e + 'b) \<Rightarrow> nat \<Rightarrow> (nat \<Rightarrow> nat) \<Rightarrow> ('u, 'b, 'e) upload \<Rightarrow> ('u, 'b, 'e) upload option" where
  "run_upload cap rd len sched p =
     (if upload_done p then Some p
      else if upload_moves cap rd len p = [] then None
      else run_upload cap rd len sched
             (upload_moves cap rd len p ! (sched (upload_left p) mod length (upload_moves cap rd len p))))"
  by pat_completeness auto

lemma upload_pick:
  "upload_moves cap rd len p \<noteq> [] \<Longrightarrow> upload_step cap rd len p (upload_moves cap rd len p ! (k mod length (upload_moves cap rd len p)))"
  by (metis length_greater_0_conv mod_less_divisor nth_mem upload_moves_step)

termination run_upload
  by (relation "measure (\<lambda>(_, _, _, _, p). upload_left p)") (auto intro: upload_step_left upload_pick)

declare run_upload.simps [simp del]

lemma run_upload_runs: "run_upload cap rd len sched p = Some q \<Longrightarrow> (upload_step cap rd len)\<^sup>*\<^sup>* p q \<and> upload_done q"
proof (induction cap rd len sched p rule: run_upload.induct)
  case (1 cap rd len sched p)
  show ?case
  proof (cases "upload_done p")
    case True
    then show ?thesis using 1(2) by (simp add: run_upload.simps)
  next
    case False
    then have moves: "upload_moves cap rd len p \<noteq> []" using 1(2) by (auto simp: run_upload.simps[of cap rd len sched p] split: if_splits)
    then show ?thesis using 1(1)[OF False moves] 1(2) False upload_pick[OF moves, of "sched (upload_left p)"]
      by (auto simp: run_upload.simps[of cap rd len sched p] intro: converse_rtranclp_into_rtranclp)
  qed
qed

section \<open>What a run does\<close>

text \<open>
  As long as there is no error, every update is accounted for exactly once: it is not read yet, or its object is with a reader, in
  the channel or sent. The readers stay while there is something to read. An error is that of reading an update.
\<close>

definition tally :: "('u \<Rightarrow> 'e + 'b) \<Rightarrow> 'u list \<Rightarrow> ('u, 'b, 'e) upload \<Rightarrow> bool" where
  "tally rd us p \<longleftrightarrow> up_err p = None \<longrightarrow>
     image_mset rd (mset us) = image_mset rd (mset (up_unqueued p @ up_queue p)) + image_mset Inr (busy (up_readers p) + mset (up_chan p @ up_sent p))"

definition attended :: "'u list \<Rightarrow> ('u, 'b, 'e) upload \<Rightarrow> bool" where
  "attended us p \<longleftrightarrow> up_err p = None \<longrightarrow>
     (up_readers p = [] \<longrightarrow> up_unqueued p = [] \<and> up_queue p = []) \<and> (\<not> up_sending p \<longrightarrow> length (up_sent p) = length us)"

definition blamed :: "('u \<Rightarrow> 'e + 'b) \<Rightarrow> 'u list \<Rightarrow> ('u, 'b, 'e) upload \<Rightarrow> bool" where
  "blamed rd us p \<longleftrightarrow> set (up_unqueued p @ up_queue p) \<subseteq> set us \<and> (\<forall>e. up_err p = Some e \<longrightarrow> (\<exists>u \<in> set us. rd u = Inl e))"

lemma upload_step_tally: "upload_step cap rd len p q \<Longrightarrow> tally rd us p \<Longrightarrow> tally rd us q"
proof (induction rule: upload_step.induct)
  case (read i p)
  then obtain v vs where "up_queue p = v # vs" by (cases "up_queue p") auto
  then show ?case using read by (cases "rd v") (simp_all add: tally_def read_next_def)
next
  case (pass i p ob)
  then show ?case using busy_done[OF pass(1,2)] by (simp add: tally_def pass_on_def)
next
  case (leave i p)
  then show ?case by (auto simp: tally_def reader_leaves_def)
qed (auto simp: tally_def upload_effects neq_Nil_conv)

lemma upload_step_attended: "upload_step cap rd (length us) p q \<Longrightarrow> attended us p \<Longrightarrow> tally rd us p \<Longrightarrow> attended us q"
proof (induction rule: upload_step.induct)
  case (read i p)
  then show ?case by (cases "rd (hd (up_queue p))") (auto simp: attended_def read_next_def)
next
  case (send p)
  then show ?case by (auto simp: attended_def send_next_def)
qed (auto simp: attended_def upload_effects without_worker_def)

lemma upload_step_blamed: "upload_step cap rd len p q \<Longrightarrow> blamed rd us p \<Longrightarrow> blamed rd us q"
proof (induction rule: upload_step.induct)
  case (read i p)
  then obtain v vs where "up_queue p = v # vs" by (cases "up_queue p") auto
  then show ?case using read by (cases "rd v") (auto simp: blamed_def read_next_def first_error_def split: option.splits)
qed (auto simp: blamed_def upload_effects neq_Nil_conv)

definition uploading :: "('u \<Rightarrow> 'e + 'b) \<Rightarrow> 'u list \<Rightarrow> ('u, 'b, 'e) upload \<Rightarrow> bool" where
  "uploading rd us p \<longleftrightarrow> tally rd us p \<and> attended us p \<and> blamed rd us p"

lemma uploading_step: "upload_step cap rd (length us) p q \<Longrightarrow> uploading rd us p \<Longrightarrow> uploading rd us q"
  using upload_step_tally upload_step_attended upload_step_blamed unfolding uploading_def by blast

lemma uploading_run: "(upload_step cap rd (length us))\<^sup>*\<^sup>* p q \<Longrightarrow> uploading rd us p \<Longrightarrow> uploading rd us q"
  by (induction rule: rtranclp_induct) (auto intro: uploading_step)

lemma uploading_start: "0 < n \<Longrightarrow> uploading rd us (upload_start n us)"
  by (simp add: uploading_def tally_def attended_def blamed_def upload_start_def)

lemma tally_length:
  assumes "tally rd us p" and "up_err p = None"
  shows "length us = length (up_unqueued p) + length (up_queue p) + size (busy (up_readers p)) + length (up_chan p) + length (up_sent p)"
proof -
  have "size (image_mset rd (mset us)) = size (image_mset rd (mset (up_unqueued p @ up_queue p)) + image_mset Inr (busy (up_readers p) + mset (up_chan p @ up_sent p)))"
    using assms unfolding tally_def by metis
  then show ?thesis by simp
qed

lemma upload_progress:
  assumes "uploading rd us p" and "0 < cap" and "\<not> upload_done p"
  shows "upload_moves cap rd (length us) p \<noteq> []"
proof -
  have u: "tally rd us p" "attended us p" using assms(1) by (simp_all add: uploading_def)
  have "\<exists>q. upload_step cap rd (length us) p q"
  proof (cases "up_unqueued p \<noteq> [] \<or> up_err p \<noteq> None \<or> up_readers p \<noteq> [] \<and> (\<exists>i < length (up_readers p). up_readers p ! i = None)")
    case True
    then show ?thesis
    proof (elim disjE conjE exE)
      assume "up_err p \<noteq> None"
      moreover from assms(3) have "up_unqueued p \<noteq> [] \<or> 0 < length (up_readers p) \<or> up_sending p" by (auto simp: upload_done_def)
      ultimately show ?thesis using upload_step.leave[of 0 p] upload_step.finish[of p] upload_step.enqueue[of p] by blast
    next
      fix i assume "i < length (up_readers p)" "up_readers p ! i = None"
      then show ?thesis using upload_step.leave[of i p] upload_step.read[of i p] upload_step.enqueue[of p] by blast
    qed (use upload_step.enqueue[of p] in blast)
  next
    case False
    then have f: "up_unqueued p = []" "up_err p = None" and busy: "\<forall>i < length (up_readers p). up_readers p ! i \<noteq> None" by auto
    note len = tally_length[OF u(1) f(2)]
    show ?thesis
    proof (cases "up_readers p = []")
      case True
      then have "up_queue p = []" "up_sending p" using u(2) f assms(3) by (auto simp: attended_def upload_done_def)
      moreover have "up_chan p = [] \<longleftrightarrow> length (up_sent p) = length us" using len True f(1) calculation by simp
      ultimately show ?thesis using upload_step.send[of p] upload_step.finish[of p] by blast
    next
      case ne: False
      then obtain ob where ob: "up_readers p ! 0 = Some ob" using busy by fastforce
      have "0 < size (busy (up_readers p))" using size_busy_done[OF _ ob] ne by simp
      then have less: "length (up_sent p) < length us" using len by simp
      then have sending: "up_sending p" using u(2) f(2) by (auto simp: attended_def)
      show ?thesis
      proof (cases "length (up_chan p) < cap")
        case True
        then show ?thesis using upload_step.pass[of 0 p] ob ne by blast
      next
        case False
        then have "up_chan p \<noteq> []" "length (up_sent p) \<noteq> length us" using less assms(2) by auto
        then show ?thesis using upload_step.send[of p] sending by blast
      qed
    qed
  qed
  then show ?thesis using upload_moves_step[of _ cap rd "length us" p] by auto
qed

lemma run_upload_ends: "uploading rd us p \<Longrightarrow> 0 < cap \<Longrightarrow> len = length us \<Longrightarrow> \<exists>q. run_upload cap rd len sched p = Some q"
proof (induction cap rd len sched p rule: run_upload.induct)
  case (1 cap rd len sched p)
  show ?case
  proof (cases "upload_done p")
    case True
    then show ?thesis by (simp add: run_upload.simps)
  next
    case False
    then have moves: "upload_moves cap rd len p \<noteq> []" using upload_progress[OF 1(2,3)] 1(4) by blast
    have "upload_step cap rd (length us) p (upload_moves cap rd len p ! (sched (upload_left p) mod length (upload_moves cap rd len p)))"
      using upload_pick[OF moves] 1(4) by simp
    from 1(1)[OF False moves uploading_step[OF this 1(2)] 1(3,4)] show ?thesis using False moves
      by (simp add: run_upload.simps[of cap rd len sched p])
  qed
qed

text \<open>The result of the group: the first error, or the objects in the order in which they were sent.\<close>

definition upload_result :: "('u, 'b, 'e) upload \<Rightarrow> 'e + 'b list" where
  "upload_result p = (case up_err p of Some e \<Rightarrow> Inl e | None \<Rightarrow> Inr (up_sent p))"

definition run_readers :: "int \<Rightarrow> nat \<Rightarrow> ('u \<Rightarrow> 'e + 'b) \<Rightarrow> (nat \<Rightarrow> nat) \<Rightarrow> 'u list \<Rightarrow> ('e + 'b list) option" where
  "run_readers workers cap rd sched us =
     map_option upload_result (run_upload cap rd (length us) sched (upload_start (nat workers) us))"

text \<open>
  With a reader, the group returns. It has sent the object of every update exactly once, in some order, or it returns the error of an
  update that cannot be read; which of them, the scheduling decides.
\<close>

theorem run_readers_result:
  assumes "0 < workers" and "0 < cap"
  shows "\<exists>r. run_readers workers cap rd sched us = Some r \<and>
    (case r of Inr obs \<Rightarrow> mset (map Inr obs) = mset (map rd us) | Inl e \<Rightarrow> \<exists>u \<in> set us. rd u = Inl e)"
proof -
  have start: "uploading rd us (upload_start (nat workers) us)" by (rule uploading_start) (use assms(1) in simp)
  obtain p where p: "run_upload cap rd (length us) sched (upload_start (nat workers) us) = Some p" using run_upload_ends[OF start assms(2) refl] by blast
  from run_upload_runs[OF p] have run: "(upload_step cap rd (length us))\<^sup>*\<^sup>* (upload_start (nat workers) us) p" and fin: "upload_done p" by auto
  from uploading_run[OF run start] have u: "tally rd us p" "attended us p" "blamed rd us p" by (auto simp: uploading_def)
  have "mset (map Inr (up_sent p)) = mset (map rd us)" if e: "up_err p = None"
  proof -
    have "length (up_sent p) = length us" using u(2) e fin by (auto simp: attended_def upload_done_def)
    then have "up_unqueued p = []" "up_queue p = []" "busy (up_readers p) = {#}" "up_chan p = []" using tally_length[OF u(1) e] by auto
    then show ?thesis using u(1) e by (simp add: tally_def)
  qed
  then show ?thesis using p u(3) by (auto simp: run_readers_def upload_result_def blamed_def split: option.splits)
qed

corollary run_readers_all:
  assumes "0 < workers" and "0 < cap" and "\<And>u. u \<in> set us \<Longrightarrow> rd u = Inr (f u)"
  shows "\<exists>obs. run_readers workers cap rd sched us = Some (Inr obs) \<and> mset obs = mset (map f us)"
proof -
  obtain r where r: "run_readers workers cap rd sched us = Some r"
    "case r of Inr obs \<Rightarrow> mset (map Inr obs) = mset (map rd us) | Inl e \<Rightarrow> \<exists>u \<in> set us. rd u = Inl e"
    using run_readers_result[OF assms(1,2)] by blast
  obtain obs where obs: "r = Inr obs" using r(2) assms(3) by (cases r) auto
  have "mset (map rd us) = mset (map Inr (map f us))" using assms(3) by (metis (mono_tags, lifting) list.map_comp comp_apply map_cong)
  then have "image_mset Inr (mset obs) = image_mset (Inr :: _ \<Rightarrow> 'b + 'c) (mset (map f us))" using r(2) obs by (simp add: multiset.map_comp comp_def)
  then have "mset obs = mset (map f us)" by (rule injD[OF multiset.inj_map[OF inj_Inr]])
  then show ?thesis using r(1) obs by blast
qed

lemma run_readers_returns: "0 < workers \<Longrightarrow> 0 < cap \<Longrightarrow> \<exists>r. run_readers workers cap rd sched us = Some r"
  using run_readers_result by blast

text \<open>An error comes from an update, whatever the number of readers.\<close>

lemma run_readers_error:
  assumes "run_readers workers cap rd sched us = Some (Inl e)"
  shows "\<exists>u \<in> set us. rd u = Inl e"
proof -
  obtain p where p: "run_upload cap rd (length us) sched (upload_start (nat workers) us) = Some p" "up_err p = Some e"
    using assms by (auto simp: run_readers_def upload_result_def split: option.splits)
  have "blamed rd us q" if "(upload_step cap rd (length us))\<^sup>*\<^sup>* (upload_start (nat workers) us) q" for q
    using that
  proof (induction rule: rtranclp_induct)
    case base
    show ?case by (simp add: blamed_def upload_start_def)
  qed (auto intro: upload_step_blamed)
  then show ?thesis using run_upload_runs[OF p(1)] p(2) by (auto simp: blamed_def)
qed

end
