(* ===== verification/Client.thy ===== *)
theory Client
  imports LocalDir Upload Handlers
begin

text \<open>
  \<^verbatim>\<open>pkg/client/client.go\<close>: the calls of the client, on the local disk and a remote service. The generated gRPC
  client \<^verbatim>\<open>pb.FsClient\<close> is a parameter: each of its methods takes the state of the remote side and returns it
  with a status, or with a stream of messages and the status at its end. The goroutines of \<open>Rebuild\<close> and \<open>GetCache\<close> are the pools
  of \<^verbatim>\<open>Pool\<close>, those of \<open>Update\<close> the readers and the sender of \<^verbatim>\<open>Upload\<close>; the scheduler that interleaves them is a parameter too. A
  call that never returns is \<open>None\<close>.
\<close>

section \<open>The remote service and the environment\<close>

record GetCompressResponse =
  rc_Version :: int
  rc_Bytes :: bytes
  rc_PackPath :: "string option"

record GetCacheResponse =
  rk_Version :: int
  rk_Hash :: bytes
  rk_Bytes :: bytes

type_synonym 'm stream = "'m list \<times> code option"

record 'w FsClient =
  pb_NewProject :: "NewProjectRequest \<Rightarrow> 'w \<Rightarrow> 'w \<times> (code + unit)"
  pb_DeleteProject :: "int \<Rightarrow> 'w \<Rightarrow> 'w \<times> (code + unit)"
  pb_ListProjects :: "'w \<Rightarrow> 'w \<times> (code + (int \<times> int) list)"
  pb_Get :: "GetRequest \<Rightarrow> 'w \<Rightarrow> 'w \<times> (code + pb_object stream)"
  pb_GetCompress :: "GetRequest \<Rightarrow> 'w \<Rightarrow> 'w \<times> (code + GetCompressResponse stream)"
  pb_Update :: "(int \<times> pb_object) list \<Rightarrow> 'w \<Rightarrow> 'w \<times> (code + int)"
  pb_Inspect :: "int \<Rightarrow> 'w \<Rightarrow> 'w \<times> (code + InspectResponse)"
  pb_Snapshot :: "'w \<Rightarrow> 'w \<times> (code + (int \<times> int) list)"
  pb_Reset :: "(int \<times> int) list \<Rightarrow> 'w \<Rightarrow> 'w \<times> (code + unit)"
  pb_GetCache :: "'w \<Rightarrow> 'w \<times> (code + GetCacheResponse stream)"
  pb_GcProject :: "int \<Rightarrow> int \<Rightarrow> int option \<Rightarrow> 'w \<Rightarrow> 'w \<times> (code + int)"
  pb_GcRandomProjects :: "32 word \<Rightarrow> int \<Rightarrow> int option \<Rightarrow> 'w \<Rightarrow> 'w \<times> (code + int)"
  pb_GcContents :: "32 word \<Rightarrow> 'w \<Rightarrow> 'w \<times> (code + int)"
  pb_CloneToProject :: "CloneToProjectRequest \<Rightarrow> 'w \<Rightarrow> 'w \<times> (code + int)"

record 'w Client =
  cl_fs :: "'w FsClient"
  cl_host :: host
  cl_lib :: lib
  cl_Getenv :: "string \<Rightarrow> string"
  cl_cwd :: path
  cl_sched :: "nat \<Rightarrow> nat"

record 'w world =
  w_disk :: disk
  w_remote :: 'w

type_synonym ('w, 'a) call = "('w world, client_error, 'a) sem"

definition remote :: "('w \<Rightarrow> 'w \<times> (code + 'a)) \<Rightarrow> ('w, 'a) call" where
  "remote f w =
     (case f (w_remote w) of
        (x, Inl c) \<Rightarrow> (w\<lparr>w_remote := x\<rparr>, Inl (Rpc c))
      | (x, Inr a) \<Rightarrow> (w\<lparr>w_remote := x\<rparr>, Inr a))"

definition local_call :: "'a cio \<Rightarrow> ('w, 'a) call" where
  "local_call m w = (case m (w_disk w) of (d, r) \<Rightarrow> (w\<lparr>w_disk := d\<rparr>, r))"

section \<open>Calls that only pass on a request\<close>

definition client_ListProjects :: "'w Client \<Rightarrow> ('w, (int \<times> int) list) call" where
  "client_ListProjects C = remote (pb_ListProjects (cl_fs C))"

definition client_NewProject :: "'w Client \<Rightarrow> int \<Rightarrow> int option \<Rightarrow> string option \<Rightarrow> ('w, unit) call" where
  "client_NewProject C i template packPatternsString =
     (let packPatterns = (case packPatternsString of
            None \<Rightarrow> []
          | Some s \<Rightarrow> if s = [] then [] else Split s CHR '','') in
      remote (pb_NewProject (cl_fs C) \<lparr>np_Id = i, np_Template = template, np_PackPatterns = packPatterns\<rparr>))"

definition client_DeleteProject :: "'w Client \<Rightarrow> int \<Rightarrow> ('w, unit) call" where
  "client_DeleteProject C project = remote (pb_DeleteProject (cl_fs C) project)"

definition client_Get :: "'w Client \<Rightarrow> int \<Rightarrow> string \<Rightarrow> string list \<Rightarrow> int option \<Rightarrow> int option \<Rightarrow> ('w, pb_object list) call" where
  "client_Get C project pfx ignores from to =
     andThen (remote (pb_Get (cl_fs C)
       \<lparr>g_Project = project, g_FromVersion = from, g_ToVersion = to,
        g_Queries = [\<lparr>q_Path = pfx, q_IsPrefix = True, q_Ignores = ignores\<rparr>], g_AvailableCacheVersions = []\<rparr>))
       (\<lambda>(obs, status). case status of None \<Rightarrow> ret obs | Some c \<Rightarrow> fail (Rpc c))"

definition client_Inspect :: "'w Client \<Rightarrow> int \<Rightarrow> ('w, InspectResponse) call" where
  "client_Inspect C project = remote (pb_Inspect (cl_fs C) project)"

definition client_GcProject :: "'w Client \<Rightarrow> int \<Rightarrow> int \<Rightarrow> int option \<Rightarrow> ('w, int) call" where
  "client_GcProject C project keep from = remote (pb_GcProject (cl_fs C) project keep from)"

text \<open>The sample rate, a \<^verbatim>\<open>float32\<close>, is passed on as its 32 bits.\<close>

definition client_GcRandomProjects :: "'w Client \<Rightarrow> 32 word \<Rightarrow> int \<Rightarrow> int option \<Rightarrow> ('w, int) call" where
  "client_GcRandomProjects C sample keep from = remote (pb_GcRandomProjects (cl_fs C) sample keep from)"

definition client_GcContents :: "'w Client \<Rightarrow> 32 word \<Rightarrow> ('w, int) call" where
  "client_GcContents C sample = remote (pb_GcContents (cl_fs C) sample)"

definition client_CloneToProject :: "'w Client \<Rightarrow> int \<Rightarrow> int \<Rightarrow> int \<Rightarrow> ('w, int) call" where
  "client_CloneToProject C source target version =
     remote (pb_CloneToProject (cl_fs C) \<lparr>cp_Source = source, cp_Version = version, cp_Target = target\<rparr>)"

section \<open>Snapshots as strings\<close>

definition project_state :: "int \<times> int \<Rightarrow> string" where
  "project_state p = FormatInt (fst p) @ ''='' @ FormatInt (snd p)"

definition client_Snapshot :: "'w Client \<Rightarrow> ('w, string) call" where
  "client_Snapshot C = andThen (remote (pb_Snapshot (cl_fs C))) (\<lambda>ps. ret (Join (map project_state ps) '',''))"

fun parse_projects :: "string list \<Rightarrow> client_error + (int \<times> int) list" where
  "parse_projects [] = Inr []"
| "parse_projects (projectSplit # rest) =
     (case Split projectSplit CHR ''='' of
        [p0, p1] \<Rightarrow>
          (case ParseInt p0 of
             None \<Rightarrow> Inl (InvalidStateInt p0)
           | Some project \<Rightarrow>
               (case ParseInt p1 of
                  None \<Rightarrow> Inl (InvalidStateInt p1)
                | Some version \<Rightarrow>
                    (case parse_projects rest of Inl e \<Rightarrow> Inl e | Inr ps \<Rightarrow> Inr ((project, version) # ps))))
      | _ \<Rightarrow> Inl (InvalidState projectSplit))"

definition client_Reset :: "'w Client \<Rightarrow> string \<Rightarrow> ('w, unit) call" where
  "client_Reset C state w =
     (case parse_projects (Split state CHR '','') of
        Inl e \<Rightarrow> (w, Inl e)
      | Inr ps \<Rightarrow> remote (pb_Reset (cl_fs C) ps) w)"

section \<open>The number of workers\<close>

definition parallelWorkerCount :: "'w Client \<Rightarrow> int" where
  "parallelWorkerCount C =
     (let envCount = cl_Getenv C ''DL_WRITE_WORKERS'';
          halfNumCPU = (let h = num_cpu (cl_host C) div 2 in if h < 1 then 1 else h) in
      if envCount \<noteq> [] then (case ParseInt envCount of Some n \<Rightarrow> n | None \<Rightarrow> halfNumCPU) else halfNumCPU)"

section \<open>Rebuild\<close>

record RebuildResult =
  rr_Version :: int
  rr_Count :: "32 word"
  rr_FileMatch :: bool

definition emptyResult :: "int \<Rightarrow> RebuildResult" where
  "emptyResult version = \<lparr>rr_Version = version, rr_Count = 0, rr_FileMatch = False\<rparr>"

text \<open>The tracker: the version belongs to the receiver, the count and the match to the workers.\<close>

record rebuildResultTracker =
  tk_disk :: disk
  tk_count :: "32 word"
  tk_match :: bool

definition newResultTracker :: "disk \<Rightarrow> rebuildResultTracker" where
  "newResultTracker d = \<lparr>tk_disk = d, tk_count = 0, tk_match = True\<rparr>"

definition checkVersion :: "GetCompressResponse \<Rightarrow> int \<Rightarrow> client_error + int" where
  "checkVersion response old =
     (let version = rc_Version response in
      if old \<noteq> version \<and> old \<noteq> 0 then Inl (VersionChanged old version) else Inr version)"

definition tracker_add :: "32 word \<Rightarrow> bool \<Rightarrow> rebuildResultTracker \<Rightarrow> rebuildResultTracker" where
  "tracker_add n match t =
     t\<lparr>tk_count := tk_count t + n, tk_match := (if n > 0 \<and> \<not> match then False else tk_match t)\<rparr>"

definition tracker_result :: "int \<Rightarrow> rebuildResultTracker \<Rightarrow> RebuildResult" where
  "tracker_result version t =
     \<lparr>rr_Version = version, rr_Count = tk_count t,
      rr_FileMatch = (if tk_count t = 0 then False else tk_match t)\<rparr>"

definition write_response :: "'w Client \<Rightarrow> path \<Rightarrow> path \<Rightarrow> FileMatcher option \<Rightarrow> GetCompressResponse \<Rightarrow>
    (rebuildResultTracker, client_error, unit) sem" where
  "write_response C dir cacheDir matcher response t =
     (case WriteTar (cl_host C) dir (CacheObjectsDir cacheDir) (FromBytes (cl_lib C) (rc_Bytes response))
             (rc_PackPath response) matcher (tk_disk t) of
        (d, Inl e) \<Rightarrow> (t\<lparr>tk_disk := d\<rparr>, Inl (Files e))
      | (d, Inr (n, match)) \<Rightarrow> (tracker_add n match (t\<lparr>tk_disk := d\<rparr>), Inr ()))"

definition finish_rebuild :: "'w Client \<Rightarrow> path \<Rightarrow> bool \<Rightarrow> RebuildResult \<Rightarrow> RebuildResult cio" where
  "finish_rebuild C dir summarize result =
     andThen (WriteVersionFile dir (rr_Version result)) (\<lambda>_.
     andThen (if summarize then andThen (DiffAndSummarize (cl_host C) dir) (\<lambda>_. ret ()) else ret ()) (\<lambda>_.
     ret result))"

definition rebuild_disk :: "'w Client \<Rightarrow> path \<Rightarrow> path \<Rightarrow> FileMatcher option \<Rightarrow> bool \<Rightarrow> GetCompressResponse list \<Rightarrow> code option \<Rightarrow>
    disk \<Rightarrow> (disk \<times> (client_error + RebuildResult)) option" where
  "rebuild_disk C dir cacheDir matcher summarize msgs status d =
     (case ensureMetadataDir dir d of
        (d1, Inl e) \<Rightarrow> Some (d1, Inl e)
      | (d1, Inr _) \<Rightarrow>
          (case run_group (parallelWorkerCount C) 32 checkVersion (write_response C dir cacheDir matcher) (cl_sched C)
                  msgs (map_option Rpc status) 0 (newResultTracker d1) of
             None \<Rightarrow> None
           | Some (t, Inl e) \<Rightarrow> Some (tk_disk t, Inl e)
           | Some (t, Inr version) \<Rightarrow> Some (finish_rebuild C dir summarize (tracker_result version t) (tk_disk t))))"

definition Rebuild :: "'w Client \<Rightarrow> int \<Rightarrow> string \<Rightarrow> int option \<Rightarrow> path \<Rightarrow> string list \<Rightarrow> path \<Rightarrow> FileMatcher option \<Rightarrow> bool \<Rightarrow>
    'w world \<Rightarrow> ('w world \<times> (client_error + RebuildResult)) option" where
  "Rebuild C project pfx toVersion dir ignores cacheDir matcher summarize w =
     (case ReadVersionFile dir (w_disk w) of
        Inl e \<Rightarrow> Some (w, Inl e)
      | Inr fromVersion \<Rightarrow>
          if toVersion = Some fromVersion then Some (w, Inr (emptyResult fromVersion))
          else
            (case remote (pb_GetCompress (cl_fs C)
                     \<lparr>g_Project = project, g_FromVersion = Some fromVersion, g_ToVersion = toVersion,
                      g_Queries = [\<lparr>q_Path = pfx, q_IsPrefix = True, q_Ignores = ignores\<rparr>],
                      g_AvailableCacheVersions = ReadCacheVersionFile cacheDir (w_disk w)\<rparr>) w of
               (w1, Inl e) \<Rightarrow> Some (w1, Inl e)
             | (w1, Inr (msgs, status)) \<Rightarrow>
                 if msgs = [] then
                   Some (w1, case status of None \<Rightarrow> Inr (emptyResult fromVersion) | Some c \<Rightarrow> Inl (Rpc c))
                 else
                   map_option (\<lambda>(d, r). (w1\<lparr>w_disk := d\<rparr>, r))
                     (rebuild_disk C dir cacheDir matcher summarize msgs status (w_disk w1))))"

section \<open>Update\<close>

definition read_update :: "path \<Rightarrow> disk \<Rightarrow> fsdiff_update \<Rightarrow> client_error + pb_object" where
  "read_update dir d u =
     (if u_Remove u then Inr \<lparr>Path = u_Path u, Mode = 0, Size = 0, Deleted = True, Content = None\<rparr>
      else ObjectFromFilePath dir (u_Path u) d)"

text \<open>
  The service sees the objects in the order in which they are sent. It is called when the stream is closed; a stream that
  ends with an error before has no effect on it.
\<close>

definition client_Update :: "'w Client \<Rightarrow> int \<Rightarrow> path \<Rightarrow> 'w world \<Rightarrow> ('w world \<times> (client_error + int \<times> 32 word)) option" where
  "client_Update C project dir w =
     (case ReadVersionFile dir (w_disk w) of
        Inl e \<Rightarrow> Some (w, Inl e)
      | Inr fromVersion \<Rightarrow>
          (case local_call (DiffAndSummarize (cl_host C) dir) w of
             (w1, Inl e) \<Rightarrow> Some (w1, Inl e)
           | (w1, Inr updates) \<Rightarrow>
               if updates = [] then Some (w1, Inr (fromVersion, 0))
               else
                 (case run_readers (parallelWorkerCount C) 32 (read_update dir (w_disk w1)) (cl_sched C) updates of
                    None \<Rightarrow> None
                  | Some (Inl e) \<Rightarrow> Some (w1, Inl e)
                  | Some (Inr obs) \<Rightarrow>
                      (case remote (pb_Update (cl_fs C) (map (Pair project) obs)) w1 of
                         (w2, Inl e) \<Rightarrow> Some (w2, Inl e)
                       | (w2, Inr toVersion) \<Rightarrow>
                           let updateCount = word_of_nat (length updates) in
                           if wrap64 (fromVersion + 1) = toVersion then
                             Some (andThen (local_call (WriteVersionFile dir toVersion)) (\<lambda>_. ret (toVersion, updateCount)) w2)
                           else
                             map_option (\<lambda>(w3, r). (w3, case r of Inl e \<Rightarrow> Inl e | Inr result \<Rightarrow> Inr (rr_Version result, updateCount)))
                               (Rebuild C project [] None dir [] (cl_cwd C) None True w2)))))"

section \<open>The local cache\<close>

definition lock_path :: "path \<Rightarrow> path" where
  "lock_path cacheRootDir = cacheRootDir @ [''.lock'']"

definition obtainCacheLockFile :: "path \<Rightarrow> unit cio" where
  "obtainCacheLockFile cacheRootDir = file_call (os_call (andThen (open_excl (lock_path cacheRootDir) 0x180) (\<lambda>_. ret ())))"

definition cleanupCacheLockFile :: "path \<Rightarrow> disk \<Rightarrow> disk" where
  "cleanupCacheLockFile cacheRootDir d = fst (Remove (lock_path cacheRootDir) d)"

text \<open>The receiver compares versions before it looks at the error: on an error there is no response.\<close>

definition sameCacheVersion :: "int \<Rightarrow> GetCacheResponse \<Rightarrow> unit \<Rightarrow> client_error + unit" where
  "sameCacheVersion version response u =
     (if rk_Version response \<noteq> version then Inl (VersionChanged (rk_Version response) version) else Inr ())"

definition write_cached :: "'w Client \<Rightarrow> path \<Rightarrow> GetCacheResponse \<Rightarrow> (disk \<times> 32 word, client_error, unit) sem" where
  "write_cached C cacheRootDir response s =
     (let hashHex = EncodeToString (rk_Hash response);
          tempDest = join_path (CacheTmpDir cacheRootDir) hashHex;
          finalDest = join_path (CacheObjectsDir cacheRootDir) hashHex in
      if fileExists finalDest (fst s) then (s, Inr ())
      else
        (case file_call (andThen (\<lambda>d. if fileExists tempDest d then os_call (RemoveAll tempDest) d else (d, Inr ())) (\<lambda>_.
              andThen (WriteTar (cl_host C) tempDest (CacheObjectsDir cacheRootDir) (FromBytes (cl_lib C) (rk_Bytes response)) None None) (\<lambda>res.
              andThen (os_call (Rename tempDest finalDest)) (\<lambda>_. ret res)))) (fst s) of
           (d, Inl e) \<Rightarrow> ((d, snd s), Inl e)
         | (d, Inr (n, match)) \<Rightarrow> ((d, snd s + n), Inr ())))"

definition fetch_cache :: "'w Client \<Rightarrow> path \<Rightarrow> 'w world \<Rightarrow> ('w world \<times> (client_error + int \<times> 32 word)) option" where
  "fetch_cache C cacheRootDir w =
     (case remote (pb_GetCache (cl_fs C)) w of
        (w1, Inl e) \<Rightarrow> Some (w1, Inl e)
      | (w1, Inr (msgs, status)) \<Rightarrow>
          if msgs = [] then Some (w1, case status of None \<Rightarrow> Inr (-1, 0) | Some c \<Rightarrow> Inl (Rpc c))
          else
            (let version = rk_Version (hd msgs) in
             case run_group (parallelWorkerCount C) 16 (sameCacheVersion version) (write_cached C cacheRootDir) (cl_sched C)
                    msgs (map_option (\<lambda>_. NilResponse) status) () (w_disk w1, 0) of
               None \<Rightarrow> None
             | Some ((d, n), Inl e) \<Rightarrow> Some (w1\<lparr>w_disk := d\<rparr>, Inl e)
             | Some ((d, n), Inr _) \<Rightarrow>
                 Some (andThen (local_call (file_call (os_call (append_file (cacheVersionPath cacheRootDir) (FormatInt version @ [CHR 0x0A]) 0x180))))
                   (\<lambda>_. ret (version, n)) (w1\<lparr>w_disk := d\<rparr>))))"

definition GetCache :: "'w Client \<Rightarrow> path \<Rightarrow> 'w world \<Rightarrow> ('w world \<times> (client_error + int \<times> 32 word)) option" where
  "GetCache C cacheRootDir w =
     (let objectDir = CacheObjectsDir cacheRootDir; tmpObjectDir = CacheTmpDir cacheRootDir;
          cleanup = (\<lambda>w. w\<lparr>w_disk := fst (RemoveAll tmpObjectDir (w_disk w))\<rparr>) in
      case local_call (file_call (andThen (os_call (MkdirAll objectDir 0x1ED)) (\<lambda>_ d.
             os_call (MkdirAll tmpObjectDir 0x1ED) (fst (RemoveAll tmpObjectDir d))))) w of
        (w1, Inl e) \<Rightarrow> Some (w1, Inl e)
      | (w1, Inr _) \<Rightarrow>
          (case local_call (obtainCacheLockFile cacheRootDir) w1 of
             (w2, Inl e) \<Rightarrow> Some (cleanup w2, Inl e)
           | (w2, Inr _) \<Rightarrow>
               map_option (\<lambda>(w3, r). (cleanup (w3\<lparr>w_disk := cleanupCacheLockFile cacheRootDir (w_disk w3)\<rparr>), r))
                 (fetch_cache C cacheRootDir w2)))"

end
