(* ===== verification/Rebuilds.thy ===== *)
theory Rebuilds
  imports Client
begin

text \<open>
  What \<open>Rebuild\<close> does to the local copy: whatever the order in which the workers write the archives, the files below the paths of
  the response are those of its archives, all others are as before, and the version file
  has the version of the response.
\<close>

section \<open>One response\<close>

definition entries_of :: "lib \<Rightarrow> GetCompressResponse \<Rightarrow> tar_entry list" where
  "entries_of L r = fst (tar_decode L (rc_Bytes r))"

definition owned :: "lib \<Rightarrow> path \<Rightarrow> GetCompressResponse \<Rightarrow> path list" where
  "owned L dir r =
     (case rc_PackPath r of
        Some pp \<Rightarrow> [dir @ name_path pp]
      | None \<Rightarrow> map (entry_path dir) (entries_of L r))"

definition outside_metadata :: "path \<Rightarrow> path \<Rightarrow> bool" where
  "outside_metadata dir p \<longleftrightarrow> strict_prefix dir p \<and> \<not> prefix (dir @ [metadataDir]) p"

definition applicable :: "lib \<Rightarrow> path \<Rightarrow> disk \<Rightarrow> GetCompressResponse \<Rightarrow> bool" where
  "applicable L dir d r \<longleftrightarrow> snd (tar_decode L (rc_Bytes r)) \<and> all_apart (map (entry_path dir) (entries_of L r)) \<and>
     list_all (outside_metadata dir) (owned L dir r) \<and>
     (case rc_PackPath r of
        Some pp \<Rightarrow> plain_name pp \<and> plain_path d (dir @ name_path pp) \<and> list_all (pack_entry (name_path pp)) (entries_of L r)
      | None \<Rightarrow> list_all (\<lambda>e. fits d (entry_path dir e) e) (entries_of L r))"

text \<open>A temporary directory can always be created.\<close>

definition fresh_names :: "host \<Rightarrow> path \<Rightarrow> bool" where
  "fresh_names H dir \<longleftrightarrow> (\<forall>d. \<exists>r \<in> set (temp_names H d). node_at d (dir @ [metadataDir, tmp_prefix @ r]) = None)"

lemma outside_metadata_iff: "outside_metadata dir p \<longleftrightarrow> (\<exists>c y. p = dir @ c # y \<and> c \<noteq> metadataDir)"
proof
  assume o: "outside_metadata dir p"
  then obtain z where z: "p = dir @ z" "z \<noteq> []" by (auto simp: outside_metadata_def strict_prefix_def prefix_def)
  then show "\<exists>c y. p = dir @ c # y \<and> c \<noteq> metadataDir" using o by (cases z) (auto simp: outside_metadata_def)
qed (auto simp: outside_metadata_def strict_prefix_def)

lemma apart_metadata: "outside_metadata dir p \<Longrightarrow> apart p (dir @ metadataDir # x)"
  by (auto simp: outside_metadata_iff apart_def)

lemma applicable_effect:
  assumes "applicable L dir d r" and "effect R ps T d d'" and "\<forall>p \<in> set ps. \<forall>q \<in> set (owned L dir r). apart p q"
  shows "applicable L dir d' r"
proof (cases "rc_PackPath r")
  case None
  then show ?thesis using assms effect_fits[OF assms(2)] by (auto simp: applicable_def owned_def list_all_iff)
next
  case (Some pp)
  then have "\<not> under ps (dir @ name_path pp)" using assms(3) by (intro apart_not_under) (simp add: owned_def)
  then show ?thesis using assms(1) Some effect_plain[OF assms(2)] by (auto simp: applicable_def)
qed

lemma effect_widen:
  assumes e: "effect R (map (entry_path dir) es) (archive_leaf dir es) d d'" and "\<forall>f \<in> set es. prefix q (entry_path dir f)"
    and none: "\<And>x. prefix q x \<Longrightarrow> node_at d x = None"
  shows "effect R [q] (archive_leaf dir es) d d'"
proof -
  have sub: "under (map (entry_path dir) es) x \<Longrightarrow> prefix q x" for x
    using assms(2) by (auto simp: under_iff dest: prefix_order.order_trans)
  have "leaf_at d' x = (if under [q] x then archive_leaf dir es x else leaf_at d x)" if "prefix R x" for x
    using effectD(4)[OF e that] sub[of x] none[of x] archive_leaf_not_under[of dir es x] by (auto simp: leaf_at_def)
  moreover have "\<forall>p \<in> set (map (entry_path dir) es). apart p x" if "apart q x" for x
    using assms(2) that unfolding apart_def by (auto dest: prefix_order.order_trans) (meson prefix_same_cases)
  moreover have "node_at d' x = node_at d x \<or> node_at d x = None \<and> is_dir_at d' x" if "\<not> under [q] x" for x
    using effectD(7)[OF e, of x] sub[of x] that by auto
  ultimately show ?thesis using effectD(1-3)[OF e] effectD(5,6)[OF e] unfolding effect_def by simp
qed

lemma WriteTar_effect:
  assumes a: "applicable L dir d r" and ok: "disk_ok d" "unshared dir d" and dl: "is_dir_at d (dir @ [metadataDir])"
    and fresh: "fresh_names H dir"
  shows "\<exists>d'. WriteTar H dir cache (FromBytes L (rc_Bytes r)) (rc_PackPath r) m d =
      (d', Inr (word_of_nat (length (entries_of L r)), matches_all H m (entries_of L r))) \<and>
    effect dir (owned L dir r) (archive_leaf dir (entries_of L r)) d d'"
proof -
  let ?es = "entries_of L r"
  have reader: "FromBytes L (rc_Bytes r) = \<lparr>tr_rest = ?es, tr_clean = True\<rparr>"
    using a by (cases "tar_decode L (rc_Bytes r)") (simp add: FromBytes_def applicable_def entries_of_def)
  have ap: "all_apart (map (entry_path dir) ?es)" using a by (simp add: applicable_def)
  have direct: "\<exists>d'. write_all H dir cache m \<lparr>tr_rest = ?es, tr_clean = True\<rparr> d = (d', Inr (word_of_nat (length ?es), matches_all H m ?es)) \<and>
      effect dir (map (entry_path dir) ?es) (archive_leaf dir ?es) d d'"
    if "\<forall>e \<in> set ?es. fits d (entry_path dir e) e \<and> prefix dir (entry_path dir e)"
    using write_entries_effect[OF ok that ap, of "[]" H cache m 0 True] by (auto simp: write_all_def)
  show ?thesis
  proof (cases "rc_PackPath r")
    case None
    then have "\<forall>e \<in> set ?es. fits d (entry_path dir e) e \<and> prefix dir (entry_path dir e)"
      using a by (auto simp: applicable_def owned_def list_all_iff outside_metadata_def strict_prefix_def)
    from direct[OF this] None show ?thesis by (simp add: WriteTar_def reader owned_def)
  next
    case (Some pp)
    let ?pc = "name_path pp"
    have pp: "plain_name pp" "plain_path d (dir @ ?pc)" "\<forall>e \<in> set ?es. pack_entry ?pc e" "outside_metadata dir (dir @ ?pc)"
      using a Some by (auto simp: applicable_def owned_def list_all_iff)
    have pc: "?pc \<noteq> []" "hd ?pc \<noteq> metadataDir" using pp(4) by (cases ?pc; auto simp: outside_metadata_def strict_prefix_def)+
    have ex: "fileExists (join_path dir pp) d \<longleftrightarrow> node_at d (dir @ ?pc) \<noteq> None"
      using Lstat_plain[OF pp(2)] by (auto simp: fileExists_def join_plain[OF pp(1)] split: option.splits)
    show ?thesis
    proof (cases "node_at d (dir @ ?pc)")
      case None
      have none: "node_at d x = None" if "prefix (dir @ ?pc) x" for x using nothing_below[OF ok(1) None that] .
      have under: "prefix (dir @ ?pc) (entry_path dir e)" if "e \<in> set ?es" for e
        using pp(3) that by (auto simp: pack_entry_path pack_entry_def)
      have "fits d (entry_path dir e) e" if "e \<in> set ?es" for e
      proof -
        have "clear_above d (entry_path dir e)" unfolding clear_above_iff
        proof (intro allI impI)
          fix q assume q: "strict_prefix q (entry_path dir e)"
          show "node_at d q = None \<or> is_dir_at d q"
          proof (cases "prefix (dir @ ?pc) q")
            case False
            then have "strict_prefix q (dir @ ?pc)" using q under[OF that]
              by (metis prefix_order.less_imp_le prefix_order.less_le prefix_same_cases)
            then show ?thesis using pp(2) by (simp add: plain_path_def clear_above_iff)
          qed (use none in blast)
        qed
        moreover have "list_all good_name (entry_path dir e)"
          using pp(2,3) that name_path_good by (auto simp: pack_entry_path pack_entry_def plain_path_def)
        moreover have "bare_below d (entry_path dir e)"
          using none under[OF that] by (auto simp: bare_below_def leaf_at_None_iff strict_prefix_def dest: prefix_order.order_trans)
        moreover have "entry_path dir e \<noteq> []" using under[OF that] pc(1) by auto
        ultimately show ?thesis using ok(1) pp(3) that none[OF under[OF that]]
          by (auto simp: fits_def plain_path_def pack_entry_def)
      qed
      then obtain d' where "write_all H dir cache m \<lparr>tr_rest = ?es, tr_clean = True\<rparr> d = (d', Inr (word_of_nat (length ?es), matches_all H m ?es))"
        and "effect dir (map (entry_path dir) ?es) (archive_leaf dir ?es) d d'" using direct under append_prefixD by blast
      moreover from this(2) have "effect dir [dir @ ?pc] (archive_leaf dir ?es) d d'" by (rule effect_widen) (use under none in auto)
      ultimately show ?thesis using Some ex None by (auto simp: WriteTar_def reader owned_def)
    next
      case (Some n)
      obtain x where x: "x \<in> set (temp_names H d)" "node_at d (dir @ [''.dl'', tmp_prefix @ x]) = None"
        using fresh by (auto simp: fresh_names_def metadataDir_def)
      show ?thesis
        using WriteTar_pack_effect[OF ok _ pp(1) refl pc(1) _ _ pp(3) ap x, of cache m] dl pc(2) Some \<open>rc_PackPath r = Some pp\<close>
        by (simp add: reader owned_def metadataDir_def)
    qed
  qed
qed

section \<open>All responses, in any order\<close>

definition entry_count :: "lib \<Rightarrow> GetCompressResponse \<Rightarrow> 32 word" where
  "entry_count L r = word_of_nat (length (entries_of L r))"

definition all_matched :: "'w Client \<Rightarrow> FileMatcher option \<Rightarrow> GetCompressResponse list \<Rightarrow> bool" where
  "all_matched C m rs \<longleftrightarrow> list_all (\<lambda>r. entry_count (cl_lib C) r > 0 \<longrightarrow> matches_all (cl_host C) m (entries_of (cl_lib C) r)) rs"

lemma write_responses_effect:
  assumes "\<forall>r \<in> set rs. applicable (cl_lib C) dir (tk_disk t) r" and "all_apart (concat (map (owned (cl_lib C) dir) rs))"
    and "disk_ok (tk_disk t)" and "unshared dir (tk_disk t)" and "is_dir_at (tk_disk t) (dir @ [metadataDir])"
    and "fresh_names (cl_host C) dir"
    and "\<And>r q. r \<in> set rs \<Longrightarrow> under (owned (cl_lib C) dir r) q \<Longrightarrow> V q = archive_leaf dir (entries_of (cl_lib C) r) q"
  shows "\<exists>t'. foldM (\<lambda>r _. write_response C dir cacheDir m r) rs () t = (t', Inr ()) \<and>
    effect dir (concat (map (owned (cl_lib C) dir) rs)) V (tk_disk t) (tk_disk t') \<and>
    tk_count t' = tk_count t + sum_list (map (entry_count (cl_lib C)) rs) \<and> (tk_match t' \<longleftrightarrow> tk_match t \<and> all_matched C m rs)"
  using assms
proof (induction rs arbitrary: t)
  case Nil
  then show ?case by (simp add: effect_none all_matched_def)
next
  case (Cons r rs)
  let ?L = "cl_lib C" and ?H = "cl_host C"
  have a: "applicable ?L dir (tk_disk t) r" using Cons.prems(1) by simp
  obtain d1 where w: "WriteTar ?H dir (CacheObjectsDir cacheDir) (FromBytes ?L (rc_Bytes r)) (rc_PackPath r) m (tk_disk t) =
      (d1, Inr (entry_count ?L r, matches_all ?H m (entries_of ?L r)))"
    and e1: "effect dir (owned ?L dir r) (archive_leaf dir (entries_of ?L r)) (tk_disk t) d1"
    using WriteTar_effect[OF a Cons.prems(3-6), of "CacheObjectsDir cacheDir" m] by (auto simp: entry_count_def)
  define t1 where "t1 = tracker_add (entry_count ?L r) (matches_all ?H m (entries_of ?L r)) (t\<lparr>tk_disk := d1\<rparr>)"
  have t1: "tk_disk t1 = d1" "tk_count t1 = tk_count t + entry_count ?L r"
    "tk_match t1 \<longleftrightarrow> tk_match t \<and> (entry_count ?L r > 0 \<longrightarrow> matches_all ?H m (entries_of ?L r))"
    by (auto simp: t1_def tracker_add_def)
  have split: "all_apart (owned ?L dir r @ concat (map (owned ?L dir) rs))" using Cons.prems(2) by simp
  have cross: "\<forall>p \<in> set (owned ?L dir r). \<forall>q \<in> set (owned ?L dir x). apart p q" if "x \<in> set rs" for x
    using split that by (auto simp: all_apart_def sorted_wrt_append)
  have outside: "\<not> under (owned ?L dir r) (dir @ [metadataDir])"
    using a apart_metadata[of dir _ "[]"] by (intro apart_not_under) (auto simp: applicable_def list_all_iff)
  have "\<forall>x \<in> set rs. applicable ?L dir (tk_disk t1) x"
    using Cons.prems(1) applicable_effect[OF _ e1] cross t1(1) by auto
  moreover have "all_apart (concat (map (owned ?L dir) rs))" using split by (simp add: all_apart_def sorted_wrt_append)
  ultimately obtain t' where t': "foldM (\<lambda>r _. write_response C dir cacheDir m r) rs () t1 = (t', Inr ())"
    "effect dir (concat (map (owned ?L dir) rs)) V (tk_disk t1) (tk_disk t')"
    "tk_count t' = tk_count t1 + sum_list (map (entry_count ?L) rs)" "tk_match t' \<longleftrightarrow> tk_match t1 \<and> all_matched C m rs"
    using Cons.IH[of t1] effectD(1,2)[OF e1] effect_dir[OF e1 outside Cons.prems(5)] Cons.prems(6,7) t1(1) by auto
  have "effect dir (owned ?L dir r @ concat (map (owned ?L dir) rs)) V (tk_disk t) (tk_disk t')"
  proof (rule effect_append[OF e1 t'(2)[unfolded t1(1)] split])
    show "V q = archive_leaf dir (entries_of ?L r) q" if "under (owned ?L dir r) q" for q using Cons.prems(7) that by simp
  qed simp
  moreover have "write_response C dir cacheDir m r t = (t1, Inr ())" using w by (simp add: write_response_def t1_def)
  ultimately show ?case using t' t1(2,3) by (auto simp: andThen_def all_matched_def)
qed

lemma all_apart_perm: "mset ps = mset qs \<Longrightarrow> all_apart ps \<Longrightarrow> all_apart qs"
proof (induction ps arbitrary: qs)
  case (Cons p ps)
  then have "p \<in> set qs" by (metis list.set_intros(1) mset_eq_setD)
  then obtain as bs where qs: "qs = as @ p # bs" by (meson split_list)
  then have rest: "mset ps = mset (as @ bs)" using Cons.prems(1) by simp
  then have "all_apart (as @ bs)" using Cons by (auto simp: all_apart_def)
  moreover have "\<forall>x \<in> set (as @ bs). apart p x"
    using Cons.prems(2) mset_eq_setD[OF rest] by (auto simp: all_apart_def)
  ultimately show ?case using qs by (auto simp: all_apart_def sorted_wrt_append apart_def)
qed simp

lemma mset_concat_map:
  assumes "mset xs = mset ys"
  shows "mset (concat (map f xs)) = mset (concat (map f ys))"
proof -
  have "mset (concat (map f zs)) = (\<Sum>z \<in># mset zs. mset (f z))" for zs by (induction zs) auto
  then show ?thesis using assms by simp
qed

section \<open>Rebuild\<close>

text \<open>The leaves the responses bring.\<close>

definition response_leaf :: "lib \<Rightarrow> path \<Rightarrow> GetCompressResponse list \<Rightarrow> path \<Rightarrow> leaf option" where
  "response_leaf L dir rs q =
     (case find (\<lambda>r. under (owned L dir r) q) rs of
        Some r \<Rightarrow> archive_leaf dir (entries_of L r) q
      | None \<Rightarrow> None)"

lemma response_leaf_owned:
  assumes "all_apart (concat (map (owned L dir) rs))" and "r \<in> set rs" and "under (owned L dir r) q"
  shows "response_leaf L dir rs q = archive_leaf dir (entries_of L r) q"
  using assms
proof (induction rs)
  case (Cons x rs)
  have split: "all_apart (owned L dir x @ concat (map (owned L dir) rs))" using Cons.prems(1) by simp
  show ?case
  proof (cases "under (owned L dir x) q")
    case True
    then have "\<not> under (concat (map (owned L dir) rs)) q" by (rule under_apart[OF split])
    then have "r \<notin> set rs" using Cons.prems(3) by (auto simp: under_iff)
    then show ?thesis using True Cons.prems(2) by (simp add: response_leaf_def)
  next
    case False
    then have "r \<in> set rs" using Cons.prems(2,3) by auto
    moreover have "all_apart (concat (map (owned L dir) rs))" using split by (simp add: all_apart_def sorted_wrt_append)
    ultimately show ?thesis using Cons.IH Cons.prems(3) False by (simp add: response_leaf_def)
  qed
qed simp

lemma accepted_same: "\<forall>r \<in> set rs. rc_Version r = v \<Longrightarrow> old = 0 \<or> old = v \<Longrightarrow>
    accepted_msgs checkVersion rs old = (rs, Inr (if rs = [] then old else v))"
  by (induction rs arbitrary: old) (auto simp: checkVersion_def Let_def)

lemma ensureMetadataDir_effect:
  assumes l: "local_dir d dir"
  shows "\<exists>d1. ensureMetadataDir dir d = (d1, Inr ()) \<and> disk_ok d1 \<and> inodes d1 = inodes d \<and> is_dir_at d1 (dir @ [metadataDir]) \<and>
    (\<forall>q. q \<noteq> dir @ [metadataDir] \<longrightarrow> node_at d1 q = node_at d q)"
proof -
  let ?p = "dir @ [metadataDir]"
  have ok: "disk_ok d" "is_dir_at d dir" "node_at d ?p = None \<or> is_dir_at d ?p" using l by (auto simp: local_dir_def)
  obtain d1 where d1: "MkdirAll ?p 0x1FD d = (d1, Inr ())" and made: "made ?p 0x1FD d d1"
    using MkdirAll_plain[OF local_dir_plain(1)[OF l] ok(3)] by blast
  have "node_at d1 q = node_at d q" if "q \<noteq> ?p" for q
  proof -
    have "\<not> (prefix q ?p \<and> node_at d q = None)"
      using that disk_ok_dir_above[OF ok(1), of dir _ q] ok(2) by (auto simp: is_dir_at_iff prefix_snoc strict_prefix_def)
    then show ?thesis using made unfolding made_def by metis
  qed
  moreover have "is_dir_at d1 ?p" using made ok(3) by (auto simp: made_def is_dir_at_def)
  ultimately show ?thesis using d1 made by (simp add: ensureMetadataDir_def file_call_def os_call_def made_def)
qed

lemma metadata_made:
  assumes l: "local_dir d dir" and d1: "disk_ok d1" "is_dir_at d1 (dir @ [metadataDir])"
    and same: "\<forall>q. q \<noteq> dir @ [metadataDir] \<longrightarrow> node_at d1 q = node_at d q"
  shows "local_dir d1 dir" and "unshared dir d \<Longrightarrow> unshared dir d1"
proof -
  show "local_dir d1 dir" using l d1 same by (simp add: local_dir_def is_dir_at_def versionFile_def)
  have "node_at d1 q = Some (Reg i) \<longleftrightarrow> node_at d q = Some (Reg i)" for q i
    using same d1(2) l by (cases "q = dir @ [metadataDir]") (auto simp: is_dir_at_iff local_dir_def)
  then show "unshared dir d \<Longrightarrow> unshared dir d1" by (simp add: unshared_def)
qed

lemma same_nodes_applicable:
  assumes "applicable L dir d r" and "disk_ok d1" and "inodes d1 = inodes d" and "is_dir_at d1 (dir @ [metadataDir])"
    and same: "\<forall>q. q \<noteq> dir @ [metadataDir] \<longrightarrow> node_at d1 q = node_at d q"
  shows "applicable L dir d1 r"
proof -
  have ne: "x \<noteq> dir @ [metadataDir]" if "outside_metadata dir p" "prefix x p \<or> prefix p x" for x p
    using that apart_metadata[OF that(1), of "[]"] by (auto simp: apart_def)
  have plain: "plain_path d1 p" if "outside_metadata dir p" "plain_path d p" for p
    using that assms(2) same ne[OF that(1)] by (auto simp: plain_path_def clear_above_iff is_dir_at_def strict_prefix_def)
  have fits: "fits d1 p e" if "outside_metadata dir p" "fits d p e" for p e
  proof -
    have "node_at d1 p = node_at d p" using same ne[OF that(1), of p] by simp
    moreover have "bare_below d1 p" using that(2) same ne[OF that(1)]
      by (auto simp: fits_def bare_below_def leaf_at_None_iff is_dir_at_def strict_prefix_def)
    ultimately show ?thesis using that(2) plain[OF that(1)] by (auto simp: fits_def)
  qed
  show ?thesis using assms(1) plain fits by (auto simp: applicable_def owned_def list_all_iff split: option.splits)
qed

lemma all_apart_sub:
  assumes "mset xs \<subseteq># mset ys" and "all_apart (concat (map f ys))"
  shows "all_apart (concat (map f xs))"
proof -
  obtain zs where "mset ys = mset (xs @ zs)" using assms(1) by (metis ex_mset mset_append subset_mset.le_iff_add)
  from all_apart_perm[OF mset_concat_map[OF this] assms(2)] have "all_apart (concat (map f (xs @ zs)))" .
  then show ?thesis by (simp add: all_apart_def sorted_wrt_append)
qed

lemma effect_set: "effect R ps T d d' \<Longrightarrow> set ps = set qs \<Longrightarrow> effect R qs T d d'"
  by (simp add: effect_def under_iff)

text \<open>The workers, on a directory whose metadata directory is there.\<close>

lemma written_in_order:
  assumes fit: "\<forall>r \<in> set msgs. applicable (cl_lib C) dir d r" "all_apart (concat (map (owned (cl_lib C) dir) msgs))"
    and d: "disk_ok d" "unshared dir d" "is_dir_at d (dir @ [metadataDir])" and H: "fresh_names (cl_host C) dir"
    and o: "mset order \<subseteq># mset msgs"
  shows "\<exists>t. foldM (\<lambda>r _. write_response C dir cacheDir m r) order () (newResultTracker d) = (t, Inr ()) \<and>
    effect dir (concat (map (owned (cl_lib C) dir) order)) (response_leaf (cl_lib C) dir msgs) d (tk_disk t) \<and>
    tk_count t = sum_list (map (entry_count (cl_lib C)) order) \<and> (tk_match t \<longleftrightarrow> all_matched C m order)"
proof -
  let ?t = "newResultTracker d"
  have sub: "set order \<subseteq> set msgs" using set_mset_mono[OF o] by simp
  have disk: "tk_disk ?t = d" "tk_count ?t = 0" "tk_match ?t" by (simp_all add: newResultTracker_def)
  have leaf: "response_leaf (cl_lib C) dir msgs q = archive_leaf dir (entries_of (cl_lib C) r) q"
    if "r \<in> set order" "under (owned (cl_lib C) dir r) q" for r q
    using response_leaf_owned[OF fit(2) _ that(2)] that(1) sub by blast
  have ap: "\<forall>r \<in> set order. applicable (cl_lib C) dir (tk_disk ?t) r" using fit(1) sub disk(1) by auto
  from write_responses_effect[OF ap all_apart_sub[OF o fit(2)] _ _ _ H leaf, where cacheDir=cacheDir and m=m]
  show ?thesis using d disk by simp
qed

lemma rebuild_group_effect:
  assumes fit: "\<forall>r \<in> set msgs. applicable (cl_lib C) dir d r" "all_apart (concat (map (owned (cl_lib C) dir) msgs))"
    and d: "disk_ok d" "unshared dir d" "is_dir_at d (dir @ [metadataDir])" and H: "fresh_names (cl_host C) dir"
    and C: "0 < parallelWorkerCount C" and msgs: "msgs \<noteq> []" "\<forall>r \<in> set msgs. rc_Version r = v"
  shows "\<exists>t. run_group (parallelWorkerCount C) 32 checkVersion (write_response C dir cacheDir m) (cl_sched C) msgs None 0
      (newResultTracker d) = Some (t, Inr v) \<and>
    effect dir (concat (map (owned (cl_lib C) dir) msgs)) (response_leaf (cl_lib C) dir msgs) d (tk_disk t) \<and>
    tk_count t = sum_list (map (entry_count (cl_lib C)) msgs) \<and> (tk_match t \<longleftrightarrow> all_matched C m msgs)"
proof -
  note order = written_in_order[OF fit d H, where cacheDir=cacheDir and m=m]
  have acc: "accepted_msgs checkVersion msgs 0 = (msgs, Inr v)" using accepted_same[OF msgs(2), of 0] msgs(1) by simp
  have "\<exists>t. foldM (\<lambda>r _. write_response C dir cacheDir m r) xs () (newResultTracker d) = (t, Inr ())"
    if "mset xs \<subseteq># mset msgs" for xs using order[OF that] by blast
  from run_group_success[OF C _ msgs(1) this acc, of 32 "cl_sched C"]
  obtain xs t where o: "mset xs = mset msgs" "foldM (\<lambda>r _. write_response C dir cacheDir m r) xs () (newResultTracker d) = (t, Inr ())"
    and t: "run_group (parallelWorkerCount C) 32 checkVersion (write_response C dir cacheDir m) (cl_sched C) msgs None 0 (newResultTracker d) = Some (t, Inr v)"
    by auto
  have set: "set xs = set msgs" using o(1) by (rule mset_eq_setD)
  from order[of xs] o have e: "effect dir (concat (map (owned (cl_lib C) dir) xs)) (response_leaf (cl_lib C) dir msgs) d (tk_disk t)"
    "tk_count t = sum_list (map (entry_count (cl_lib C)) xs)" "tk_match t \<longleftrightarrow> all_matched C m xs" by auto
  have "sum_list (map (entry_count (cl_lib C)) xs) = sum_list (map (entry_count (cl_lib C)) msgs)"
    using o(1) by (metis mset_map sum_mset_sum_list)
  then show ?thesis using t e effect_set[OF e(1), of "concat (map (owned (cl_lib C) dir) msgs)"] set
    by (auto simp: all_matched_def list_all_iff)
qed

text \<open>The version file is written last.\<close>

lemma finish_rebuild_effect:
  assumes e: "effect dir ps T d d1" and ps: "\<forall>p \<in> set ps. outside_metadata dir p" and l: "local_dir d dir" "is_dir_at d (dir @ [metadataDir])"
    and v: "is_int64 (rr_Version r)"
  shows "\<exists>d'. finish_rebuild C dir False r d1 = (d', Inr r) \<and> local_dir d' dir \<and> unshared dir d' \<and> ReadVersionFile dir d' = Inr (rr_Version r) \<and>
    (\<forall>q. outside_metadata dir q \<longrightarrow> leaf_at d' q = leaf_at d1 q)"
proof -
  have keep: "node_at d1 (dir @ metadataDir # x) = node_at d (dir @ metadataDir # x)" for x
    using effectD(5)[OF e] ps apart_metadata by blast
  have "\<not> under ps dir" using ps by (auto simp: under_iff outside_metadata_def dest: prefix_order.less_le_trans)
  then have dir: "is_dir_at d1 dir" using effect_dir[OF e] l(1) by (simp add: local_dir_def)
  have l1: "local_dir d1 dir"
    using effectD(1)[OF e] dir keep[of "[]"] keep[of "[''version'']"] l
    by (simp add: local_dir_def is_dir_at_def versionFile_def)
  obtain d' where d': "WriteVersionFile dir (rr_Version r) d1 = (d', Inr ())" "touches dir (versionFile dir) d1 d'"
    "leaf_at d' (versionFile dir) = Some (LFile (FormatInt (rr_Version r)))" "is_dir_at d' (dir @ [metadataDir])"
    using WriteVersionFile_effect[OF l1 effectD(2)[OF e], of "rr_Version r"] by auto
  have ok: "disk_ok d'" "unshared dir d'" using d'(2) by (simp_all add: touches_def)
  have "\<not> prefix (versionFile dir) dir" by (auto simp: versionFile_def prefix_def)
  then have "is_dir_at d' dir" using touches_dir[OF d'(2) dir] by simp
  then have "local_dir d' dir" using ok d'(3,4) by (simp add: local_dir_def leaf_at_def split: option.splits node.splits)
  moreover have bare: "bare_below d1 (versionFile dir)"
    using file_bare_below[OF effectD(1)[OF e], of "versionFile dir"] l1
    by (auto simp: local_dir_def is_dir_at_def split: option.splits node.splits)
  moreover have "leaf_at d' q = leaf_at d1 q" if "outside_metadata dir q" for q
    using touches_leaf[OF d'(2) bare] that by (auto simp: outside_metadata_iff versionFile_def)
  ultimately show ?thesis using d'(1) ok(2) ReadVersionFile_leaf[OF ok(1) d'(3) v] by (simp add: finish_rebuild_def andThen_def)
qed

lemma rebuild_disk_effect:
  assumes l: "local_dir d dir" "unshared dir d" and C: "fresh_names (cl_host C) dir" "0 < parallelWorkerCount C"
    and msgs: "msgs \<noteq> []" "\<forall>r \<in> set msgs. rc_Version r = v" "is_int64 v"
    and fit: "\<forall>r \<in> set msgs. applicable (cl_lib C) dir d r" "all_apart (concat (map (owned (cl_lib C) dir) msgs))"
  shows "\<exists>d'. rebuild_disk C dir cacheDir m False msgs None d =
      Some (d', Inr (tracker_result v \<lparr>tk_disk = d', tk_count = sum_list (map (entry_count (cl_lib C)) msgs), tk_match = all_matched C m msgs\<rparr>)) \<and>
    local_dir d' dir \<and> unshared dir d' \<and> ReadVersionFile dir d' = Inr v \<and>
    (\<forall>q. outside_metadata dir q \<longrightarrow> leaf_at d' q =
       (if under (concat (map (owned (cl_lib C) dir) msgs)) q then response_leaf (cl_lib C) dir msgs q else leaf_at d q))"
proof -
  let ?L = "cl_lib C" and ?ps = "concat (map (owned (cl_lib C) dir) msgs)"
  obtain d1 where d1: "ensureMetadataDir dir d = (d1, Inr ())" "disk_ok d1" "inodes d1 = inodes d" "is_dir_at d1 (dir @ [metadataDir])"
    and same: "\<forall>q. q \<noteq> dir @ [metadataDir] \<longrightarrow> node_at d1 q = node_at d q"
    using ensureMetadataDir_effect[OF l(1)] by blast
  note l1 = metadata_made(1)[OF l(1) d1(2,4) same] and un1 = metadata_made(2)[OF l(1) d1(2,4) same l(2)]
  have fit1: "\<forall>r \<in> set msgs. applicable ?L dir d1 r" using fit(1) same_nodes_applicable[OF _ d1(2-4) same] by blast
  obtain t where t: "run_group (parallelWorkerCount C) 32 checkVersion (write_response C dir cacheDir m) (cl_sched C) msgs None 0
      (newResultTracker d1) = Some (t, Inr v)"
    and e: "effect dir ?ps (response_leaf ?L dir msgs) d1 (tk_disk t)"
    and cnt: "tk_count t = sum_list (map (entry_count ?L) msgs)" "tk_match t \<longleftrightarrow> all_matched C m msgs"
    using rebuild_group_effect[OF fit1 fit(2) d1(2) un1 d1(4) C msgs(1,2), where cacheDir=cacheDir and m=m] by blast
  have outside: "\<forall>p \<in> set ?ps. outside_metadata dir p" using fit(1) by (auto simp: applicable_def list_all_iff)
  obtain d' where d': "finish_rebuild C dir False (tracker_result v t) (tk_disk t) = (d', Inr (tracker_result v t))"
    "local_dir d' dir" "unshared dir d'" "ReadVersionFile dir d' = Inr v"
    and leaf: "\<And>q. outside_metadata dir q \<Longrightarrow> leaf_at d' q = leaf_at (tk_disk t) q"
    using finish_rebuild_effect[OF e outside l1 d1(4), of "tracker_result v t" C] msgs(3) by (auto simp: tracker_result_def)
  have "leaf_at d' q = (if under ?ps q then response_leaf ?L dir msgs q else leaf_at d q)" if "outside_metadata dir q" for q
  proof -
    have q: "prefix dir q" "q \<noteq> dir @ [metadataDir]" using that by (auto simp: outside_metadata_iff)
    have "leaf_at d1 q = leaf_at d q" using same q(2) d1(3) by (intro leaf_at_cong) auto
    then show ?thesis using leaf[OF that] effectD(4)[OF e q(1)] by simp
  qed
  moreover have "tracker_result v t = tracker_result v \<lparr>tk_disk = d', tk_count = sum_list (map (entry_count ?L) msgs), tk_match = all_matched C m msgs\<rparr>"
    using cnt by (simp add: tracker_result_def)
  ultimately show ?thesis using d1(1) t d' by (simp add: rebuild_disk_def)
qed

end
