(* ===== verification/LocalSafety.thy ===== *)
theory LocalSafety
  imports Rebuilds
begin

text \<open>
  Every call of the client keeps the invariant of the disk, whatever the service answers and in
  whatever order the workers run.
\<close>

interpretation rebuilding: pool_writer "write_response C dir cacheDir m" "\<lambda>t. list_all good_name dir \<longrightarrow> disk_ok (tk_disk t)"
  for C dir cacheDir m
proof
  fix t :: rebuildResultTracker and r assume t: "list_all good_name dir \<longrightarrow> disk_ok (tk_disk t)"
  show "list_all good_name dir \<longrightarrow> disk_ok (tk_disk (fst (write_response C dir cacheDir m r t)))"
  proof
    assume good: "list_all good_name dir"
    then have "disk_ok (tk_disk t)" using t by simp
    from keeps_okD[OF keeps_WriteTar[OF good] this, of "cl_host C" "CacheObjectsDir cacheDir" "FromBytes (cl_lib C) (rc_Bytes r)" "rc_PackPath r" m]
    show "disk_ok (tk_disk (fst (write_response C dir cacheDir m r t)))"
      by (auto simp: write_response_def tracker_add_def split: prod.splits sum.splits)
  qed
qed

interpretation caching: pool_writer "write_cached C root" "\<lambda>s. list_all good_name root \<longrightarrow> disk_ok (fst s)" for C root
proof
  fix s :: "disk \<times> 32 word" and r assume s: "list_all good_name root \<longrightarrow> disk_ok (fst s)"
  show "list_all good_name root \<longrightarrow> disk_ok (fst (fst (write_cached C root r s)))"
  proof
    assume good: "list_all good_name root"
    then have d: "disk_ok (fst s)" using s by simp
    have dirs: "list_all good_name (CacheTmpDir root)" "list_all good_name (CacheObjectsDir root)"
      using good by (simp_all add: CacheTmpDir_def CacheObjectsDir_def good_name_def)
    let ?t = "join_path (CacheTmpDir root) (EncodeToString (rk_Hash r))" and ?f = "join_path (CacheObjectsDir root) (EncodeToString (rk_Hash r))"
    have rm: "keeps_ok (\<lambda>d. if fileExists ?t d then os_call (RemoveAll ?t) d else (d, Inr ()))"
      by (rule keeps_okI) (simp add: keeps_okD[OF keeps_os_call[OF keeps_RemoveAll]])
    have "keeps_ok (file_call (andThen (\<lambda>d. if fileExists ?t d then os_call (RemoveAll ?t) d else (d, Inr ())) (\<lambda>_.
        andThen (WriteTar (cl_host C) ?t (CacheObjectsDir root) (FromBytes (cl_lib C) (rk_Bytes r)) None None) (\<lambda>res.
        andThen (os_call (Rename ?t ?f)) (\<lambda>_. ret res)))))"
      by (intro keeps_intros rm join_path_good dirs)
    from keeps_okD[OF this d] d show "disk_ok (fst (fst (write_cached C root r s)))"
      by (auto simp: write_cached_def Let_def split: prod.splits sum.splits)
  qed
qed

section \<open>Rebuild\<close>

definition world_ok :: "'w world \<Rightarrow> bool" where
  "world_ok w \<longleftrightarrow> disk_ok (w_disk w)"

lemma remote_disk [simp]: "w_disk (fst (remote f w)) = w_disk w"
  by (simp add: remote_def split: prod.splits sum.splits)

text \<open>What the summaries of \<^verbatim>\<open>fsdiff\<close> do to the disk.\<close>

definition summaries_ok :: "host \<Rightarrow> bool" where
  "summaries_ok H \<longleftrightarrow> (\<forall>p s. list_all good_name p \<longrightarrow> keeps_ok (WriteSummary H p s))"

lemma keeps_summarize:
  assumes "summaries_ok H" and "list_all good_name dir"
  shows "keeps_ok (DiffAndSummarize H dir)"
proof -
  have "keeps_ok (WriteSummary H (summaryFile dir) s)" for s
    using assms by (simp add: summaries_ok_def summaryFile_def)
  then show ?thesis unfolding DiffAndSummarize_def
    by (intro keeps_intros assms(2)) (auto intro!: keeps_intros split: prod.splits)
qed

lemma keeps_finish_rebuild:
  assumes "summaries_ok (cl_host C)" and "list_all good_name dir"
  shows "keeps_ok (finish_rebuild C dir b r)"
  unfolding finish_rebuild_def by (intro keeps_intros keeps_summarize assms)

lemma rebuild_disk_ok:
  assumes "summaries_ok (cl_host C)" and good: "list_all good_name dir" and "disk_ok d"
    and r: "rebuild_disk C dir cacheDir m b msgs status d = Some (d', x)"
  shows "disk_ok d'"
proof -
  obtain d1 y where d1: "ensureMetadataDir dir d = (d1, y)" by fastforce
  then have ok1: "disk_ok d1" using keeps_okD[OF keeps_ensureMetadataDir[OF good] assms(3)] by simp
  show ?thesis
  proof (cases y)
    case (Inl e)
    then show ?thesis using r d1 ok1 by (simp add: rebuild_disk_def)
  next
    case (Inr u)
    then obtain t z where t: "run_group (parallelWorkerCount C) 32 checkVersion (write_response C dir cacheDir m) (cl_sched C)
        msgs (map_option Rpc status) 0 (newResultTracker d1) = Some (t, z)"
      using r d1 by (auto simp: rebuild_disk_def split: option.splits)
    have "disk_ok (tk_disk t)"
      using rebuilding.group_keeps[OF t] ok1 good by (simp add: newResultTracker_def)
    then show ?thesis using r d1 Inr t keeps_okD[OF keeps_finish_rebuild[OF assms(1) good]]
      by (auto simp: rebuild_disk_def split: sum.splits) (metis fst_conv)
  qed
qed

lemma Rebuild_world_ok:
  assumes "summaries_ok (cl_host C)" and "list_all good_name dir" and w: "world_ok w"
    and r: "Rebuild C project pfx toV dir ignores cacheDir m b w = Some (w', x)"
  shows "world_ok w'"
proof (cases "w' = w")
  case False
  obtain fv where fv: "ReadVersionFile dir (w_disk w) = Inr fv" "toV \<noteq> Some fv"
    using r False by (auto simp: Rebuild_def split: sum.splits if_splits)
  obtain w1 y where w1: "remote (pb_GetCompress (cl_fs C)
      \<lparr>g_Project = project, g_FromVersion = Some fv, g_ToVersion = toV,
       g_Queries = [\<lparr>q_Path = pfx, q_IsPrefix = True, q_Ignores = ignores\<rparr>],
       g_AvailableCacheVersions = ReadCacheVersionFile cacheDir (w_disk w)\<rparr>) w = (w1, y)" by fastforce
  then have d: "w_disk w1 = w_disk w" using remote_disk by (metis fst_conv)
  show ?thesis using r fv w1 w d rebuild_disk_ok[OF assms(1,2)]
    by (auto simp: Rebuild_def world_ok_def split: sum.splits if_splits prod.splits)
qed (use w in simp)

section \<open>Update\<close>

lemma local_call_ok: "keeps_ok m \<Longrightarrow> world_ok w \<Longrightarrow> world_ok (fst (local_call m w))"
  using keeps_okD[of m "w_disk w"] by (auto simp: local_call_def world_ok_def split: prod.splits)

lemma remote_ok [simp]: "world_ok (fst (remote f w)) = world_ok w"
  by (simp add: world_ok_def)

lemma andThen_ret_ok: "world_ok (fst (m w)) \<Longrightarrow> world_ok (fst (andThen m (\<lambda>_. ret x) w))"
  by (auto simp: andThen_def ret_def split: prod.splits sum.splits)

lemma client_Update_world_ok:
  assumes H: "summaries_ok (cl_host C)" and good: "list_all good_name dir" and w: "world_ok w"
    and r: "client_Update C project dir w = Some (w', x)"
  shows "world_ok w'"
proof (cases "ReadVersionFile dir (w_disk w)")
  case (Inl e)
  then show ?thesis using r w by (simp add: client_Update_def)
next
  case (Inr fv)
  obtain w1 y where w1: "local_call (DiffAndSummarize (cl_host C) dir) w = (w1, y)" by fastforce
  then have ok1: "world_ok w1" using local_call_ok[OF keeps_summarize[OF H good] w] by simp
  show ?thesis
  proof (cases "\<exists>us obs. y = Inr us \<and> us \<noteq> [] \<and>
      run_readers (parallelWorkerCount C) 32 (read_update dir (w_disk w1)) (cl_sched C) us = Some (Inr obs)")
    case False
    then show ?thesis using r Inr w1 ok1
      by (auto simp: client_Update_def split: sum.splits if_splits prod.splits option.splits)
  next
    case True
    then obtain us obs where us: "y = Inr us" "us \<noteq> []"
      "run_readers (parallelWorkerCount C) 32 (read_update dir (w_disk w1)) (cl_sched C) us = Some (Inr obs)" by blast
    obtain w2 z where w2: "remote (pb_Update (cl_fs C) (map (Pair project) obs)) w1 = (w2, z)" by fastforce
    then have ok2: "world_ok w2" using ok1 remote_ok by (metis fst_conv)
    have vf: "world_ok (fst (andThen (local_call (WriteVersionFile dir n)) (\<lambda>_. ret k) w2))" for n and k :: "int \<times> 32 word"
      by (intro andThen_ret_ok local_call_ok keeps_WriteVersionFile good ok2)
    show ?thesis
    proof (cases z)
      case (Inl e)
      then show ?thesis using r \<open>ReadVersionFile dir (w_disk w) = Inr fv\<close> w1 us w2 ok2 by (simp add: client_Update_def)
    next
      case (Inr tv)
      note run = r[unfolded client_Update_def] \<open>ReadVersionFile dir (w_disk w) = Inr fv\<close> w1 us w2 Inr
      show ?thesis
      proof (cases "wrap64 (fv + 1) = tv")
        case True
        have "w' = fst (andThen (local_call (WriteVersionFile dir tv)) (\<lambda>_. ret (tv, word_of_nat (length us) :: 32 word)) w2)"
          using run True by (simp add: Let_def)
        then show ?thesis using vf by simp
      next
        case False
        obtain y where "Rebuild C project [] None dir [] (cl_cwd C) None True w2 = Some (w', y)"
          using run False by (auto simp: Let_def)
        then show ?thesis using Rebuild_world_ok[OF H good ok2] by blast
      qed
    qed
  qed
qed

section \<open>The cache\<close>

lemma good_cache [simp]:
  "list_all good_name root \<Longrightarrow> list_all good_name (CacheTmpDir root)"
  "list_all good_name root \<Longrightarrow> list_all good_name (CacheObjectsDir root)"
  "list_all good_name root \<Longrightarrow> list_all good_name (lock_path root)"
  "list_all good_name root \<Longrightarrow> list_all good_name (cacheVersionPath root)"
  by (simp_all add: CacheTmpDir_def CacheObjectsDir_def lock_path_def cacheVersionPath_def good_name_def)

lemma fetch_cache_world_ok:
  assumes good: "list_all good_name root" and w: "world_ok w" and r: "fetch_cache C root w = Some (w', x)"
  shows "world_ok w'"
proof -
  obtain w1 y where w1: "remote (pb_GetCache (cl_fs C)) w = (w1, y)" by fastforce
  then have ok1: "world_ok w1" using w remote_ok by (metis fst_conv)
  have app: "world_ok (fst (andThen (local_call (file_call (os_call (append_file (cacheVersionPath root) b 0x180)))) (\<lambda>_. ret k) (w1\<lparr>w_disk := d\<rparr>)))"
    if "disk_ok d" for d b and k :: "int \<times> 32 word"
    using that by (intro andThen_ret_ok local_call_ok) (auto intro!: keeps_intros simp: good world_ok_def)
  have pool: "disk_ok (fst s')" if "run_group n k check (write_cached C root) sched msgs e v (w_disk w1, 0) = Some (s', z)" for n k check sched msgs e v s' z
    using caching.group_keeps[OF that] ok1 good by (simp add: world_ok_def)
  show ?thesis
  proof (cases "\<exists>ms st. y = Inr (ms, st) \<and> ms \<noteq> []")
    case False
    then show ?thesis using r w1 ok1 by (auto simp: fetch_cache_def split: sum.splits if_splits)
  next
    case True
    then obtain ms st where ms: "y = Inr (ms, st)" "ms \<noteq> []" by blast
    let ?v = "rk_Version (hd ms)"
    obtain d n z where run: "run_group (parallelWorkerCount C) 16 (sameCacheVersion ?v) (write_cached C root) (cl_sched C)
        ms (map_option (\<lambda>_. NilResponse) st) () (w_disk w1, 0) = Some ((d, n), z)"
      using r w1 ms by (fastforce simp: fetch_cache_def Let_def split: option.splits)
    then have d: "disk_ok d" using pool by fastforce
    have "w' = w1\<lparr>w_disk := d\<rparr> \<or> (w' = fst (andThen (local_call (file_call (os_call (append_file (cacheVersionPath root)
        (FormatInt ?v @ [CHR 0x0A]) 0x180)))) (\<lambda>_. ret (?v, n)) (w1\<lparr>w_disk := d\<rparr>)))"
      using r w1 ms run by (cases z) (auto simp: fetch_cache_def Let_def)
    then show ?thesis using app[OF d] d by (auto simp: world_ok_def)
  qed
qed

lemma GetCache_world_ok:
  assumes good: "list_all good_name root" and w: "world_ok w" and r: "GetCache C root w = Some (w', x)"
  shows "world_ok w'"
proof -
  have rm: "disk_ok (fst (RemoveAll p d))" "disk_ok (fst (Remove p d))" if "disk_ok d" for p d
    using keeps_okD[OF keeps_RemoveAll that] keeps_okD[OF keeps_Remove that] by auto
  have dirs: "keeps_ok (file_call (andThen (os_call (MkdirAll (CacheObjectsDir root) 0x1ED)) (\<lambda>_ d.
             os_call (MkdirAll (CacheTmpDir root) 0x1ED) (fst (RemoveAll (CacheTmpDir root) d)))))"
    by (intro keeps_intros, simp add: good, rule keeps_okI)
       (simp add: rm keeps_okD[OF keeps_os_call[OF keeps_MkdirAll]] good)
  obtain w1 y where w1: "local_call (file_call (andThen (os_call (MkdirAll (CacheObjectsDir root) 0x1ED)) (\<lambda>_ d.
             os_call (MkdirAll (CacheTmpDir root) 0x1ED) (fst (RemoveAll (CacheTmpDir root) d))))) w = (w1, y)" by fastforce
  then have ok1: "world_ok w1" using local_call_ok[OF dirs w] by simp
  obtain w2 z where w2: "local_call (obtainCacheLockFile root) w1 = (w2, z)" by fastforce
  have "keeps_ok (obtainCacheLockFile root)" unfolding obtainCacheLockFile_def by (intro keeps_intros) (simp add: good)
  then have ok2: "world_ok w2" using local_call_ok[OF _ ok1] w2 by (metis fst_conv)
  show ?thesis using r w1 w2 ok1 ok2 fetch_cache_world_ok[OF good ok2]
    by (auto simp: GetCache_def Let_def cleanupCacheLockFile_def world_ok_def split: sum.splits intro!: rm)
qed

end
