(* ===== verification/Hardlinks.thy ===== *)
theory Hardlinks
  imports Mirror
begin

text \<open>
  What \<open>HardlinkDir\<close> of \<^verbatim>\<open>internal/files/writer.go\<close> builds: a tree with the directories of the old one, in
  which every file is the same file as in the old one.
\<close>

unbundle bit_operations_syntax

section \<open>The walk\<close>

text \<open>
  What the code relies on in \<^verbatim>\<open>fastwalk\<close>: it calls back once for every path at or below the directory, tells directories from
  files, and visits a directory before what is in it.
\<close>

definition walk_of :: "disk \<Rightarrow> path \<Rightarrow> (path \<times> bool) list \<Rightarrow> bool" where
  "walk_of d old es \<longleftrightarrow> distinct (map fst es) \<and> sorted_wrt (\<lambda>a b. \<not> strict_prefix (fst b) (fst a)) es \<and>
     (\<forall>rel b. (rel, b) \<in> set es \<longleftrightarrow> (\<exists>n. node_at d (old @ rel) = Some n \<and> (b \<longleftrightarrow> is_dir (Inr n))))"

definition walks :: "host \<Rightarrow> path \<Rightarrow> bool" where
  "walks H old \<longleftrightarrow> (\<forall>d. disk_ok d \<and> is_dir_at d old \<longrightarrow> (\<exists>es. fastwalk H d old = map Inr es \<and> walk_of d old es))"

section \<open>The links\<close>

definition link_node :: "disk \<Rightarrow> node \<Rightarrow> node" where
  "link_node d n = (case n of Dir m \<Rightarrow> Dir (info_mode d n AND ModePerm AND NOT (umask d)) | _ \<Rightarrow> n)"

lemma clean_onto_good_names: "list_all good_name rel \<Longrightarrow> clean_onto p rel = p @ rel"
  by (induction rel arbitrary: p) (auto simp: good_name_def)

lemma link_one_effect:
  assumes ok: "disk_ok d" and n: "node_at d (old @ rel) = Some n" "b \<longleftrightarrow> is_dir (Inr n)" and new: "list_all good_name new"
    and rel: "rel \<noteq> []" "is_dir_at d (new @ butlast rel)" "node_at d (new @ rel) = None"
  shows "link_one old new (Inr (rel, b)) () d = (put_node (new @ rel) (link_node d n) d, Inr ())"
    and "disk_ok (put_node (new @ rel) (link_node d n) d)"
proof -
  have good: "list_all good_name (old @ rel)" using plainD(2)[OF node_plain[OF ok n(1)]] .
  then have clean: "clean_onto new rel = new @ rel" using clean_onto_good_names by simp
  have up: "dirs_above d (new @ rel)" using dirs_above_parent[OF ok, of "new @ rel"] rel by (simp add: butlast_append)
  have pl: "plain_path d (new @ rel)" using ok new good up by (simp add: plain_path_def clear_above_dirs)
  have res: "resolve False (new @ rel) d = Inr (new @ rel)" using resolve_plain[OF pl, of False] up by simp
  have old: "Lstat (old @ rel) d = Inr n" using Lstat_plain[OF node_plain[OF ok n(1)]] n(1) by simp
  show run: "link_one old new (Inr (rel, b)) () d = (put_node (new @ rel) (link_node d n) d, Inr ())"
    using n(2) clean res old rel
    by (cases n) (auto simp: link_one_def Let_def Mkdir_def Link_def os_call_def link_node_def is_dir_def)
  show "disk_ok (put_node (new @ rel) (link_node d n) d)"
    using keeps_okD[OF keeps_link_one[OF new] ok, of old "Inr (rel, b)" "()"] run by simp
qed

definition linked_at :: "path \<Rightarrow> path set \<Rightarrow> path \<Rightarrow> disk \<Rightarrow> path \<Rightarrow> node option" where
  "linked_at old rels new d q =
     (if prefix new q \<and> q \<noteq> new \<and> drop (length new) q \<in> rels
      then map_option (link_node d) (node_at d (old @ drop (length new) q)) else node_at d q)"

lemma link_all:
  assumes "disk_ok d" and new: "list_all good_name new" "is_dir_at d new" and "apart old new"
    and "distinct (map fst es)" "sorted_wrt (\<lambda>a b. \<not> strict_prefix (fst b) (fst a)) es"
    and "\<And>rel b. (rel, b) \<in> set es \<Longrightarrow> \<exists>n. node_at d (old @ rel) = Some n \<and> (b \<longleftrightarrow> is_dir (Inr n))"
    and "\<And>rel b. (rel, b) \<in> set es \<Longrightarrow> rel \<noteq> [] \<Longrightarrow> node_at d (new @ rel) = None \<and>
      (is_dir_at d (new @ butlast rel) \<or> (butlast rel, True) \<in> set es)"
  shows "\<exists>d'. foldM (link_one old new) (map Inr es) () d = (d', Inr ()) \<and> disk_ok d' \<and> inodes d' = inodes d \<and> umask d' = umask d \<and>
    (\<forall>q. node_at d' q = linked_at old (fst ` set es) new d q)"
  using assms
proof (induction es arbitrary: d)
  case Nil
  then show ?case by (auto simp: ret_def linked_at_def)
next
  case (Cons e es)
  obtain rel b where e: "e = (rel, b)" by fastforce
  obtain n where n: "node_at d (old @ rel) = Some n" "b \<longleftrightarrow> is_dir (Inr n)" using Cons.prems(7)[of rel b] e by auto
  show ?case
  proof (cases "rel = []")
    case True
    have "link_one old new (Inr e) () d = (d, Inr ())" using True e by (simp add: link_one_def Let_def)
    moreover have "\<exists>d'. foldM (link_one old new) (map Inr es) () d = (d', Inr ()) \<and> disk_ok d' \<and> inodes d' = inodes d \<and> umask d' = umask d \<and>
        (\<forall>q. node_at d' q = linked_at old (fst ` set es) new d q)"
    proof (rule Cons.IH[OF Cons.prems(1-4)])
      fix r c assume r: "(r, c) \<in> set es" "r \<noteq> []"
      then show "node_at d (new @ r) = None \<and> (is_dir_at d (new @ butlast r) \<or> (butlast r, True) \<in> set es)"
        using Cons.prems(8)[of r c] Cons.prems(3) e True by auto
    qed (use Cons.prems(5,6,7) in auto)
    moreover have "linked_at old (fst ` set (e # es)) new d q = linked_at old (fst ` set es) new d q" for q
      using True e by (auto simp: linked_at_def prefix_def)
    ultimately show ?thesis by (simp add: andThen_def)
  next
    case False
    let ?d = "put_node (new @ rel) (link_node d n) d"
    have notin: "(butlast rel, True) \<notin> set es" "rel \<notin> fst ` set es" "butlast rel \<noteq> rel"
      using Cons.prems(5,6) e False butlast_strict_prefix[OF False] by (auto simp: strict_prefix_def)
    then have rel: "is_dir_at d (new @ butlast rel)" "node_at d (new @ rel) = None"
      using Cons.prems(8)[of rel b] e False by auto
    note one = link_one_effect[OF Cons.prems(1) n Cons.prems(2) False rel]
    have at: "node_at ?d q = (if q = new @ rel then Some (link_node d n) else node_at d q)" for q using False by simp
    have old: "node_at ?d (old @ r) = node_at d (old @ r)" for r
      using Cons.prems(4) at[of "old @ r"] by (auto simp: apart_def append_eq_append_conv2 prefix_def)
    have dir: "is_dir_at ?d p" if "is_dir_at d p" for p using that rel(2) at by (auto simp: is_dir_at_def)
    have dirn: "is_dir_at ?d (new @ rel)" if b using that n(2) at by (auto simp: is_dir_at_def is_dir_def link_node_def split: node.splits)
    have "\<exists>d'. foldM (link_one old new) (map Inr es) () ?d = (d', Inr ()) \<and> disk_ok d' \<and> inodes d' = inodes ?d \<and> umask d' = umask ?d \<and>
        (\<forall>q. node_at d' q = linked_at old (fst ` set es) new ?d q)"
    proof (rule Cons.IH[OF one(2) Cons.prems(2) dir[OF Cons.prems(3)] Cons.prems(4)])
      fix r c assume r: "(r, c) \<in> set es"
      then show "\<exists>n. node_at ?d (old @ r) = Some n \<and> (c \<longleftrightarrow> is_dir (Inr n))" unfolding old using Cons.prems(7)[of r c] by simp
      have "r \<noteq> rel" using r notin(2) by force
      moreover assume "r \<noteq> []"
      moreover have "is_dir_at ?d (new @ butlast r) \<or> (butlast r, True) \<in> set es"
        using Cons.prems(8)[of r c] r \<open>r \<noteq> []\<close> e dir dirn by auto
      ultimately show "node_at ?d (new @ r) = None \<and> (is_dir_at ?d (new @ butlast r) \<or> (butlast r, True) \<in> set es)"
        using Cons.prems(8)[of r c] r at by auto
    qed (use Cons.prems(5,6) e in auto)
    moreover have "linked_at old (fst ` set es) new ?d q = linked_at old (fst ` set (e # es)) new d q" for q
    proof -
      have "link_node ?d = link_node d" by (auto simp: link_node_def info_mode_def fun_eq_iff split: node.splits)
      then show ?thesis using notin(2) n(1) False e old at[of q] by (auto simp: linked_at_def prefix_def)
    qed
    ultimately show ?thesis using one(1) e by (simp add: andThen_def)
  qed
qed

section \<open>The directory\<close>

definition hardlinked :: "path \<Rightarrow> path \<Rightarrow> disk \<Rightarrow> disk \<Rightarrow> bool" where
  "hardlinked old new d d' \<longleftrightarrow> disk_ok d' \<and> inodes d' = inodes d \<and> umask d' = umask d \<and>
     (\<forall>rel. rel \<noteq> [] \<longrightarrow> node_at d' (new @ rel) = map_option (link_node d) (node_at d (old @ rel))) \<and> is_dir_at d' new \<and>
     (\<forall>q. \<not> prefix new q \<longrightarrow> node_at d' q = node_at d q \<or> node_at d q = None \<and> strict_prefix q new \<and> is_dir_at d' q)"

lemma remove_existing:
  assumes pl: "plain_path d p" and "p \<noteq> []"
  shows "(if fileExists p d then os_call (RemoveAll p) d else (d, Inr ())) = (if node_at d p = None then d else cut_tree p d, Inr ())"
    and "q = p \<or> strict_prefix p q \<Longrightarrow> node_at (if node_at d p = None then d else cut_tree p d) q = None"
    and "\<not> prefix p q \<Longrightarrow> node_at (if node_at d p = None then d else cut_tree p d) q = node_at d q"
    and "disk_ok (if node_at d p = None then d else cut_tree p d)"
proof -
  note ok = plainD(1)[OF pl]
  have res: "resolve False p d = Inr p" if "node_at d p \<noteq> None"
    using that resolve_plain[OF pl, of False] node_dirs_above[OF ok] by auto
  have ex: "fileExists p d \<longleftrightarrow> node_at d p \<noteq> None" using Lstat_plain[OF pl] by (auto simp: fileExists_def split: option.splits)
  show run: "(if fileExists p d then os_call (RemoveAll p) d else (d, Inr ())) = (if node_at d p = None then d else cut_tree p d, Inr ())"
    using ex res assms(2) by (auto simp: os_call_def RemoveAll_def)
  have none: "node_at d q = None" if "node_at d p = None" "q = p \<or> strict_prefix p q" for q
    using that disk_ok_dir_above[OF ok, of q _ p] by (cases "node_at d q") (auto simp: is_dir_at_iff)
  show "q = p \<or> strict_prefix p q \<Longrightarrow> node_at (if node_at d p = None then d else cut_tree p d) q = None"
    "\<not> prefix p q \<Longrightarrow> node_at (if node_at d p = None then d else cut_tree p d) q = node_at d q"
    using assms(2) none by (auto simp: strict_prefix_def)
  show "disk_ok (if node_at d p = None then d else cut_tree p d)" using ok assms(2) by (simp add: disk_ok_cut_tree)
qed

text \<open>The new root: whatever was there is gone, and the directories above it are there.\<close>

lemma HardlinkDir_root:
  assumes old: "is_dir_at d old" and new: "plain_path d new" "new \<noteq> []" and ap: "apart old new"
  shows "\<exists>d2. HardlinkDir H old new d = foldM (link_one old new) (fastwalk H d2 old) () d2 \<and> disk_ok d2 \<and> inodes d2 = inodes d \<and>
    umask d2 = umask d \<and> is_dir_at d2 new \<and> (\<forall>rel. node_at d2 (old @ rel) = node_at d (old @ rel)) \<and>
    (\<forall>rel. rel \<noteq> [] \<longrightarrow> node_at d2 (new @ rel) = None) \<and>
    (\<forall>q. \<not> prefix new q \<longrightarrow> node_at d2 q = node_at d q \<or> node_at d q = None \<and> strict_prefix q new \<and> is_dir_at d2 q)"
proof -
  define d1 where "d1 = (if node_at d new = None then d else cut_tree new d)"
  note rm = remove_existing[OF new, folded d1_def]
  have fields: "inodes d1 = inodes d" "umask d1 = umask d" by (simp_all add: d1_def cut_tree_def)
  have olds: "node_at d1 (old @ rel) = node_at d (old @ rel)" for rel
    using rm(3)[of "old @ rel"] ap prefix_same_cases[of new "old @ rel" old] by (auto simp: apart_def)
  obtain m where m: "node_at d1 old = Some (Dir m)" using old olds[of "[]"] by (auto simp: is_dir_at_iff)
  have stat: "Lstat old d1 = Inr (Dir m)" using Lstat_plain[OF node_plain[OF rm(4) m]] m by simp
  have "clear_above d1 new" using plainD(3)[OF new(1)] rm(3)
    by (auto simp: clear_above_iff is_dir_at_def strict_prefix_def dest: prefix_order.antisym)
  then have pl: "plain_path d1 new" using rm(4) plainD(2)[OF new(1)] by (simp add: plain_path_def)
  obtain d2 where d2: "MkdirAll new (info_mode d1 (Dir m)) d1 = (d2, Inr ())" "made new (info_mode d1 (Dir m)) d1 d2"
    using MkdirAll_plain[OF pl] rm(2)[of new] by blast
  have at: "node_at d2 q = (if prefix q new \<and> node_at d1 q = None then Some (Dir (info_mode d1 (Dir m) AND ModePerm AND NOT (umask d1))) else node_at d1 q)"
    and ok2: "disk_ok d2" "inodes d2 = inodes d" "umask d2 = umask d" for q using d2(2) fields by (auto simp: made_def)
  have "HardlinkDir H old new d = foldM (link_one old new) (fastwalk H d2 old) () d2"
    using rm(1) stat d2(1) by (simp add: HardlinkDir_def andThen_def os_call_def)
  moreover have "is_dir_at d2 new" using at[of new] rm(2)[of new] by (simp add: is_dir_at_def)
  moreover have "node_at d2 (old @ rel) = node_at d (old @ rel)" for rel
    using at[of "old @ rel"] olds[of rel] ap by (auto simp: apart_def prefix_def)
  moreover have "node_at d2 (new @ rel) = None" if "rel \<noteq> []" for rel
    using at[of "new @ rel"] rm(2)[of "new @ rel"] that by (auto simp: strict_prefix_def)
  moreover have "node_at d2 q = node_at d q \<or> node_at d q = None \<and> strict_prefix q new \<and> is_dir_at d2 q" if "\<not> prefix new q" for q
    using at[of q] rm(3)[OF that] that by (auto simp: is_dir_at_def strict_prefix_def)
  ultimately show ?thesis using ok2 by blast
qed

lemma HardlinkDir_effect:
  assumes old: "is_dir_at d old" and new: "plain_path d new" "new \<noteq> []" and ap: "apart old new" and H: "walks H old"
  shows "\<exists>d'. HardlinkDir H old new d = (d', Inr ()) \<and> hardlinked old new d d'"
proof -
  obtain d2 where run: "HardlinkDir H old new d = foldM (link_one old new) (fastwalk H d2 old) () d2"
    and ok2: "disk_ok d2" "inodes d2 = inodes d" "umask d2 = umask d" and dir2: "is_dir_at d2 new"
    and olds: "\<And>rel. node_at d2 (old @ rel) = node_at d (old @ rel)" and none: "\<And>rel. rel \<noteq> [] \<Longrightarrow> node_at d2 (new @ rel) = None"
    and other: "\<forall>q. \<not> prefix new q \<longrightarrow> node_at d2 q = node_at d q \<or> node_at d q = None \<and> strict_prefix q new \<and> is_dir_at d2 q"
    using HardlinkDir_root[OF old new ap, of H] by auto
  have "is_dir_at d2 old" using olds[of "[]"] old by (simp add: is_dir_at_def)
  then obtain es where es: "fastwalk H d2 old = map Inr es" "walk_of d2 old es" using H ok2(1) by (auto simp: walks_def)
  then have set: "(rel, b) \<in> set es \<longleftrightarrow> (\<exists>n. node_at d2 (old @ rel) = Some n \<and> (b \<longleftrightarrow> is_dir (Inr n)))" for rel b by (simp add: walk_of_def)
  have parent: "(butlast rel, True) \<in> set es" if "(rel, b) \<in> set es" "rel \<noteq> []" for rel b
    using that disk_ok_dir_above[OF ok2(1), of "old @ rel" _ "old @ butlast rel"] butlast_strict_prefix[of rel]
    by (auto simp: set is_dir_at_iff is_dir_def strict_prefix_def)
  have places: "\<And>rel b. (rel, b) \<in> set es \<Longrightarrow> rel \<noteq> [] \<Longrightarrow> node_at d2 (new @ rel) = None \<and>
      (is_dir_at d2 (new @ butlast rel) \<or> (butlast rel, True) \<in> set es)" using none parent by simp
  have order: "distinct (map fst es)" "sorted_wrt (\<lambda>a b. \<not> strict_prefix (fst b) (fst a)) es" using es(2) by (simp_all add: walk_of_def)
  have nodes: "\<And>rel b. (rel, b) \<in> set es \<Longrightarrow> \<exists>n. node_at d2 (old @ rel) = Some n \<and> (b \<longleftrightarrow> is_dir (Inr n))" by (rule set[THEN iffD1])
  have "\<exists>d'. foldM (link_one old new) (map Inr es) () d2 = (d', Inr ()) \<and> disk_ok d' \<and> inodes d' = inodes d2 \<and> umask d' = umask d2 \<and>
      (\<forall>q. node_at d' q = linked_at old (fst ` set es) new d2 q)"
    by (rule link_all[OF ok2(1) plainD(2)[OF new(1)] dir2 ap order]) (fact nodes places)+
  then obtain d' where d': "foldM (link_one old new) (map Inr es) () d2 = (d', Inr ())" "disk_ok d'" "inodes d' = inodes d2" "umask d' = umask d2"
    and links: "\<And>q. node_at d' q = linked_at old (fst ` set es) new d2 q" by auto
  have walked: "rel \<in> fst ` set es \<longleftrightarrow> (\<exists>b. (rel, b) \<in> set es)" for rel by force
  have "link_node d2 = link_node d" by (auto simp: link_node_def info_mode_def ok2 fun_eq_iff split: node.splits)
  then have "node_at d' (new @ rel) = map_option (link_node d) (node_at d (old @ rel))" if "rel \<noteq> []" for rel
    using links[of "new @ rel"] olds[of rel] none[OF that] that walked[of rel, unfolded set] by (auto simp: linked_at_def)
  moreover have "node_at d' q = node_at d2 q" if "\<not> strict_prefix new q" for q using links[of q] that by (auto simp: linked_at_def strict_prefix_def)
  ultimately have "hardlinked old new d d'" unfolding hardlinked_def using d' ok2 dir2 other
    by (auto simp: is_dir_at_def strict_prefix_def)
  then show ?thesis using run es(1) d'(1) by auto
qed

end
