(* ===== verification/Daemon.thy ===== *)
theory Daemon
  imports LocalSafety Hardlinks
begin

text \<open>
  \<^verbatim>\<open>pkg/api/cached.go\<close>: the daemon that keeps a copy of the cache on a node and publishes it into volumes, as hard
  links; and the calls of \<open>CachedClient\<close> in \<^verbatim>\<open>pkg/client/client.go\<close>. Paths in requests are taken
  relative to the daemon's working directory. What \<^verbatim>\<open>access\<close> and \<^verbatim>\<open>statfs\<close> of the kernel answer is a parameter.
\<close>

section \<open>State and requests\<close>

record Cached =
  ca_Env :: Env
  ca_StagingPath :: path
  ca_currentVersion :: int

record kernel =
  access_write :: "path \<Rightarrow> disk \<Rightarrow> bool"
  statfs :: "path \<Rightarrow> disk \<Rightarrow> errno + 64 word \<times> 64 word"

record NodePublishVolumeRequest =
  pv_VolumeId :: string
  pv_TargetPath :: string
  pv_VolumeCapability :: bool
  pv_VolumeContext :: "(string \<times> string) list"

record VolumeUsage =
  vu_Available :: int
  vu_Total :: int
  vu_Used :: int

definition abs_path :: "path \<Rightarrow> string \<Rightarrow> path" where
  "abs_path cwd p = join_path (if HasPrefix p ''/'' then [] else cwd) p"

definition invalid :: "'a cio" where
  "invalid = fail (Rpc InvalidArgument)"

section \<open>The copy of the cache\<close>

definition Prepare :: "'w Client \<Rightarrow> Cached \<Rightarrow> 'w world \<Rightarrow> ('w world \<times> Cached \<times> (client_error + unit)) option" where
  "Prepare C c w =
     (case GetCache C (ca_StagingPath c) w of
        None \<Rightarrow> None
      | Some (w', Inl e) \<Rightarrow> Some (w', c, Inl e)
      | Some (w', Inr (version, n)) \<Rightarrow> Some (w', c\<lparr>ca_currentVersion := version\<rparr>, Inr ()))"

text \<open>The destination may be missing, or a directory that can be written.\<close>

definition check_destination :: "kernel \<Rightarrow> path \<Rightarrow> disk \<Rightarrow> client_error option" where
  "check_destination K destination d =
     (case Stat destination d of
        Inl e \<Rightarrow> if e = ENOENT then None else Some (Files (Os e))
      | Inr n \<Rightarrow>
          if \<not> is_dir (Inr n) then Some NotADirectory
          else if \<not> access_write K destination d then Some NotWritable else None)"

definition writeCache :: "'w Client \<Rightarrow> kernel \<Rightarrow> Cached \<Rightarrow> path \<Rightarrow> int cio" where
  "writeCache C K c destination d =
     (if ca_currentVersion c = 0 then (d, Inl CacheNotPrepared)
      else
        (case check_destination K destination d of
           Some e \<Rightarrow> (d, Inl e)
         | None \<Rightarrow> andThen (file_call (HardlinkDir (cl_host C) (ca_StagingPath c) destination)) (\<lambda>_. ret (ca_currentVersion c)) d))"

definition PopulateDiskCache :: "'w Client \<Rightarrow> kernel \<Rightarrow> Cached \<Rightarrow> string \<Rightarrow> int cio" where
  "PopulateDiskCache C K c destination =
     (if ca_Env c \<noteq> Dev \<and> ca_Env c \<noteq> Test then fail (Rpc Unimplemented)
      else writeCache C K c (abs_path (cl_cwd C) destination))"

section \<open>The identity and node services\<close>

definition DriverName :: string where
  "DriverName = ''com.gadget.dateilager.cached''"

definition GetPluginInfo :: "string \<Rightarrow> string \<times> string" where
  "GetPluginInfo version = (DriverName, version)"

definition GetPluginCapabilities :: "string list" where
  "GetPluginCapabilities = []"

definition Probe :: "Cached \<Rightarrow> bool" where
  "Probe c \<longleftrightarrow> ca_currentVersion c \<noteq> 0"

definition NodeGetCapabilities :: "string list" where
  "NodeGetCapabilities = []"

definition first :: "string \<Rightarrow> string \<Rightarrow> string" where
  "first one two = (if one = [] then two else one)"

definition NodeGetInfo :: "'w Client \<Rightarrow> string \<times> int" where
  "NodeGetInfo C = (first (cl_Getenv C ''NODE_NAME'') ''dev'', 110)"

text \<open>The place of the cache in the volume, and the permissions of the volume's root.\<close>

definition cache_place :: "path \<Rightarrow> (string \<times> string) list \<Rightarrow> path \<times> 32 word" where
  "cache_place target attributes =
     (case map_of attributes ''placeCacheAtPath'' of
        Some sub \<Rightarrow> (join_path target sub, 0x1FF)
      | None \<Rightarrow> (target, 0x1ED))"

definition NodePublishVolume :: "'w Client \<Rightarrow> kernel \<Rightarrow> Cached \<Rightarrow> NodePublishVolumeRequest \<Rightarrow> unit cio" where
  "NodePublishVolume C K c req =
     (if pv_VolumeId req = [] then invalid
      else if pv_TargetPath req = [] then invalid
      else if \<not> pv_VolumeCapability req then invalid
      else
        (let targetPath = abs_path (cl_cwd C) (pv_TargetPath req);
             (cachePath, targetPermissions) = cache_place targetPath (pv_VolumeContext req) in
         andThen (file_call (os_call (MkdirAll targetPath targetPermissions))) (\<lambda>_.
         andThen (file_call (os_call (Chmod targetPath targetPermissions))) (\<lambda>_.
         andThen (writeCache C K c cachePath) (\<lambda>version.
         ret ())))))"

definition NodeUnpublishVolume :: "'w Client \<Rightarrow> string \<Rightarrow> string \<Rightarrow> unit cio" where
  "NodeUnpublishVolume C volumeId target =
     (if volumeId = [] then invalid
      else if target = [] then invalid
      else file_call (os_call (RemoveAll (abs_path (cl_cwd C) target))))"

section \<open>Statistics\<close>

definition file_size :: "disk \<Rightarrow> node \<Rightarrow> nat" where
  "file_size d n = (case n of Reg i \<Rightarrow> length (get_data i d) | Sym t \<Rightarrow> length t | Dir m \<Rightarrow> 0)"

text \<open>\<^verbatim>\<open>filepath.Walk\<close> visits everything at and below its root and follows no link.\<close>

definition getFolderSize :: "path \<Rightarrow> disk \<Rightarrow> errno + int" where
  "getFolderSize path d =
     (case resolve False path d of
        Inl e \<Rightarrow> Inl e
      | Inr root \<Rightarrow>
          if node_at d root = None then Inl ENOENT
          else Inr (wrap64 (\<Sum>(p, n) \<leftarrow> nodes d. if prefix root p then int (file_size d n) else 0)))"

definition NodeGetVolumeStats :: "'w Client \<Rightarrow> kernel \<Rightarrow> string \<Rightarrow> string \<Rightarrow> disk \<Rightarrow> client_error + VolumeUsage list" where
  "NodeGetVolumeStats C K volumeId volumePath d =
     (if volumeId = [] then Inl (Rpc InvalidArgument)
      else if volumePath = [] then Inl (Rpc InvalidArgument)
      else
        (let path = abs_path (cl_cwd C) volumePath in
         case getFolderSize path d of
           Inl e \<Rightarrow> Inl (Rpc Internal)
         | Inr usedBytes \<Rightarrow>
             (case statfs K path d of
                Inl e \<Rightarrow> Inl (Rpc Internal)
              | Inr (bavail, bsize) \<Rightarrow>
                  (let freeBytes = bavail * bsize in
                   if uint freeBytes > 2 ^ 63 - 1 then Inl (Rpc Internal)
                   else Inr [\<lparr>vu_Available = uint freeBytes, vu_Total = wrap64 (uint freeBytes + usedBytes), vu_Used = usedBytes\<rparr>]))))"

section \<open>The client of the daemon\<close>

record 'w CachedClient =
  cc_PopulateDiskCache :: "string \<Rightarrow> 'w \<Rightarrow> 'w \<times> (client_error + int)"
  cc_Probe :: "'w \<Rightarrow> client_error + bool"
  cc_NodeGetVolumeStats :: "string \<Rightarrow> string \<Rightarrow> 'w \<Rightarrow> client_error + VolumeUsage list"

definition client_PopulateDiskCache :: "'w CachedClient \<Rightarrow> string \<Rightarrow> 'w \<Rightarrow> 'w \<times> (client_error + int)" where
  "client_PopulateDiskCache S destination = cc_PopulateDiskCache S destination"

definition client_Probe :: "'w CachedClient \<Rightarrow> 'w \<Rightarrow> client_error + bool" where
  "client_Probe S = cc_Probe S"

text \<open>The request is empty.\<close>

definition client_NodeGetVolumeStats :: "'w CachedClient \<Rightarrow> 'w \<Rightarrow> client_error + VolumeUsage list" where
  "client_NodeGetVolumeStats S = cc_NodeGetVolumeStats S [] []"

text \<open>The daemon behind its own client.\<close>

definition daemon_stub :: "'w Client \<Rightarrow> kernel \<Rightarrow> Cached \<Rightarrow> disk CachedClient" where
  "daemon_stub C K c =
     \<lparr>cc_PopulateDiskCache = PopulateDiskCache C K c, cc_Probe = (\<lambda>d. Inr (Probe c)),
      cc_NodeGetVolumeStats = NodeGetVolumeStats C K\<rparr>"

section \<open>The invariant is kept\<close>

lemma abs_path_good: "list_all good_name cwd \<Longrightarrow> list_all good_name (abs_path cwd p)"
  by (simp add: abs_path_def)

lemma keeps_writeCache [keeps_intros]:
  assumes "list_all good_name destination"
  shows "keeps_ok (writeCache C K c destination)"
proof (rule keeps_okI)
  fix d assume d: "disk_ok d"
  have "keeps_ok (andThen (file_call (HardlinkDir (cl_host C) (ca_StagingPath c) destination)) (\<lambda>_. ret (ca_currentVersion c)))"
    by (intro keeps_intros assms)
  with d show "disk_ok (fst (writeCache C K c destination d))" by (auto simp: writeCache_def split: option.splits dest: keeps_okD)
qed

lemma keeps_invalid [keeps_intros]: "keeps_ok invalid"
  unfolding invalid_def by (intro keeps_intros)

lemma keeps_PopulateDiskCache: "list_all good_name (cl_cwd C) \<Longrightarrow> keeps_ok (PopulateDiskCache C K c destination)"
  unfolding PopulateDiskCache_def by (intro keeps_intros abs_path_good)

lemma cache_place_good: "list_all good_name t \<Longrightarrow> list_all good_name (fst (cache_place t attrs))"
  by (simp add: cache_place_def split: option.splits)

lemma keeps_NodePublishVolume: "list_all good_name (cl_cwd C) \<Longrightarrow> keeps_ok (NodePublishVolume C K c req)"
  unfolding NodePublishVolume_def Let_def case_prod_beta
  by (intro keeps_intros abs_path_good cache_place_good)

lemma keeps_NodeUnpublishVolume: "keeps_ok (NodeUnpublishVolume C v t)"
  unfolding NodeUnpublishVolume_def by (intro keeps_intros)

lemma Prepare_world_ok: "list_all good_name (ca_StagingPath c) \<Longrightarrow> world_ok w \<Longrightarrow> Prepare C c w = Some (w', c', x) \<Longrightarrow> world_ok w'"
  using GetCache_world_ok by (fastforce simp: Prepare_def split: option.splits sum.splits)

section \<open>Publishing\<close>

text \<open>The root of the volume.\<close>

lemma volume_root:
  assumes pl: "plain_path d target" "target \<noteq> []" and "node_at d target = None \<or> is_dir_at d target"
  shows "\<exists>d2. andThen (file_call (os_call (MkdirAll target perm))) (\<lambda>_. file_call (os_call (Chmod target perm))) d = (d2, Inr ()) \<and>
    disk_ok d2 \<and> inodes d2 = inodes d \<and> umask d2 = umask d \<and> node_at d2 target = Some (Dir (perm AND ModePerm)) \<and>
    (\<forall>q. q \<noteq> target \<longrightarrow> node_at d2 q = node_at d q \<or> node_at d q = None \<and> strict_prefix q target \<and> is_dir_at d2 q)"
proof -
  obtain d1 where d1: "MkdirAll target perm d = (d1, Inr ())" "made target perm d d1" using MkdirAll_plain[OF pl(1) assms(3)] by blast
  then have at: "node_at d1 q = (if prefix q target \<and> node_at d q = None then Some (Dir (perm AND ModePerm AND NOT (umask d))) else node_at d q)"
    and ok1: "disk_ok d1" "inodes d1 = inodes d" "umask d1 = umask d" for q by (auto simp: made_def)
  obtain m where m: "node_at d1 target = Some (Dir m)" using at[of target] assms(3) by (auto simp: is_dir_at_iff)
  have res: "resolve True target d1 = Inr target"
    using resolve_plain[OF node_plain[OF ok1(1) m], of True] node_dirs_above[OF ok1(1) m] m by simp
  let ?d = "put_node target (Dir (perm AND ModePerm)) d1"
  have ch: "Chmod target perm d1 = (?d, Inr ())" using res m pl(2) by (simp add: Chmod_def)
  have "disk_ok ?d" using keeps_okD[OF keeps_Chmod ok1(1), of target perm] plainD(2)[OF pl(1)] ch by simp
  moreover have "\<forall>q. q \<noteq> target \<longrightarrow> node_at ?d q = node_at d q \<or> node_at d q = None \<and> strict_prefix q target \<and> is_dir_at ?d q"
    using at pl(2) by (auto simp: is_dir_at_def strict_prefix_def)
  ultimately show ?thesis using d1(1) ch ok1 pl(2) by (simp add: andThen_def file_call_def os_call_def)
qed

text \<open>A destination that is missing or a directory.\<close>

lemma writeCache_effect:
  assumes c: "ca_currentVersion c \<noteq> 0" and old: "is_dir_at d (ca_StagingPath c)" and pl: "plain_path d p" "p \<noteq> []"
    and "node_at d p = None \<or> is_dir_at d p" and "access_write K p d" and "apart (ca_StagingPath c) p" and "walks (cl_host C) (ca_StagingPath c)"
  shows "\<exists>d'. writeCache C K c p d = (d', Inr (ca_currentVersion c)) \<and> hardlinked (ca_StagingPath c) p d d'"
proof -
  have "check_destination K p d = None"
    using Stat_plain[OF pl(1)] assms(5,6) by (auto simp: check_destination_def is_dir_at_iff is_dir_def)
  then show ?thesis using HardlinkDir_effect[OF old pl assms(7,8)] c
    by (auto simp: writeCache_def andThen_def file_call_def)
qed

definition publishable :: "'w Client \<Rightarrow> kernel \<Rightarrow> Cached \<Rightarrow> path \<Rightarrow> path \<Rightarrow> disk \<Rightarrow> bool" where
  "publishable C K c target place d \<longleftrightarrow> ca_currentVersion c \<noteq> 0 \<and> is_dir_at d (ca_StagingPath c) \<and>
     target \<noteq> [] \<and> prefix target place \<and> plain_path d place \<and> apart (ca_StagingPath c) target \<and>
     (node_at d target = None \<or> is_dir_at d target) \<and> (node_at d place = None \<or> is_dir_at d place) \<and>
     (\<forall>d. access_write K place d) \<and> walks (cl_host C) (ca_StagingPath c)"

lemma apart_below: "apart p q \<Longrightarrow> prefix q r \<Longrightarrow> apart p r"
  by (meson apart_def prefix_order.trans prefix_same_cases)

lemma publish_effect:
  fixes perm :: "32 word"
  assumes pub: "publishable C K c target place d"
  shows "\<exists>d'. andThen (file_call (os_call (MkdirAll target perm))) (\<lambda>_. andThen (file_call (os_call (Chmod target perm))) (\<lambda>_.
      andThen (writeCache C K c place) (\<lambda>_. ret ()))) d = (d', Inr ()) \<and>
    disk_ok d' \<and> inodes d' = inodes d \<and> is_dir_at d' place \<and>
    (\<forall>rel. rel \<noteq> [] \<longrightarrow> node_at d' (place @ rel) = map_option (link_node d) (node_at d (ca_StagingPath c @ rel))) \<and>
    (\<forall>q. \<not> prefix target q \<longrightarrow> node_at d' q = node_at d q \<or> node_at d q = None \<and> strict_prefix q target \<and> is_dir_at d' q)"
proof -
  let ?s = "ca_StagingPath c"
  note pub = pub[unfolded publishable_def]
  obtain d2 where d2: "andThen (file_call (os_call (MkdirAll target perm))) (\<lambda>_. file_call (os_call (Chmod target perm))) d = (d2, Inr ())"
    "disk_ok d2" "inodes d2 = inodes d" "umask d2 = umask d" "node_at d2 target = Some (Dir (perm AND ModePerm))"
    and at: "\<And>q. q \<noteq> target \<Longrightarrow> node_at d2 q = node_at d q \<or> node_at d q = None \<and> strict_prefix q target \<and> is_dir_at d2 q"
    using volume_root[OF plain_prefix] pub by blast
  have dirs: "node_at d q = None \<or> is_dir_at d q \<Longrightarrow> node_at d2 q = None \<or> is_dir_at d2 q" for q
    using at[of q] d2(5) by (cases "q = target") (auto simp: is_dir_at_def)
  have staged: "node_at d2 (?s @ rel) = node_at d (?s @ rel)" for rel
  proof -
    have "\<not> prefix (?s @ rel) target" using pub append_prefixD[of ?s rel target] by (auto simp: apart_def)
    then show ?thesis using at[of "?s @ rel"] by (auto simp: strict_prefix_def)
  qed
  have pl: "plain_path d2 place" using pub d2(2) dirs by (auto simp: plain_path_def clear_above_iff)
  have "place \<noteq> []" "apart ?s place" using pub apart_below by auto
  moreover have "is_dir_at d2 ?s" using pub staged[of "[]"] by (simp add: is_dir_at_def)
  ultimately obtain d' where d': "writeCache C K c place d2 = (d', Inr (ca_currentVersion c))" "hardlinked ?s place d2 d'"
    using writeCache_effect[of c d2 place K C] pl pub dirs[of place] by blast
  have same: "link_node d2 = link_node d" by (auto simp: link_node_def info_mode_def d2(4) fun_eq_iff split: node.splits)
  have "node_at d' q = node_at d q \<or> node_at d q = None \<and> strict_prefix q target \<and> is_dir_at d' q" if q: "\<not> prefix target q" for q
  proof -
    have "\<not> prefix place q" "q \<noteq> target" using q pub by (auto dest: prefix_order.trans)
    moreover have "strict_prefix q place \<Longrightarrow> strict_prefix q target"
      using q pub prefix_same_cases[of q place target] by (auto simp: strict_prefix_def)
    ultimately show ?thesis using d'(2) at[of q] by (auto simp: hardlinked_def is_dir_at_def)
  qed
  moreover have "andThen (file_call (os_call (MkdirAll target perm))) (\<lambda>_. andThen (file_call (os_call (Chmod target perm))) (\<lambda>_.
      andThen (writeCache C K c place) (\<lambda>_. ret ()))) d = (d', Inr ())"
    using d2(1) d'(1) by (auto simp: andThen_def split: prod.splits sum.splits)
  ultimately show ?thesis using d2(3) d'(2) staged same unfolding hardlinked_def by auto
qed

text \<open>The whole call, and taking the volume away again.\<close>

lemma NodePublishVolume_valid:
  assumes "pv_VolumeId req \<noteq> []" and "pv_TargetPath req \<noteq> []" and "pv_VolumeCapability req"
    and "cache_place (abs_path (cl_cwd C) (pv_TargetPath req)) (pv_VolumeContext req) = (place, perm)"
  shows "NodePublishVolume C K c req =
    andThen (file_call (os_call (MkdirAll (abs_path (cl_cwd C) (pv_TargetPath req)) perm))) (\<lambda>_.
    andThen (file_call (os_call (Chmod (abs_path (cl_cwd C) (pv_TargetPath req)) perm))) (\<lambda>_.
    andThen (writeCache C K c place) (\<lambda>_. ret ())))"
  using assms by (simp add: NodePublishVolume_def Let_def)

lemma Unpublish_effect:
  assumes d: "disk_ok d" "is_dir_at d (abs_path (cl_cwd C) t)" and "v \<noteq> []" "t \<noteq> []" "abs_path (cl_cwd C) t \<noteq> []"
  shows "NodeUnpublishVolume C v t d = (cut_tree (abs_path (cl_cwd C) t) d, Inr ())"
proof -
  let ?p = "abs_path (cl_cwd C) t"
  obtain m where m: "node_at d ?p = Some (Dir m)" using d(2) by (auto simp: is_dir_at_iff)
  have "resolve False ?p d = Inr ?p" using resolve_plain[OF node_plain[OF d(1) m], of False] node_dirs_above[OF d(1) m] by simp
  then show ?thesis using assms(3-5) by (simp add: NodeUnpublishVolume_def file_call_def os_call_def RemoveAll_def)
qed

end
