(* ===== verification/Outcomes.thy ===== *)
theory Outcomes
  imports Daemon Rebuilds
begin

text \<open>
  How the calls of the client end: with a worker every call returns; without one, \<open>Rebuild\<close> records a version whose files
  it has not written, or waits for ever. The string of a snapshot is read back by \<open>Reset\<close>. After an \<open>Update\<close> that the service
  refuses, the changes are no longer seen.
\<close>

section \<open>Calls return\<close>

lemma run_group_returns: "0 < n \<Longrightarrow> 0 < cap \<Longrightarrow> \<exists>x. run_group n cap check wr sched msgs e v s = Some x"
  using run_pool_ends[OF served_start, of "nat n" cap check wr sched "hd msgs" "tl msgs" e v s] by (auto simp: run_group_def)

lemma rebuild_disk_returns:
  assumes "0 < parallelWorkerCount C"
  shows "\<exists>x. rebuild_disk C dir cacheDir m b msgs status d = Some x"
proof -
  obtain d1 y where d1: "ensureMetadataDir dir d = (d1, y)" by fastforce
  obtain t z where "run_group (parallelWorkerCount C) 32 checkVersion (write_response C dir cacheDir m) (cl_sched C)
      msgs (map_option Rpc status) 0 (newResultTracker d1) = Some (t, z)"
    using run_group_returns[OF assms, of 32] by fastforce
  then show ?thesis using d1 by (cases y; cases z) (simp_all add: rebuild_disk_def)
qed

lemma Rebuild_returns:
  assumes "0 < parallelWorkerCount C"
  shows "\<exists>x. Rebuild C project pfx toV dir ignores cacheDir m b w = Some x"
proof (cases "ReadVersionFile dir (w_disk w)")
  case (Inr fv)
  show ?thesis
    using Inr rebuild_disk_returns[OF assms, of dir cacheDir m b]
    by (auto simp: Rebuild_def split: prod.splits sum.splits) (metis surj_pair)+
qed (simp add: Rebuild_def)

lemma client_Update_returns:
  assumes "0 < parallelWorkerCount C"
  shows "\<exists>x. client_Update C project dir w = Some x"
proof -
  have "run_readers (parallelWorkerCount C) 32 (read_update dir d) (cl_sched C) us \<noteq> None" for d us
    using run_readers_returns[OF assms, of 32 "read_update dir d" "cl_sched C" us] by auto
  then show ?thesis using Rebuild_returns[OF assms, of project "[]" None dir "[]" "cl_cwd C" None True]
    by (auto simp: client_Update_def Let_def split: prod.splits sum.splits option.splits) (metis option.distinct(1))
qed

lemma GetCache_returns:
  assumes "0 < parallelWorkerCount C"
  shows "\<exists>x. GetCache C root w = Some x"
proof -
  have "\<exists>x. fetch_cache C root w = Some x" for w
  proof -
    obtain w1 y where w1: "remote (pb_GetCache (cl_fs C)) w = (w1, y)" by fastforce
    obtain d n z where "run_group (parallelWorkerCount C) 16 (sameCacheVersion (rk_Version (hd (fst (projr y))))) (write_cached C root) (cl_sched C)
        (fst (projr y)) (map_option (\<lambda>_. NilResponse) (snd (projr y))) () (w_disk w1, 0) = Some ((d, n), z)"
      using run_group_returns[OF assms, of 16 "sameCacheVersion (rk_Version (hd (fst (projr y))))" "write_cached C root" "cl_sched C"
          "fst (projr y)" "map_option (\<lambda>_. NilResponse) (snd (projr y))" "()" "(w_disk w1, 0)"] by fastforce
    then show ?thesis using w1 by (cases y; cases z) (auto simp: fetch_cache_def Let_def)
  qed
  then show ?thesis by (auto simp: GetCache_def Let_def split: prod.splits sum.splits) (metis surj_pair)+
qed

section \<open>Without workers\<close>

lemma run_pool_unserved:
  assumes "pl_workers p = []" and "pl_held p = Some r" and "pl_source p = rs" and "pl_err p = None" and "pl_end p = None"
    and "length (pl_chan p) \<le> cap" and "accepted_msgs check (r # rs) (pl_seen p) = (r # rs, Inr v)"
  shows "map_option group_result (run_pool cap check wr sched p) =
    (if length (pl_chan p) + length (r # rs) \<le> cap then Some (pl_state p, Inr v) else None)"
  using assms
proof (induction rs arbitrary: r p)
  case (Nil r p)
  then obtain v' where v: "check r (pl_seen p) = Inr v'" by (auto split: sum.splits)
  have nd: "\<not> pool_done p" using Nil by (simp add: pool_done_def)
  show ?case
  proof (cases "length (pl_chan p) < cap")
    case True
    then have m: "pool_moves cap check wr p = [send_held r v' p]" using Nil v by (simp add: pool_moves_def receiver_moves_def)
    let ?q = "send_held r v' p"
    have "pool_done ?q" "group_result ?q = (pl_state p, Inr v)" using Nil v
      by (simp_all add: pool_done_def pool_effects group_result_def first_error_def)
    then show ?thesis using True nd m by (simp add: run_pool.simps[of _ _ _ _ p] run_pool.simps[of _ _ _ _ ?q])
  next
    case False
    then have "pool_moves cap check wr p = []" using Nil v by (simp add: pool_moves_def receiver_moves_def)
    then show ?thesis using nd False by (simp add: run_pool.simps[of _ _ _ _ p])
  qed
next
  case (Cons r' rs r p)
  then obtain v' where v: "check r (pl_seen p) = Inr v'" by (auto split: sum.splits)
  have nd: "\<not> pool_done p" using Cons.prems by (simp add: pool_done_def)
  show ?case
  proof (cases "length (pl_chan p) < cap")
    case True
    then have m: "pool_moves cap check wr p = [send_held r v' p]" using Cons.prems v by (simp add: pool_moves_def receiver_moves_def)
    let ?q = "send_held r v' p"
    have q: "pl_workers ?q = []" "pl_held ?q = Some r'" "pl_source ?q = rs" "pl_err ?q = None" "pl_end ?q = None"
      "length (pl_chan ?q) = Suc (length (pl_chan p))" "pl_seen ?q = v'" "pl_state ?q = pl_state p"
      using Cons.prems by (simp_all add: pool_effects)
    have "accepted_msgs check (r' # rs) (pl_seen ?q) = (r' # rs, Inr v)"
      using Cons.prems(7) v q(7) by (auto split: prod.splits)
    from Cons.IH[OF q(1-5) _ this] show ?thesis using True nd m q by (simp add: run_pool.simps[of _ _ _ _ p])
  next
    case False
    then have "pool_moves cap check wr p = []" using Cons.prems v by (simp add: pool_moves_def receiver_moves_def)
    then show ?thesis using nd False by (simp add: run_pool.simps[of _ _ _ _ p])
  qed
qed

lemma run_group_unserved:
  assumes "n \<le> 0" and "msgs \<noteq> []" and "accepted_msgs check msgs v = (msgs, Inr w)"
  shows "run_group n cap check wr sched msgs None v s = (if length msgs \<le> cap then Some (s, Inr w) else None)"
proof -
  obtain r rs where msgs: "msgs = r # rs" using assms(2) by (cases msgs) auto
  show ?thesis
    using run_pool_unserved[of "pool_start (nat n) r rs None v s" r rs cap check w wr sched] assms msgs
    by (simp add: run_group_def pool_start_def)
qed

lemma unserved_rebuild_disk:
  assumes l: "local_dir d dir" "unshared dir d" and C: "parallelWorkerCount C \<le> 0"
    and msgs: "msgs \<noteq> []" "\<forall>r \<in> set msgs. rc_Version r = v" "is_int64 v"
  shows "if length msgs \<le> 32
    then \<exists>d'. rebuild_disk C dir cacheDir m False msgs None d = Some (d', Inr (emptyResult v)) \<and> ReadVersionFile dir d' = Inr v \<and>
      (\<forall>q. outside_metadata dir q \<longrightarrow> leaf_at d' q = leaf_at d q)
    else rebuild_disk C dir cacheDir m False msgs None d = None"
proof -
  obtain d1 where d1: "ensureMetadataDir dir d = (d1, Inr ())" "disk_ok d1" "inodes d1 = inodes d" "is_dir_at d1 (dir @ [metadataDir])"
    and same: "\<forall>q. q \<noteq> dir @ [metadataDir] \<longrightarrow> node_at d1 q = node_at d q"
    using ensureMetadataDir_effect[OF l(1)] by blast
  have "accepted_msgs checkVersion msgs 0 = (msgs, Inr v)" using accepted_same[OF msgs(2), of 0] msgs(1) by simp
  from run_group_unserved[OF C msgs(1) this, of 32 "write_response C dir cacheDir m" "cl_sched C" "newResultTracker d1"]
  have run: "run_group (parallelWorkerCount C) 32 checkVersion (write_response C dir cacheDir m) (cl_sched C) msgs None 0 (newResultTracker d1) =
    (if length msgs \<le> 32 then Some (newResultTracker d1, Inr v) else None)" .
  have res: "tracker_result v (newResultTracker d1) = emptyResult v" "tk_disk (newResultTracker d1) = d1"
    by (simp_all add: tracker_result_def newResultTracker_def emptyResult_def)
  note l1 = metadata_made(1)[OF l(1) d1(2,4) same] and un1 = metadata_made(2)[OF l(1) d1(2,4) same l(2)]
  have "effect dir [] (\<lambda>_. None) d1 d1" using d1(2) un1 by (simp add: effect_none)
  from finish_rebuild_effect[OF this _ l1 d1(4), of "emptyResult v" C]
  obtain d' where d': "finish_rebuild C dir False (emptyResult v) d1 = (d', Inr (emptyResult v))" "ReadVersionFile dir d' = Inr v"
    and leaf: "\<forall>q. outside_metadata dir q \<longrightarrow> leaf_at d' q = leaf_at d1 q" using msgs(3) by (auto simp: emptyResult_def)
  have "leaf_at d1 q = leaf_at d q" if "outside_metadata dir q" for q
    using that same d1(3) by (intro leaf_at_cong) (auto simp: outside_metadata_iff)
  then show ?thesis using d1(1) run res d' leaf by (auto simp: rebuild_disk_def)
qed

section \<open>Snapshots as strings\<close>

lemma parse_state: "is_int64 (fst p) \<Longrightarrow> is_int64 (snd p) \<Longrightarrow>
    parse_projects (project_state p # rest) = (case parse_projects rest of Inl e \<Rightarrow> Inl e | Inr ps \<Rightarrow> Inr (p # ps))"
proof -
  assume ints: "is_int64 (fst p)" "is_int64 (snd p)"
  have "CHR ''='' \<notin> set (FormatInt n)" for n using FormatInt_chars[of "CHR ''=''" n] by (auto simp: is_digit_def char_digit_def)
  then have "Split (project_state p) CHR ''='' = [FormatInt (fst p), FormatInt (snd p)]"
    by (simp add: project_state_def Split_append_sep Split_no_occurrence)
  then show ?thesis using ints by (simp add: ParseInt_FormatInt split: sum.splits)
qed

lemma parse_states: "list_all (\<lambda>p. is_int64 (fst p) \<and> is_int64 (snd p)) ps \<Longrightarrow> parse_projects (map project_state ps) = Inr ps"
  by (induction ps) (simp_all add: parse_state del: parse_projects.simps(2))

lemma snapshot_string:
  assumes "ps \<noteq> []" and "list_all (\<lambda>p. is_int64 (fst p) \<and> is_int64 (snd p)) ps"
  shows "parse_projects (Split (Join (map project_state ps) '','') CHR '','') = Inr ps"
proof -
  have "CHR '','' \<notin> set (FormatInt n)" for n using FormatInt_chars[of "CHR '',''" n] by (auto simp: is_digit_def char_digit_def)
  then have "CHR '','' \<notin> set s" if "s \<in> set (map project_state ps)" for s using that by (auto simp: project_state_def)
  then show ?thesis using Split_Join[of "map project_state ps" "CHR '',''"] parse_states[OF assms(2)] assms(1) by simp
qed

section \<open>A refused update\<close>

text \<open>
  What the code relies on in \<^verbatim>\<open>fsdiff\<close>: a summary that was written is read back and can be written again, writing it changes no other file, and
  a directory that has not changed since has no differences to the summary taken of it.
\<close>

definition fsdiff_ok :: "host \<Rightarrow> path \<Rightarrow> bool" where
  "fsdiff_ok H dir \<longleftrightarrow>
     (\<forall>s d d'. disk_ok d \<longrightarrow> WriteSummary H (summaryFile dir) s d = (d', Inr ()) \<longrightarrow>
        ReadSummary H (summaryFile dir) d' = Inr s \<and> (\<exists>d''. WriteSummary H (summaryFile dir) s d' = (d'', Inr ())) \<and>
        (\<forall>q. q \<noteq> summaryFile dir \<longrightarrow> node_at d' q = node_at d q \<and> leaf_at d' q = leaf_at d q)) \<and>
     (\<forall>s d us s' d'. fsdiff_Diff H dir fsdiffIgnores s d = Inr (us, s') \<longrightarrow>
        (\<forall>q. \<not> prefix (dir @ [metadataDir]) q \<longrightarrow> node_at d' q = node_at d q \<and> leaf_at d' q = leaf_at d q) \<longrightarrow>
        fsdiff_Diff H dir fsdiffIgnores s' d' = Inr ([], s'))"

lemma ensureMetadataDir_there:
  assumes "local_dir d dir" and "is_dir_at d (dir @ [metadataDir])"
  shows "ensureMetadataDir dir d = (d, Inr ())"
proof -
  obtain m where m: "node_at d (dir @ [metadataDir]) = Some (Dir m)" using assms(2) by (auto simp: is_dir_at_iff)
  then show ?thesis using Stat_plain[OF local_dir_plain(1)[OF assms(1)]]
    by (simp add: ensureMetadataDir_def file_call_def os_call_def MkdirAll.simps is_dir_def)
qed

lemma DiffAndSummarize_steps:
  assumes run: "DiffAndSummarize H dir d = (d1, Inr us)" and d0: "ensureMetadataDir dir d = (d0, Inr ())"
  shows "\<exists>s s'. fsdiff_Diff H dir fsdiffIgnores s d0 = Inr (us, s') \<and> WriteSummary H (summaryFile dir) s' d0 = (d1, Inr ())"
proof -
  define R where "R = (case ReadSummary H (summaryFile dir) d0 of Inl e \<Rightarrow> if e = ENOENT then Inr [] else Inl (Files (Os e)) | Inr s \<Rightarrow> Inr s)"
  note unfold = DiffAndSummarize_def andThen_def ret_def reading_def file_call_def os_call_def R_def[symmetric] d0
  obtain s where s: "R = Inr s" using run by (cases R) (simp_all add: unfold)
  obtain us' s' where d: "fsdiff_Diff H dir fsdiffIgnores s d0 = Inr (us', s')"
    using run s by (cases "fsdiff_Diff H dir fsdiffIgnores s d0") (simp_all add: unfold, fastforce)
  obtain d2 x where "WriteSummary H (summaryFile dir) s' d0 = (d2, x)" by fastforce
  then show ?thesis using run s d by (cases x) (auto simp: unfold)
qed

lemma DiffAndSummarize_settles:
  assumes H: "fsdiff_ok H dir" "summaries_ok H" and l: "local_dir d dir" and run: "DiffAndSummarize H dir d = (d1, Inr us)"
  shows "\<exists>d2. DiffAndSummarize H dir d1 = (d2, Inr [])" and "local_dir d1 dir"
    and "leaf_at d1 (versionFile dir) = leaf_at d (versionFile dir)"
proof -
  let ?m = "dir @ [metadataDir]" and ?p = "summaryFile dir"
  obtain d0 where d0: "ensureMetadataDir dir d = (d0, Inr ())" "disk_ok d0" "inodes d0 = inodes d" "is_dir_at d0 ?m"
    "\<forall>q. q \<noteq> ?m \<longrightarrow> node_at d0 q = node_at d q" using ensureMetadataDir_effect[OF l] by blast
  obtain s s' where diff: "fsdiff_Diff H dir fsdiffIgnores s d0 = Inr (us, s')" and wr: "WriteSummary H ?p s' d0 = (d1, Inr ())"
    using DiffAndSummarize_steps[OF run d0(1)] by blast
  have good: "list_all good_name dir" using is_dir_at_good l by (auto simp: local_dir_def)
  have sum: "ReadSummary H ?p d1 = Inr s'" "\<exists>d''. WriteSummary H ?p s' d1 = (d'', Inr ())"
    and frame: "\<And>q. q \<noteq> ?p \<Longrightarrow> node_at d1 q = node_at d0 q \<and> leaf_at d1 q = leaf_at d0 q"
    using H(1) wr d0(2) unfolding fsdiff_ok_def by blast+
  have "keeps_ok (WriteSummary H ?p s')" using H(2) good by (simp add: summaries_ok_def summaryFile_def metadataDir_def good_name_def)
  then have ok1: "disk_ok d1" using keeps_okD[OF _ d0(2)] wr by fastforce
  have ne: "?p \<noteq> ?m" "?p \<noteq> dir" "?p \<noteq> versionFile dir" "dir \<noteq> ?m" "versionFile dir \<noteq> ?m" by (auto simp: summaryFile_def versionFile_def)
  have m1: "is_dir_at d1 ?m" using frame[of ?m] d0(4) ne by (simp add: is_dir_at_def)
  show l1: "local_dir d1 dir" using l ok1 m1 frame[of dir] frame[of "versionFile dir"] d0(5) ne by (auto simp: local_dir_def is_dir_at_def)
  have "leaf_at d0 (versionFile dir) = leaf_at d (versionFile dir)" using d0(3,5) ne by (intro leaf_at_cong) auto
  then show "leaf_at d1 (versionFile dir) = leaf_at d (versionFile dir)" using frame[of "versionFile dir"] ne by simp
  have "\<And>q. \<not> prefix ?m q \<Longrightarrow> node_at d1 q = node_at d0 q \<and> leaf_at d1 q = leaf_at d0 q"
    using frame prefixI[of ?p ?m "[''sum.s2'']"] by (metis (no_types) append.assoc append_Cons append_Nil summaryFile_def)
  then have "fsdiff_Diff H dir fsdiffIgnores s' d1 = Inr ([], s')" using H(1) diff unfolding fsdiff_ok_def by blast
  then show "\<exists>d2. DiffAndSummarize H dir d1 = (d2, Inr [])" using sum ensureMetadataDir_there[OF l1 m1]
    by (auto simp: DiffAndSummarize_def andThen_def ret_def reading_def file_call_def os_call_def)
qed

lemma ReadVersionFile_same:
  assumes "local_dir d dir" and "local_dir d' dir" and "leaf_at d' (versionFile dir) = leaf_at d (versionFile dir)"
  shows "ReadVersionFile dir d' = ReadVersionFile dir d"
proof -
  have "ReadFile (versionFile dir) e = (case leaf_at e (versionFile dir) of Some (LFile b) \<Rightarrow> Inr b | _ \<Rightarrow> Inl ENOENT)"
    if "local_dir e dir" for e
    using that Stat_plain[OF local_dir_plain(2)[OF that]]
    by (auto simp: ReadFile_def leaf_at_def local_dir_def split: option.splits node.splits)
  then show ?thesis using assms by (simp add: ReadVersionFile_def)
qed

lemma refused_update:
  assumes H: "fsdiff_ok (cl_host C) dir" "summaries_ok (cl_host C)" and l: "local_dir (w_disk w) dir"
    and r: "client_Update C project dir w = Some (w1, Inl (Rpc c))"
    and refused: "\<And>obs. pb_Update (cl_fs C) obs (w_remote w) = (w_remote w, Inl c)"
  shows "\<exists>w2 v. client_Update C project dir w1 = Some (w2, Inr (v, 0)) \<and> ReadVersionFile dir (w_disk w) = Inr v \<and> w_remote w2 = w_remote w"
proof -
  have nodiff: "DiffAndSummarize (cl_host C) dir d \<noteq> (d', Inl (Rpc c))" for d d'
    by (auto simp: DiffAndSummarize_def andThen_def ret_def reading_def ensureMetadataDir_def file_call_def os_call_def split: prod.splits sum.splits if_splits)
  obtain fv where fv: "ReadVersionFile dir (w_disk w) = Inr fv"
    using r by (auto simp: client_Update_def ReadVersionFile_def split: sum.splits if_splits option.splits)
  obtain d1 y where d1: "DiffAndSummarize (cl_host C) dir (w_disk w) = (d1, y)" by fastforce
  then obtain us where us: "y = Inr us" "us \<noteq> []"
    using r fv nodiff by (cases y) (auto simp: client_Update_def local_call_def split: if_splits)
  have "read_update dir d u \<noteq> Inl (Rpc c)" for d u
    by (auto simp: read_update_def ObjectFromFilePath_def Let_def split: sum.splits if_splits)
  then have noread: "run_readers n 32 (read_update dir d) sched xs \<noteq> Some (Inl (Rpc c))" for n d sched xs
    using run_readers_error by metis
  have w1: "w1 = w\<lparr>w_disk := d1\<rparr>"
    using r fv d1 us refused noread by (auto simp: client_Update_def local_call_def remote_def split: if_splits sum.splits option.splits)
  note s = DiffAndSummarize_settles[OF H l d1[unfolded us(1)]]
  obtain d2 where d2: "DiffAndSummarize (cl_host C) dir d1 = (d2, Inr [])" using s(1) by blast
  have "ReadVersionFile dir d1 = Inr fv" using ReadVersionFile_same[OF l s(2,3)] fv by simp
  then show ?thesis using fv d2 w1 by (simp add: client_Update_def local_call_def)
qed

section \<open>A cache that does not exist\<close>

lemma Prepare_nothing:
  assumes "\<And>x. snd (pb_GetCache (cl_fs C) x) = Inr ([], None)" and "Prepare C c w = Some (w', c', Inr ())"
  shows "ca_currentVersion c' = - 1"
proof -
  have f: "fetch_cache C root w = Some (w1, Inr (v, n)) \<Longrightarrow> v = - 1" for root w w1 v n
    using assms(1)[of "w_remote w"] by (auto simp: fetch_cache_def remote_def split: prod.splits sum.splits)
  have "GetCache C root w = Some (w1, Inr (v, n)) \<Longrightarrow> v = - 1" for root w w1 v n
    by (auto simp: GetCache_def Let_def split: prod.splits sum.splits dest: f)
  then show ?thesis using assms(2) by (fastforce simp: Prepare_def split: option.splits sum.splits)
qed

end
