(* ===== verification/Composed.thy ===== *)
theory Composed
  imports Outcomes Reads
begin

text \<open>
  The client on the service: the generated stub is the model of the service itself, and a local copy that mirrors one version
  of a project mirrors another one after \<open>Rebuild\<close>.
\<close>

section \<open>The service behind the stub\<close>

definition to_response :: "int \<times> bytes option \<times> string option \<Rightarrow> GetCompressResponse" where
  "to_response m = \<lparr>rc_Version = fst m, rc_Bytes = nil_bytes (fst (snd m)), rc_PackPath = snd (snd m)\<rparr>"

definition to_cached :: "int \<times> bytes \<times> bytes \<Rightarrow> GetCacheResponse" where
  "to_cached m = \<lparr>rk_Version = fst m, rk_Hash = snd (snd m), rk_Bytes = fst (snd m)\<rparr>"

text \<open>A streaming call that fails ends its stream with the status.\<close>

definition streamed :: "('a \<Rightarrow> 'm) \<Rightarrow> 'a list handler \<Rightarrow> DB \<Rightarrow> DB \<times> (code + 'm stream)" where
  "streamed f h db = (case h db of (db', Inl c) \<Rightarrow> (db', Inr ([], Some c)) | (db', Inr ms) \<Rightarrow> (db', Inr (map f ms, None)))"

definition answered :: "('a \<Rightarrow> 'b) \<Rightarrow> 'a handler \<Rightarrow> DB \<Rightarrow> DB \<times> (code + 'b)" where
  "answered f h db = (case h db of (db', Inl c) \<Rightarrow> (db', Inl c) | (db', Inr a) \<Rightarrow> (db', Inr (f a)))"

definition service_stub :: "Fs \<Rightarrow> ctx \<Rightarrow> (32 word \<Rightarrow> nat \<Rightarrow> int \<Rightarrow> bool) \<Rightarrow> (32 word \<Rightarrow> contents_table \<Rightarrow> contents_table) \<Rightarrow> DB FsClient" where
  "service_stub F ctx projectSample contentSample =
     \<lparr>pb_NewProject = Fs_NewProject F ctx, pb_DeleteProject = Fs_DeleteProject F ctx, pb_ListProjects = Fs_ListProjects F ctx,
      pb_Get = (\<lambda>req. streamed snd (Fs_Get F ctx req)), pb_GetCompress = (\<lambda>req. streamed to_response (Fs_GetCompress F ctx req)),
      pb_Update = (\<lambda>reqs. Fs_Update F ctx reqs None), pb_Inspect = Fs_Inspect F ctx, pb_Snapshot = Fs_Snapshot F ctx,
      pb_Reset = Fs_Reset F ctx, pb_GetCache = streamed to_cached (Fs_GetCache F ctx),
      pb_GcProject = (\<lambda>p keep from. answered gc_Count (Fs_GcProject F ctx p keep from)),
      pb_GcRandomProjects = (\<lambda>s keep from. answered gc_Count (Fs_GcRandomProjects F ctx (projectSample s) keep from)),
      pb_GcContents = (\<lambda>s. Fs_GcContents F ctx (contentSample s)), pb_CloneToProject = Fs_CloneToProject F ctx\<rparr>"

section \<open>Mirrors\<close>

definition row_of :: "dlfile \<Rightarrow> DbObject" where
  "row_of f = (case f of (q, h, m, sz, packed) \<Rightarrow>
     \<lparr>d_hash = h, d_path = q, d_mode = m, d_size = sz, d_deleted = False, d_cached = False, d_packed = packed\<rparr>)"

definition file_leaf :: "lib \<Rightarrow> content_cache \<Rightarrow> contents_table \<Rightarrow> dlfile \<Rightarrow> leaf option" where
  "file_leaf L cache table f = entry_leaf (object_entry (object_content L cache table) (row_of f))"

definition place :: "path \<Rightarrow> dlfile \<Rightarrow> path" where
  "place dir f = join_path dir (fst f)"

text \<open>Outside of the metadata directory, the files and links below the directory are those of the snapshot.\<close>

definition mirrors :: "(dlfile \<Rightarrow> leaf option) \<Rightarrow> path \<Rightarrow> dlfile set \<Rightarrow> disk \<Rightarrow> bool" where
  "mirrors leaf dir S d \<longleftrightarrow>
     (\<forall>q l. outside_metadata dir q \<longrightarrow> (leaf_at d q = Some l \<longleftrightarrow> (\<exists>f \<in> S. place dir f = q \<and> leaf f = Some l)))"

lemma row_of_file: "\<not> d_deleted u \<Longrightarrow> \<not> d_cached u \<Longrightarrow> row_of (object_file u) = u"
  by (cases u) (simp add: row_of_def object_file_def)

text \<open>A path that another one replaces lies above it.\<close>

lemma replaced_above:
  assumes "replaced_by p q" and "plain_name p" "plain_name q"
  shows "prefix (join_path dir p) (join_path dir q)"
proof -
  have "prefix (name_path p) (name_path q)"
  proof (cases "p = q \<or> (\<exists>t. q = p @ CHR ''/'' # t)")
    case True
    then show ?thesis by (auto simp: name_path_def Split_append)
  next
    case False
    then have "HasSuffix p ''/'' \<and> HasPrefix q p" using assms(1) by (auto simp: replaced_by_def HasPrefix_iff_prefix prefix_def)
    then obtain r t where "p = r @ ''/''" "q = p @ t" unfolding HasSuffix_iff HasPrefix_iff_prefix prefix_def by blast
    then show ?thesis by (auto simp: name_path_def Split_append)
  qed
  then show ?thesis using assms(2,3) by (simp add: join_plain)
qed

text \<open>
  A difference: its rows, and the two snapshots between which it leads. The paths in a snapshot are apart on disk, and nothing stands in the
  way of a row.
\<close>

definition diff_rows :: "path \<Rightarrow> disk \<Rightarrow> DbObject list \<Rightarrow> dlfile set \<Rightarrow> dlfile set \<Rightarrow> bool" where
  "diff_rows dir d ds S0 S1 \<longleftrightarrow>
     S1 = apply_diff (object_file ` {r \<in> set ds. \<not> d_deleted r}) (d_path ` {r \<in> set ds. d_deleted r}) S0 \<and>
     (\<forall>r \<in> set ds. (d_deleted r \<longrightarrow> d_path r \<in> fst ` S0) \<and> plain_name (d_path r) \<and>
        clear_above d (join_path dir (d_path r)) \<and> bare_below d (join_path dir (d_path r))) \<and>
     (\<forall>f \<in> S0. plain_name (fst f)) \<and> inj_on (place dir) S0 \<and> inj_on (place dir) S1"

lemma diff_rowsD:
  assumes "diff_rows dir d ds S0 S1"
  shows "S1 = apply_diff (object_file ` {r \<in> set ds. \<not> d_deleted r}) (d_path ` {r \<in> set ds. d_deleted r}) S0"
    and "r \<in> set ds \<Longrightarrow> d_deleted r \<Longrightarrow> d_path r \<in> fst ` S0" and "r \<in> set ds \<Longrightarrow> plain_name (d_path r)"
    and "r \<in> set ds \<Longrightarrow> clear_above d (join_path dir (d_path r))" and "r \<in> set ds \<Longrightarrow> bare_below d (join_path dir (d_path r))"
    and "f \<in> S0 \<Longrightarrow> plain_name (fst f)" and "inj_on (place dir) S0" "inj_on (place dir) S1"
    and "r \<in> set ds \<Longrightarrow> \<not> d_deleted r \<Longrightarrow> object_file r \<in> S1" and "place dir (object_file r) = join_path dir (d_path r)"
  using assms by (auto simp: diff_rows_def apply_diff_def place_def object_file_def)

lemma diff_elsewhere:
  assumes D: "diff_rows dir d ds S0 S1" and q: "\<not> under (map (\<lambda>r. join_path dir (d_path r)) ds) q" and f: "place dir f = q"
  shows "f \<in> S1 \<Longrightarrow> f \<in> S0" and "f \<in> S0 \<Longrightarrow> leaf_at d q \<noteq> None \<Longrightarrow> f \<in> S1"
proof -
  show "f \<in> S1 \<Longrightarrow> f \<in> S0" using q f by (auto simp: diff_rowsD(1)[OF D] apply_diff_def under_iff place_def object_file_def)
  assume f0: "f \<in> S0" and l: "leaf_at d q \<noteq> None"
  have "\<not> replaced_by (fst f) (d_path r)" if r: "r \<in> set ds" for r
  proof
    assume "replaced_by (fst f) (d_path r)"
    from replaced_above[OF this diff_rowsD(6)[OF D f0] diff_rowsD(3)[OF D r], of dir] have "strict_prefix q (join_path dir (d_path r))"
      using q f r by (auto simp: place_def strict_prefix_def under_iff)
    then show False using diff_rowsD(4)[OF D r] l by (auto simp: clear_above_iff leaf_at_None_iff)
  qed
  then show "f \<in> S1" using f0 f q by (auto simp: diff_rowsD(1)[OF D] apply_diff_def under_iff place_def object_file_def)
qed

lemma diff_below:
  assumes D: "diff_rows dir d ds S0 S1" and q: "under (map (\<lambda>r. join_path dir (d_path r)) ds) q" and f: "f \<in> S1" "place dir f = q"
    and kept: "f \<in> S0 \<Longrightarrow> leaf_at d q \<noteq> None"
  shows "\<exists>u \<in> set ds. \<not> d_deleted u \<and> object_file u = f"
proof (rule ccontr)
  assume none: "\<not> ?thesis"
  then have "f \<in> S0 \<and> fst f \<notin> d_path ` {r \<in> set ds. d_deleted r}" using f(1) by (auto simp: diff_rowsD(1)[OF D] apply_diff_def)
  then have f0: "f \<in> S0" "\<not> (\<exists>r \<in> set ds. d_deleted r \<and> d_path r = fst f)" by (simp, metis (mono_tags, lifting) image_eqI mem_Collect_eq)
  obtain r where r: "r \<in> set ds" "prefix (join_path dir (d_path r)) q" using q by (auto simp: under_iff)
  then have eq: "join_path dir (d_path r) = q" using diff_rowsD(5)[OF D r(1)] kept[OF f0(1)] by (auto simp: bare_below_def strict_prefix_def)
  have del: "d_deleted r"
  proof (rule ccontr)
    assume "\<not> d_deleted r"
    then have "object_file r = f" using inj_onD[OF diff_rowsD(8)[OF D]] diff_rowsD(9,10)[OF D] r(1) eq f by metis
    then show False using none r(1) \<open>\<not> d_deleted r\<close> by blast
  qed
  obtain g where g: "g \<in> S0" "d_path r = fst g" using diff_rowsD(2)[OF D r(1) del] by (rule imageE)
  have "place dir g = place dir f" using g(2) eq f(2) by (simp add: place_def)
  then have "g = f" using inj_onD[OF diff_rowsD(7)[OF D] _ g(1) f0(1)] by simp
  then show False using f0(2) g(2) r(1) del by auto
qed

text \<open>Applying the rows of a difference to the directory is applying it to the snapshot.\<close>

lemma diff_mirrors:
  assumes m: "mirrors leaf dir S0 d" and D: "diff_rows dir d ds S0 S1"
    and d': "\<And>q. outside_metadata dir q \<Longrightarrow> leaf_at d' q = (if under (map (\<lambda>r. join_path dir (d_path r)) ds) q then T q else leaf_at d q)"
    and T: "\<And>r. r \<in> set ds \<Longrightarrow> T (join_path dir (d_path r)) = (if d_deleted r then None else leaf (object_file r))"
    and T0: "\<And>q. q \<notin> (\<lambda>r. join_path dir (d_path r)) ` set ds \<Longrightarrow> T q = None"
  shows "mirrors leaf dir S1 d'"
  unfolding mirrors_def
proof (intro allI impI)
  fix q l assume q: "outside_metadata dir q"
  have mirror: "leaf_at d q = Some l \<longleftrightarrow> (\<exists>f \<in> S0. place dir f = q \<and> leaf f = Some l)" for l using m q by (simp add: mirrors_def)
  show "leaf_at d' q = Some l \<longleftrightarrow> (\<exists>f \<in> S1. place dir f = q \<and> leaf f = Some l)"
  proof (cases "under (map (\<lambda>r. join_path dir (d_path r)) ds) q")
    case False
    then have "leaf_at d' q = leaf_at d q" using d'[OF q] by simp
    then show ?thesis using mirror[of l] diff_elsewhere[OF D False] by (metis option.distinct(1))
  next
    case True
    have "T q = Some l" if f: "f \<in> S1" "place dir f = q" "leaf f = Some l" for f
    proof -
      have "leaf_at d q \<noteq> None" if "f \<in> S0" using mirror[of l] f(2,3) that by auto
      then obtain u where "u \<in> set ds" "\<not> d_deleted u" "object_file u = f" using diff_below[OF D True f(1,2)] by blast
      then show ?thesis using T[of u] diff_rowsD(10)[OF D, of u] f(2,3) by simp
    qed
    moreover have "\<exists>f \<in> S1. place dir f = q \<and> leaf f = Some l" if l: "T q = Some l"
    proof -
      obtain u where u: "u \<in> set ds" "join_path dir (d_path u) = q" using T0[of q] l by (cases "q \<in> (\<lambda>r. join_path dir (d_path r)) ` set ds") auto
      then show ?thesis using T[OF u(1)] l diff_rowsD(9,10)[OF D, of u] by (auto split: if_splits)
    qed
    ultimately show ?thesis using d'[OF q] True by auto
  qed
qed

section \<open>The difference the service sends\<close>

lemma query_diff:
  assumes ok: "db_ok db" and v: "0 \<le> From vr" "From vr \<le> To vr" and tree: "tree_ok (snapshot (objects db) p (To vr))"
    and ds: "ds = build L (whole p vr) db"
  shows "snapshot (objects db) p (To vr) = apply_diff (object_file ` {r \<in> set ds. \<not> d_deleted r}) (d_path ` {r \<in> set ds. d_deleted r})
      (snapshot (objects db) p (From vr))"
    and "r \<in> set ds \<Longrightarrow> d_deleted r \<Longrightarrow> d_path r \<in> fst ` snapshot (objects db) p (From vr)"
proof -
  let ?S = "snapshot (objects db) p"
  have U: "object_file ` {r \<in> set ds. \<not> d_deleted r} = object_file ` set (updates_of L (whole p vr) db)"
    and R: "d_path ` {r \<in> set ds. d_deleted r} = d_path ` set (removals_of L (whole p vr) db)" by (auto simp: ds)
  have start: "1 \<le> o_start r" if "r \<in> set (objects db)" for r using db_okD(3)[OF ok that] by (simp add: row_within_def)
  show "?S (To vr) = apply_diff (object_file ` {r \<in> set ds. \<not> d_deleted r}) (d_path ` {r \<in> set ds. d_deleted r}) (?S (From vr))"
  proof (cases "From vr = 0")
    case True
    then have "?S (From vr) = {}" using start by (fastforce simp: snapshot_def live_at_def)
    moreover have "removals_of L (whole p vr) db = []" "updates_of L (whole p vr) db = build L (whole p vr) db"
      using True removals_of_eq[of L "whole p vr" db] by (simp_all add: build_def queryWithoutRemovals_def)
    moreover have "object_file ` set (build L (whole p vr) db) = ?S (To vr)"
      using full_query_files[where db = db and qb = "whole p vr" and L = L, OF start] True by auto
    ultimately show ?thesis unfolding U R by (simp add: apply_diff_def)
  next
    case False
    then show ?thesis unfolding U R using diff_query_exact[OF ok _ v(2) tree, of L] v(1) by simp
  qed
  assume r: "r \<in> set ds" "d_deleted r"
  then have del: "d_path r \<in> d_path ` set (removals_of L (whole p vr) db)" by (auto simp: ds)
  then have "From vr \<noteq> 0" using removals_of_eq[of L "whole p vr" db] by auto
  from del[unfolded removals_paths[OF this]] obtain x where x: "x \<in> set (objects db)" "o_project x = p" "o_path x = d_path r"
    "o_start x \<le> From vr" "stops_in vr x" by auto
  then have "live_at (From vr) x" by (auto simp: stops_in_def live_at_def split: option.splits)
  then have "row_file x \<in> ?S (From vr)" using x by (auto simp: snapshot_def)
  then show "d_path r \<in> fst ` ?S (From vr)" using x(3) by (force simp: row_file_def)
qed

text \<open>The messages of a stream without packs.\<close>

lemma stream_entries:
  assumes "packs_sent outs = []"
  shows "o' \<in> set outs \<Longrightarrow> snd o' = None" and "concat (map (entries_of L) (map (to_response \<circ> Pair v) outs)) = concat (tar_sent L outs)"
    and "concat (map (owned L dir) (map (to_response \<circ> Pair v) outs)) = map (entry_path dir) (concat (tar_sent L outs))"
proof -
  have none: "\<forall>o' \<in> set outs. snd o' = None"
  proof
    fix o' assume o: "o' \<in> set outs"
    show "snd o' = None"
    proof (rule ccontr)
      assume "snd o' \<noteq> None"
      then obtain q where "snd o' = Some q" by blast
      then have "(q, fst o') \<in> set (packs_sent outs)" using o by (force simp: packs_sent_def List.map_filter_def)
      then show False using assms by simp
    qed
  qed
  then show "o' \<in> set outs \<Longrightarrow> snd o' = None" by blast
  from none show "concat (map (entries_of L) (map (to_response \<circ> Pair v) outs)) = concat (tar_sent L outs)"
    by (induction outs) (simp_all add: tar_sent_def entries_of_def to_response_def pack_entries_def)
  from none show "concat (map (owned L dir) (map (to_response \<circ> Pair v) outs)) = map (entry_path dir) (concat (tar_sent L outs))"
    by (induction outs) (simp_all add: tar_sent_def entries_of_def owned_def to_response_def pack_entries_def)
qed

lemma all_apart_part:
  assumes "all_apart (map f (concat xss))" and "xs \<in> set xss"
  shows "all_apart (map f xs)"
  using assms by (induction xss) (auto simp: all_apart_def sorted_wrt_append)

lemma stream_applicable:
  assumes outs: "packs_sent outs = []" "list_all (\<lambda>o'. snd o' = None \<longrightarrow> snd (tar_decode L (nil_bytes (fst o')))) outs"
    and ap: "all_apart (map (entry_path dir) (concat (tar_sent L outs)))"
    and fit: "\<forall>e \<in> set (concat (tar_sent L outs)). fits d (entry_path dir e) e \<and> outside_metadata dir (entry_path dir e)"
    and r: "r \<in> set (map (to_response \<circ> Pair v) outs)"
  shows "applicable L dir d r"
proof -
  obtain o' where o: "o' \<in> set outs" "r = to_response (v, o')" using r by auto
  have none: "snd o' = None" using stream_entries(1)[OF outs(1) o(1)] .
  have es: "entries_of L r = pack_entries L (nil_bytes (fst o'))" by (simp add: o(2) entries_of_def to_response_def pack_entries_def)
  then have "entries_of L r \<in> set (tar_sent L outs)" using o(1) none by (auto simp: tar_sent_def)
  moreover have "rc_PackPath r = None" "snd (tar_decode L (rc_Bytes r))" using none o outs(2) by (auto simp: to_response_def list_all_iff)
  ultimately show ?thesis using all_apart_part[OF ap] fit by (auto simp: applicable_def owned_def list_all_iff)
qed

lemma stream_leaf:
  assumes outs: "packs_sent outs = []" and ap: "all_apart (map (entry_path dir) (concat (tar_sent L outs)))"
  shows "e \<in> set (concat (tar_sent L outs)) \<Longrightarrow> response_leaf L dir (map (to_response \<circ> Pair v) outs) (entry_path dir e) = entry_leaf e"
    and "q \<notin> entry_path dir ` set (concat (tar_sent L outs)) \<Longrightarrow> response_leaf L dir (map (to_response \<circ> Pair v) outs) q = None"
proof -
  let ?ms = "map (to_response \<circ> Pair v) outs"
  note es = stream_entries(2)[OF outs, of L v] stream_entries(3)[OF outs, of L dir v]
  have apm: "all_apart (concat (map (owned L dir) ?ms))" unfolding es(2) by (rule ap)
  have pack: "rc_PackPath r = None" if "r \<in> set ?ms" for r using that stream_entries(1)[OF outs] by (auto simp: to_response_def)
  {
    assume "e \<in> set (concat (tar_sent L outs))"
    then obtain r where r: "r \<in> set ?ms" "e \<in> set (entries_of L r)" unfolding es(1)[symmetric] by auto
    have "under (owned L dir r) (entry_path dir e)" using r pack[OF r(1)] by (auto simp: owned_def under_iff)
    moreover have "all_apart (map (entry_path dir) (entries_of L r))"
      using all_apart_part[of "entry_path dir" "map (entries_of L) ?ms"] ap r(1) unfolding es(1)[symmetric] by auto
    ultimately show "response_leaf L dir ?ms (entry_path dir e) = entry_leaf e"
      using response_leaf_owned[OF apm r(1)] archive_leaf_member r(2) by metis
  }
  assume q: "q \<notin> entry_path dir ` set (concat (tar_sent L outs))"
  have "archive_leaf dir (entries_of L r) q = None" if "r \<in> set ?ms" for r
  proof -
    have "q \<notin> entry_path dir ` set (entries_of L r)" using q that unfolding es(1)[symmetric] by auto
    then show ?thesis by (auto simp: archive_leaf_def map_of_eq_None_iff image_image split: option.splits dest!: map_of_SomeD)
  qed
  then show "response_leaf L dir ?ms q = None" by (auto simp: response_leaf_def split: option.splits dest: findSomeD)
qed

section \<open>Rebuild on the service\<close>

text \<open>
  The difference between two versions can be applied to the directory: its rows are plain objects that the service can send,
  their paths are apart and lie outside of the metadata, and each fits what is there.
\<close>

definition sendable :: "Fs \<Rightarrow> DB \<Rightarrow> DbObject list \<Rightarrow> bool" where
  "sendable F db ds \<longleftrightarrow> servable (fs_lib F) (fs_cache F) (contents db) ds \<and>
     list_all (\<lambda>r. \<not> d_cached r \<and> \<not> d_packed r \<and> d_path r \<noteq> [] \<and> plain_name (d_path r) \<and>
       tar_accepts (fs_lib F) (object_header (ToTarObject r (object_content (fs_lib F) (fs_cache F) (contents db) r)))) ds"

definition applies :: "Fs \<Rightarrow> DB \<Rightarrow> path \<Rightarrow> disk \<Rightarrow> DbObject list \<Rightarrow> bool" where
  "applies F db dir d ds \<longleftrightarrow> all_apart (map (\<lambda>r. join_path dir (d_path r)) ds) \<and>
     (\<forall>r \<in> set ds. outside_metadata dir (join_path dir (d_path r)) \<and>
        fits d (join_path dir (d_path r)) (object_entry (object_content (fs_lib F) (fs_cache F) (contents db)) r))"

definition named_apart :: "path \<Rightarrow> dlfile set \<Rightarrow> bool" where
  "named_apart dir S \<longleftrightarrow> inj_on (place dir) S \<and> (\<forall>f \<in> S. plain_name (fst f))"

lemma GetCompress_stream:
  assumes F: "lib_ok (fs_lib F)" "\<And>n. fs_Send F n" "fs_Connect F" "requireProjectAuth ctx = Inr a" "a = - 1 \<or> a = p"
    and ds: "ds = build (fs_lib F) (whole p \<lparr>From = from, To = to\<rparr>) db" "sendable F db ds"
    and c: "c = object_content (fs_lib F) (fs_cache F) (contents db)"
  shows "\<exists>outs db'. streamed to_response (Fs_GetCompress F ctx \<lparr>g_Project = p, g_FromVersion = Some from, g_ToVersion = Some to,
      g_Queries = [\<lparr>q_Path = [], q_IsPrefix = True, q_Ignores = []\<rparr>], g_AvailableCacheVersions = []\<rparr>) db =
      (db', Inr (map (to_response \<circ> Pair to) outs, None)) \<and>
    concat (tar_sent (fs_lib F) outs) = map (object_entry c) ds \<and> packs_sent outs = [] \<and>
    list_all (\<lambda>o'. snd o' = None \<longrightarrow> snd (tar_decode (fs_lib F) (nil_bytes (fst o')))) outs"
proof -
  let ?q = "\<lparr>q_Path = [], q_IsPrefix = True, q_Ignores = []\<rparr>" and ?vr = "\<lparr>From = from, To = to\<rparr>"
  let ?req = "\<lparr>g_Project = p, g_FromVersion = Some from, g_ToVersion = Some to, g_Queries = [?q], g_AvailableCacheVersions = []\<rparr>"
  have qb: "withCacheVersions (newQueryBuilder (g_Project ?req) ?vr ?q) (g_AvailableCacheVersions ?req) = whole p ?vr"
    by (simp add: whole_def withCacheVersions_def newQueryBuilder_def)
  have s: "servable (fs_lib F) (fs_cache F) (contents db) ds"
    "\<And>d. d \<in> set ds \<Longrightarrow> in_tar d \<Longrightarrow> tar_accepts (fs_lib F) (object_header (ToTarObject d (c d))) \<and> d_path d \<noteq> []"
    using ds(2) by (auto simp: sendable_def list_all_iff c)
  have tar: "filter in_tar ds = ds" "filter (\<lambda>d. \<not> in_tar d) ds = []"
    using ds(2) by (auto simp: sendable_def list_all_iff in_tar_def filter_id_conv filter_empty_conv)
  obtain outs where q: "query_tars F ?req ?vr ?q [] db = (db, Inr (map (Pair to) outs))"
    and outs: "concat (tar_sent (fs_lib F) outs) = map (object_entry c) ds" "packs_sent outs = []"
      "list_all (\<lambda>o'. snd o' = None \<longrightarrow> snd (tar_decode (fs_lib F) (nil_bytes (fst o')))) outs"
    using query_tars_delivers[OF F(1,2) ds(1)[folded qb] c s, of "[]"] tar by auto
  have "Fs_GetCompress F ctx ?req db = (rollback_tx db db, Inr (map (Pair to) outs))"
    using F(3-5) q by (auto simp: Fs_GetCompress_def project_access_def in_tx_def thenC_def coded_def NewVersionRange_def
        validateObjectQuery_def done_tx_def)
  then show ?thesis using outs by (auto simp: streamed_def comp_def)
qed

lemma entry_leaf_row:
  assumes "\<not> d_cached r"
  shows "entry_leaf (object_entry (object_content L cache table) r) = (if d_deleted r then None else file_leaf L cache table (object_file r))"
  using row_of_file[OF _ assms]
  by (auto simp: file_leaf_def entry_leaf_def object_entry_def object_header_def TarType_def ToTarObject_def Let_def typeflag_defs)

lemma entry_path_row: "entry_path dir (object_entry c r) = join_path dir (d_path r)"
  by (simp add: entry_path_def object_entry_def object_header_def ToTarObject_def Let_def)

lemma stream_mirrors:
  assumes C: "cl_lib C = fs_lib F" "fresh_names (cl_host C) dir" "0 < parallelWorkerCount C" and to: "is_int64 to" "outs \<noteq> []"
    and outs: "concat (tar_sent (fs_lib F) outs) = map (object_entry (object_content (fs_lib F) (fs_cache F) (contents db))) ds"
      "packs_sent outs = []" "list_all (\<lambda>o'. snd o' = None \<longrightarrow> snd (tar_decode (fs_lib F) (nil_bytes (fst o')))) outs"
    and ds: "sendable F db ds" "applies F db dir d ds" "diff_rows dir d ds S0 S1" and d: "local_dir d dir" "unshared dir d"
    and m: "mirrors (file_leaf (fs_lib F) (fs_cache F) (contents db)) dir S0 d"
  shows "\<exists>d' res. rebuild_disk C dir cacheDir matcher False (map (to_response \<circ> Pair to) outs) None d = Some (d', Inr res) \<and>
    rr_Version res = to \<and> ReadVersionFile dir d' = Inr to \<and> mirrors (file_leaf (fs_lib F) (fs_cache F) (contents db)) dir S1 d'"
proof -
  let ?L = "fs_lib F" and ?c = "object_content (fs_lib F) (fs_cache F) (contents db)" and ?ms = "map (to_response \<circ> Pair to) outs"
  let ?leaf = "file_leaf ?L (fs_cache F) (contents db)"
  have paths: "map (entry_path dir) (concat (tar_sent ?L outs)) = map (\<lambda>r. join_path dir (d_path r)) ds"
    by (simp add: outs(1) entry_path_row comp_def)
  have ap: "all_apart (map (entry_path dir) (concat (tar_sent ?L outs)))" unfolding paths using ds(2) by (simp add: applies_def)
  have fit: "\<forall>e \<in> set (concat (tar_sent ?L outs)). fits d (entry_path dir e) e \<and> outside_metadata dir (entry_path dir e)"
    using ds(2) by (auto simp: applies_def outs(1) entry_path_row)
  have apm: "all_apart (concat (map (owned ?L dir) ?ms))" unfolding stream_entries(3)[OF outs(2)] by (rule ap)
  have app: "\<forall>r \<in> set ?ms. applicable ?L dir d r" using stream_applicable[OF outs(2,3) ap fit] by blast
  have ver: "\<forall>r \<in> set ?ms. rc_Version r = to" and ne: "?ms \<noteq> []" using to(2) by (auto simp: to_response_def)
  obtain d' res where d': "rebuild_disk C dir cacheDir matcher False ?ms None d = Some (d', Inr res)" "rr_Version res = to"
    "ReadVersionFile dir d' = Inr to"
    and leaf: "\<And>q. outside_metadata dir q \<Longrightarrow> leaf_at d' q =
      (if under (map (\<lambda>r. join_path dir (d_path r)) ds) q then response_leaf ?L dir ?ms q else leaf_at d q)"
    using rebuild_disk_effect[OF d C(2,3) ne ver to(1), where cacheDir=cacheDir and m=matcher] app apm
    unfolding C(1) stream_entries(3)[OF outs(2)] paths by (auto simp: tracker_result_def)
  have "mirrors ?leaf dir S1 d'"
  proof (rule diff_mirrors[OF m ds(3) leaf])
    fix r assume r: "r \<in> set ds"
    then have "entry_path dir (object_entry ?c r) = join_path dir (d_path r)" "object_entry ?c r \<in> set (concat (tar_sent ?L outs))"
      by (simp_all add: entry_path_row outs(1))
    moreover have "\<not> d_cached r" using ds(1) r by (auto simp: sendable_def list_all_iff)
    ultimately show "response_leaf ?L dir ?ms (join_path dir (d_path r)) = (if d_deleted r then None else ?leaf (object_file r))"
      using stream_leaf(1)[OF outs(2) ap, of "object_entry ?c r" to] entry_leaf_row[of r ?L "fs_cache F" "contents db"] by simp
  next
    fix q assume "q \<notin> (\<lambda>r. join_path dir (d_path r)) ` set ds"
    then show "response_leaf ?L dir ?ms q = None"
      using stream_leaf(2)[OF outs(2) ap, of q to] by (simp add: outs(1) image_image entry_path_row)
  qed
  then show ?thesis using d' by blast
qed

lemma Rebuild_mirrors_version:
  assumes F: "lib_ok (fs_lib F)" "\<And>n. fs_Send F n" "fs_Connect F" "requireProjectAuth ctx = Inr a" "a = - 1 \<or> a = p"
    and C: "cl_fs C = service_stub F ctx s1 s2" "cl_lib C = fs_lib F" "fresh_names (cl_host C) dir" "0 < parallelWorkerCount C"
    and db: "db = w_remote w" "db_ok db" "0 \<le> from" "from < to" "is_int64 to"
    and S: "S0 = snapshot (objects db) p from" "S1 = snapshot (objects db) p to" "tree_ok S1" "named_apart dir S0" "named_apart dir S1"
    and ds: "ds = build (fs_lib F) (whole p \<lparr>From = from, To = to\<rparr>) db" "sendable F db ds" "applies F db dir (w_disk w) ds"
    and d: "local_dir (w_disk w) dir" "unshared dir (w_disk w)" "ReadVersionFile dir (w_disk w) = Inr from"
      "ReadCacheVersionFile cacheDir (w_disk w) = []"
    and m: "mirrors (file_leaf (fs_lib F) (fs_cache F) (contents db)) dir S0 (w_disk w)"
  shows "\<exists>w' res. Rebuild C p [] (Some to) dir [] cacheDir matcher False w = Some (w', Inr res) \<and>
    mirrors (file_leaf (fs_lib F) (fs_cache F) (contents db)) dir S1 (w_disk w') \<and>
    (ds \<noteq> [] \<longrightarrow> rr_Version res = to \<and> ReadVersionFile dir (w_disk w') = Inr to)"
proof -
  let ?req = "\<lparr>g_Project = p, g_FromVersion = Some from, g_ToVersion = Some to,
      g_Queries = [\<lparr>q_Path = [], q_IsPrefix = True, q_Ignores = []\<rparr>], g_AvailableCacheVersions = []\<rparr>"
  obtain outs db' where str: "streamed to_response (Fs_GetCompress F ctx ?req) db = (db', Inr (map (to_response \<circ> Pair to) outs, None))"
    and outs: "concat (tar_sent (fs_lib F) outs) = map (object_entry (object_content (fs_lib F) (fs_cache F) (contents db))) ds"
      "packs_sent outs = []" "list_all (\<lambda>o'. snd o' = None \<longrightarrow> snd (tar_decode (fs_lib F) (nil_bytes (fst o')))) outs"
    using GetCompress_stream[OF F ds(1,2) refl] by blast
  have rem: "remote (pb_GetCompress (cl_fs C) ?req) w = (w\<lparr>w_remote := db'\<rparr>, Inr (map (to_response \<circ> Pair to) outs, None))"
    using str by (simp add: remote_def C(1) service_stub_def db(1))
  have D: "diff_rows dir (w_disk w) ds S0 S1" unfolding diff_rows_def
    using query_diff[OF db(2), of "\<lparr>From = from, To = to\<rparr>" p ds "fs_lib F"] db(3,4) S ds
    by (auto simp: applies_def fits_def plain_path_def sendable_def list_all_iff named_apart_def)
  show ?thesis
  proof (cases "outs = []")
    case True
    then have "ds = []" using outs(1) by (auto simp: tar_sent_def)
    then have "S1 = S0" using diff_rowsD(1)[OF D] by (simp add: apply_diff_def)
    then show ?thesis using d(3,4) db(4) rem True m \<open>ds = []\<close> by (simp add: Rebuild_def)
  next
    case False
    obtain d' res where d': "rebuild_disk C dir cacheDir matcher False (map (to_response \<circ> Pair to) outs) None (w_disk w) = Some (d', Inr res)"
      "rr_Version res = to" "ReadVersionFile dir d' = Inr to" "mirrors (file_leaf (fs_lib F) (fs_cache F) (contents db)) dir S1 d'"
      using stream_mirrors[OF C(2-4) db(5) False outs ds(2,3) D d(1,2) m] by blast
    have "Rebuild C p [] (Some to) dir [] cacheDir matcher False w = Some (w\<lparr>w_remote := db', w_disk := d'\<rparr>, Inr res)"
      using d(3,4) db(4) rem False d'(1) by (simp add: Rebuild_def)
    then show ?thesis using d' by auto
  qed
qed

section \<open>Uploading\<close>

text \<open>
  The client's \<open>Update\<close> of a directory at the latest version: the service gets the object of every difference once, in some order.
\<close>

lemma client_Update_uploads:
  assumes F: "db_ok (w_remote w)" "find_project (w_remote w) p = Some pr" "0 \<le> latest_version pr" "is_int64 (latest_version pr + 1)"
      "requireProjectAuth ctx = Inr a" "a = - 1 \<or> a = p" "fs_Connect F" "fs_Commit F"
    and C: "cl_fs C = service_stub F ctx s1 s2" "0 < parallelWorkerCount C"
    and d: "ReadVersionFile dir (w_disk w) = Inr (latest_version pr)" "DiffAndSummarize (cl_host C) dir (w_disk w) = (d1, Inr us)" "us \<noteq> []"
      "local_dir d1 dir" "unshared dir d1" "\<And>u. u \<in> set us \<Longrightarrow> read_update dir d1 u = Inr (f u)"
    and ok: "\<And>obs. mset obs = mset (map f us) \<Longrightarrow> update_ok F (w_remote w) pr obs"
  shows "\<exists>obs db' v. mset obs = mset (map f us) \<and> Fs_Update F ctx (map (Pair p) obs) None (w_remote w) = (db', Inr v) \<and> db_ok db' \<and>
    snapshot (objects db') p v = fst (spec_Update F (w_remote w) pr obs (snapshot (objects (w_remote w)) p (latest_version pr), {})) \<and>
    (v = latest_version pr + 1 \<longrightarrow> (\<exists>d'. client_Update C p dir w = Some (\<lparr>w_disk = d', w_remote = db'\<rparr>, Inr (v, word_of_nat (length us))) \<and>
       ReadVersionFile dir d' = Inr v \<and> (\<forall>q. outside_metadata dir q \<longrightarrow> leaf_at d' q = leaf_at d1 q)))"
proof -
  obtain obs where obs: "run_readers (parallelWorkerCount C) 32 (read_update dir d1) (cl_sched C) us = Some (Inr obs)" "mset obs = mset (map f us)"
    using run_readers_all[OF C(2), of 32 us "read_update dir d1" f "cl_sched C"] d(6) by auto
  obtain db' v where up: "Fs_Update F ctx (map (Pair p) obs) None (w_remote w) = (db', Inr v)" "db_ok db'"
    "snapshot (objects db') p v = fst (spec_Update F (w_remote w) pr obs (snapshot (objects (w_remote w)) p (latest_version pr), {}))"
    using Fs_Update_effect[OF F ok[OF obs(2)]] by blast
  have "v = latest_version pr + 1 \<longrightarrow> (\<exists>d'. client_Update C p dir w = Some (\<lparr>w_disk = d', w_remote = db'\<rparr>, Inr (v, word_of_nat (length us))) \<and>
       ReadVersionFile dir d' = Inr v \<and> (\<forall>q. outside_metadata dir q \<longrightarrow> leaf_at d' q = leaf_at d1 q))"
  proof
    assume v: "v = latest_version pr + 1"
    obtain d' where d': "WriteVersionFile dir v d1 = (d', Inr ())" "touches dir (versionFile dir) d1 d'"
      "leaf_at d' (versionFile dir) = Some (LFile (FormatInt v))"
      using WriteVersionFile_effect[OF d(4,5), of v] by auto
    have "bare_below d1 (versionFile dir)"
      using file_bare_below[of d1 "versionFile dir"] d(4) by (auto simp: local_dir_def is_dir_at_def split: option.splits node.splits)
    from touches_leaf[OF d'(2) this] have leaf: "leaf_at d' q = leaf_at d1 q" if "outside_metadata dir q" for q
      using that by (auto simp: outside_metadata_iff versionFile_def)
    have rd: "ReadVersionFile dir d' = Inr v" using ReadVersionFile_leaf[OF _ d'(3)] d'(2) F(4) v by (simp add: touches_def)
    have "wrap64 (latest_version pr + 1) = v" using F(4) v by (simp add: wrap64_id)
    then have "client_Update C p dir w = Some (\<lparr>w_disk = d', w_remote = db'\<rparr>, Inr (v, word_of_nat (length us)))"
      using d(1-3) obs(1) up(1) d'(1) C(1)
      by (simp add: client_Update_def local_call_def remote_def service_stub_def andThen_def ret_def)
    with leaf rd show "\<exists>d'. client_Update C p dir w = Some (\<lparr>w_disk = d', w_remote = db'\<rparr>, Inr (v, word_of_nat (length us))) \<and>
       ReadVersionFile dir d' = Inr v \<and> (\<forall>q. outside_metadata dir q \<longrightarrow> leaf_at d' q = leaf_at d1 q)" by blast
  qed
  then show ?thesis using up obs(2) by blast
qed

end
