(* ===== verification/LocalSamples.thy ===== *)
theory LocalSamples
  imports Composed Samples
begin

text \<open>
  Concrete data for the client: an instance of the external packages it calls, on which the hypotheses about them hold, a
  client of the sample service, and a local copy of version 1 of its project.
\<close>

section \<open>External packages\<close>

definition sample_walk :: "disk \<Rightarrow> path \<Rightarrow> (errno + path \<times> bool) list" where
  "sample_walk d old =
     map (\<lambda>q. Inr (drop (length old) q, is_dir_at d q)) (sort_key length (remdups (filter (prefix old) (map fst (nodes d)))))"

text \<open>A name that is longer than all the names on the disk together.\<close>

definition sample_temp :: "disk \<Rightarrow> string list" where
  "sample_temp d = [replicate (Suc (\<Sum>e \<leftarrow> nodes d. \<Sum>c \<leftarrow> fst e. length c)) CHR ''x'']"

definition sample_names :: "path \<Rightarrow> disk \<Rightarrow> string list" where
  "sample_names dir d =
     sort (remdups (map (\<lambda>q. Join (drop (length dir) q) ''/'')
       (filter (\<lambda>q. q \<noteq> [] \<and> prefix dir q \<and> \<not> prefix (dir @ [metadataDir]) q \<and> leaf_at d q \<noteq> None) (map fst (nodes d)))))"

definition sample_diff :: "path \<Rightarrow> string list \<Rightarrow> bytes \<Rightarrow> disk \<Rightarrow> errno + fsdiff_update list \<times> bytes" where
  "sample_diff dir ignores summary d =
     (let names = sample_names dir d; summary' = concat (map put_str names) in
      Inr (if summary = summary' then [] else map (\<lambda>n. \<lparr>u_Path = n, u_Remove = False\<rparr>) names, summary'))"

definition sample_read :: "path \<Rightarrow> disk \<Rightarrow> errno + bytes" where
  "sample_read p d = (case node_at d p of Some (Reg i) \<Rightarrow> Inr (get_data i d) | _ \<Rightarrow> Inl ENOENT)"

definition sample_write :: "path \<Rightarrow> bytes \<Rightarrow> unit os" where
  "sample_write p b d =
     (if p = [] \<or> \<not> list_all good_name p \<or> \<not> is_dir_at d (butlast p) \<or> is_dir_at d p then (d, Inl EISDIR)
      else (case new_inode p 0x1A4 d of (d', i) \<Rightarrow> (set_data i b d', Inr ())))"

definition sample_host :: host where
  "sample_host =
     \<lparr>fastwalk = sample_walk, temp_names = sample_temp, glob_compiles = (\<lambda>_. True), glob_match = (\<lambda>g s. g = s),
      num_cpu = 4, ReadSummary = sample_read, WriteSummary = sample_write, fsdiff_Diff = sample_diff\<rparr>"

lemma sample_host_sel [simp]:
  "fastwalk sample_host = sample_walk" "temp_names sample_host = sample_temp" "num_cpu sample_host = 4"
  "ReadSummary sample_host = sample_read" "WriteSummary sample_host = sample_write" "fsdiff_Diff sample_host = sample_diff"
  by (simp_all add: sample_host_def)

section \<open>The hypotheses hold\<close>

lemma sample_fresh [simp]: "fresh_names sample_host dir"
  unfolding fresh_names_def
proof
  fix d :: disk
  let ?n = "replicate (Suc (\<Sum>e \<leftarrow> nodes d. \<Sum>c \<leftarrow> fst e. length c)) CHR ''x''"
  let ?p = "dir @ [metadataDir, tmp_prefix @ ?n]"
  have "?p \<notin> set (map fst (nodes d))"
  proof
    assume "?p \<in> set (map fst (nodes d))"
    then obtain e where e: "e \<in> set (nodes d)" "fst e = ?p" by auto
    have "(\<Sum>c \<leftarrow> fst e. length c) \<le> (\<Sum>e \<leftarrow> nodes d. \<Sum>c \<leftarrow> fst e. length c)" using member_le_sum_list[of _ "map (\<lambda>e. \<Sum>c \<leftarrow> fst e. length c) (nodes d)"] e(1) by simp
    moreover have "length ?n \<le> (\<Sum>c \<leftarrow> ?p. length c)" by simp
    ultimately show False using e(2) by simp
  qed
  then have "node_at d ?p = None" by (simp add: node_at_def map_of_eq_None_iff)
  then show "\<exists>r \<in> set (temp_names sample_host d). node_at d (dir @ [metadataDir, tmp_prefix @ r]) = None"
    by (simp add: sample_temp_def)
qed

lemma sample_walks:
  assumes "old \<noteq> []"
  shows "walks sample_host old"
  unfolding walks_def
proof (intro allI impI, elim conjE)
  fix d assume d: "disk_ok d" "is_dir_at d old"
  let ?qs = "sort_key length (remdups (filter (prefix old) (map fst (nodes d))))"
  let ?es = "map (\<lambda>q. (drop (length old) q, is_dir_at d q)) ?qs"
  have pre: "\<exists>r. q = old @ r" if "q \<in> set ?qs" for q using that by (auto simp: prefix_def)
  have "inj_on (drop (length old)) (set ?qs)" using pre by (intro inj_onI) (metis append_eq_conv_conj)
  then have dist: "distinct (map fst ?es)" by (simp add: distinct_map comp_def)
  have "sorted (map length ?qs)" by simp
  then have "sorted_wrt (\<lambda>a b. length a \<le> length b) ?qs" by (simp add: sorted_map)
  then have "sorted_wrt (\<lambda>a b. \<not> strict_prefix (drop (length old) b) (drop (length old) a)) ?qs"
  proof (rule sorted_wrt_mono_rel[rotated])
    fix a b assume "a \<in> set ?qs" "b \<in> set ?qs" and l: "length a \<le> length b"
    then obtain r t where "a = old @ r" "b = old @ t" using pre by blast
    then show "\<not> strict_prefix (drop (length old) b) (drop (length old) a)" using l prefix_length_less[of t r] by auto
  qed
  then have sorted: "sorted_wrt (\<lambda>a b. \<not> strict_prefix (fst b) (fst a)) ?es" by (simp add: sorted_wrt_map)
  have "(rel, b) \<in> set ?es \<longleftrightarrow> (\<exists>n. node_at d (old @ rel) = Some n \<and> (b \<longleftrightarrow> is_dir (Inr n)))" for rel b
  proof -
    have "(rel, b) \<in> set ?es \<longleftrightarrow> (\<exists>x \<in> fst ` set (nodes d). prefix old x \<and> rel = drop (length old) x \<and> (b \<longleftrightarrow> is_dir_at d x))"
      by (simp only: set_map set_sort set_remdups set_filter) blast
    also have "\<dots> \<longleftrightarrow> old @ rel \<in> fst ` set (nodes d) \<and> (b \<longleftrightarrow> is_dir_at d (old @ rel))"
      by (metis append_eq_conv_conj prefixE prefixI)
    also have "old @ rel \<in> fst ` set (nodes d) \<longleftrightarrow> node_at d (old @ rel) \<noteq> None"
      using assms by (simp add: node_at_def map_of_eq_None_iff)
    also have "\<dots> \<and> (b \<longleftrightarrow> is_dir_at d (old @ rel)) \<longleftrightarrow> (\<exists>n. node_at d (old @ rel) = Some n \<and> (b \<longleftrightarrow> is_dir (Inr n)))"
      by (auto simp: is_dir_at_def is_dir_def)
    finally show ?thesis .
  qed
  then have "walk_of d old ?es" using dist sorted by (simp add: walk_of_def)
  then show "\<exists>es. fastwalk sample_host d old = map Inr es \<and> walk_of d old es" by (intro exI[of _ ?es]) (simp add: sample_walk_def)
qed

lemma sample_write_effect:
  assumes "sample_write p b d = (d', Inr ())" and "disk_ok d"
  shows "disk_ok d'" and "sample_read p d' = Inr b" and "\<exists>d''. sample_write p c d' = (d'', Inr ())"
    and "q \<noteq> p \<Longrightarrow> node_at d' q = node_at d q \<and> leaf_at d' q = leaf_at d q"
proof -
  have p: "p \<noteq> []" "list_all good_name p" "is_dir_at d (butlast p)" "\<not> is_dir_at d p" using assms(1) by (auto simp: sample_write_def split: if_splits)
  let ?i = "length (inodes d)"
  have d': "d' = set_data ?i b (fst (new_inode p 0x1A4 d))" using assms(1) p by (auto simp: sample_write_def new_inode_def Let_def)
  have at: "node_at d' x = (if x = p then Some (Reg ?i) else node_at d x)" for x using p(1) by (simp add: d' new_inode_def Let_def set_data_def)
  have ok: "disk_ok (fst (new_inode p 0x1A4 d))" 
  proof -
    have "disk_ok (put_node p (Reg ?i) (d\<lparr>inodes := inodes d @ [\<lparr>i_perm = 0x1A4 AND ModePerm AND NOT (umask d), i_data = []\<rparr>]\<rparr>))"
      by (rule disk_ok_put) (use assms(2) p in \<open>auto simp: disk_ok_inodes is_dir_at_def inode_ok_def\<close>)
    then show ?thesis by (simp add: new_inode_def Let_def)
  qed
  then show "disk_ok d'" unfolding d' by simp
  show "sample_read p d' = Inr b" using at[of p] by (simp add: sample_read_def d' get_data_def set_data_def new_inode_def Let_def put_node_def nth_append)
  have "butlast p \<noteq> p" using p(1) by (metis append_butlast_last_id append_self_conv not_Cons_self2)
  then have "is_dir_at d' (butlast p)" "\<not> is_dir_at d' p" using p at by (simp_all add: is_dir_at_def)
  then show "\<exists>d''. sample_write p c d' = (d'', Inr ())" using p by (auto simp: sample_write_def new_inode_def Let_def)
  assume q: "q \<noteq> p"
  have "get_data i d' = get_data i d" if "node_at d q = Some (Reg i)" for i
  proof -
    have "i < ?i" using disk_okD(3)[OF assms(2) that] that by (cases "q = []") (simp_all add: inode_ok_def)
    then show ?thesis by (simp add: d' get_data_def set_data_def new_inode_def Let_def put_node_def nth_append)
  qed
  then show "node_at d' q = node_at d q \<and> leaf_at d' q = leaf_at d q" using at[of q] q
    by (auto simp: leaf_at_def split: option.splits node.splits)
qed

lemma sample_summaries [simp]: "summaries_ok sample_host"
  unfolding summaries_ok_def
proof (intro allI impI keeps_okI)
  fix p s d assume "list_all good_name p" "disk_ok d"
  then show "disk_ok (fst (WriteSummary sample_host p s d))"
  proof (cases "snd (sample_write p s d)")
    case (Inl e)
    then have "fst (sample_write p s d) = d" by (auto simp: sample_write_def split: if_splits prod.splits)
    then show ?thesis using \<open>disk_ok d\<close> by simp
  next
    case (Inr u)
    then have "sample_write p s d = (fst (sample_write p s d), Inr ())" by (metis (full_types) old.unit.exhaust prod.collapse)
    from sample_write_effect(1)[OF this \<open>disk_ok d\<close>] show ?thesis by simp
  qed
qed

lemma sample_names_cong:
  assumes "\<And>q. \<not> prefix (dir @ [metadataDir]) q \<Longrightarrow> leaf_at d' q = leaf_at d q"
  shows "sample_names dir d' = sample_names dir d"
proof -
  have listed: "q \<in> fst ` set (nodes e)" if "leaf_at e q \<noteq> None" "q \<noteq> []" for e q
    using that by (auto simp: leaf_at_def node_at_def map_of_eq_None_iff split: option.splits dest: map_of_SomeD) (metis image_eqI fst_conv map_of_SomeD)
  have "sample_names dir e = sorted_list_of_set ((\<lambda>q. Join (drop (length dir) q) ''/'') `
      {q. q \<noteq> [] \<and> prefix dir q \<and> \<not> prefix (dir @ [metadataDir]) q \<and> leaf_at e q \<noteq> None})" for e
  proof -
    have "{q. q \<noteq> [] \<and> prefix dir q \<and> \<not> prefix (dir @ [metadataDir]) q \<and> leaf_at e q \<noteq> None} =
        set (filter (\<lambda>q. q \<noteq> [] \<and> prefix dir q \<and> \<not> prefix (dir @ [metadataDir]) q \<and> leaf_at e q \<noteq> None) (map fst (nodes e)))"
      using listed[of e] by auto
    then show ?thesis unfolding sample_names_def by (simp only: set_map[symmetric] sorted_list_of_set_sort_remdups)
  qed
  moreover have "{q. q \<noteq> [] \<and> prefix dir q \<and> \<not> prefix (dir @ [metadataDir]) q \<and> leaf_at d' q \<noteq> None} =
      {q. q \<noteq> [] \<and> prefix dir q \<and> \<not> prefix (dir @ [metadataDir]) q \<and> leaf_at d q \<noteq> None}" using assms by auto
  ultimately show ?thesis by simp
qed

lemma sample_fsdiff [simp]: "fsdiff_ok sample_host dir"
  unfolding fsdiff_ok_def
proof (intro conjI allI impI)
  fix s d us s' d'
  assume "fsdiff_Diff sample_host dir fsdiffIgnores s d = Inr (us, s')"
    "\<forall>q. \<not> prefix (dir @ [metadataDir]) q \<longrightarrow> node_at d' q = node_at d q \<and> leaf_at d' q = leaf_at d q"
  then show "fsdiff_Diff sample_host dir fsdiffIgnores s' d' = Inr ([], s')"
    using sample_names_cong[of dir d' d] by (auto simp: sample_diff_def Let_def)
next
  fix s d d' assume "disk_ok d" "WriteSummary sample_host (summaryFile dir) s d = (d', Inr ())"
  then have w: "sample_write (summaryFile dir) s d = (d', Inr ())" "disk_ok d" by simp_all
  note e = sample_write_effect[OF w]
  show "ReadSummary sample_host (summaryFile dir) d' = Inr s" "\<exists>d''. WriteSummary sample_host (summaryFile dir) s d' = (d'', Inr ())"
    using e(2,3) by simp_all
  show "node_at d' q = node_at d q" "leaf_at d' q = leaf_at d q" if "q \<noteq> summaryFile dir" for q using e(4)[OF that] by simp_all
qed

section \<open>A local copy and its client\<close>

text \<open>The directory \<open>/p\<close> with the files \<open>a\<close> and \<open>b\<close> of version 1.\<close>

definition sample_disk :: disk where
  "sample_disk =
     \<lparr>nodes = [([''p''], Dir 0x1ED), ([''p'', ''a''], Reg 0), ([''p'', ''b''], Reg 1), ([''p'', ''.dl''], Dir 0x1ED),
               ([''p'', ''.dl'', ''version''], Reg 2)],
      inodes = [\<lparr>i_perm = 0x1A4, i_data = ''x''\<rparr>, \<lparr>i_perm = 0x1A4, i_data = ''y''\<rparr>, \<lparr>i_perm = 0x1ED, i_data = ''1''\<rparr>],
      umask = 0x12\<rparr>"

definition sample_Client :: "DB Client" where
  "sample_Client =
     \<lparr>cl_fs = service_stub sample_Fs (Some adminAuth) (\<lambda>_ _ _. True) (\<lambda>_ t. t), cl_host = sample_host, cl_lib = sample_lib,
      cl_Getenv = (\<lambda>_. ''''), cl_cwd = [], cl_sched = (\<lambda>n. n)\<rparr>"

definition sample_world :: "DB world" where
  "sample_world = \<lparr>w_disk = sample_disk, w_remote = sample_db\<rparr>"

lemma sample_Client_sel [simp]:
  "cl_fs sample_Client = service_stub sample_Fs (Some adminAuth) (\<lambda>_ _ _. True) (\<lambda>_ t. t)" "cl_host sample_Client = sample_host"
  "cl_lib sample_Client = sample_lib" "cl_cwd sample_Client = []" "parallelWorkerCount sample_Client = 2"
  by (simp_all add: sample_Client_def parallelWorkerCount_def)

lemma sample_world_sel [simp]: "w_disk sample_world = sample_disk" "w_remote sample_world = sample_db"
  by (simp_all add: sample_world_def)

lemma sample_disk_ok [simp]: "disk_ok sample_disk" "local_dir sample_disk [''p'']" "ReadVersionFile [''p''] sample_disk = Inr 1"
  "ReadCacheVersionFile [''c''] sample_disk = []"
  by code_simp+

lemma sample_node:
  "node_at sample_disk q = (if q = [] \<or> q = [''p''] \<or> q = [''p'', ''.dl''] then Some (Dir 0x1ED) else if q = [''p'', ''a''] then Some (Reg 0)
     else if q = [''p'', ''b''] then Some (Reg 1) else if q = [''p'', ''.dl'', ''version''] then Some (Reg 2) else None)"
  by (simp add: node_at_def sample_disk_def)

lemma sample_data: "get_data 0 sample_disk = ''x''" "get_data (Suc 0) sample_disk = ''y''" "get_data 2 sample_disk = ''1''"
  by (simp_all add: get_data_def sample_disk_def)

lemma sample_leaf:
  "leaf_at sample_disk q = (if q = [''p'', ''a''] then Some (LFile ''x'') else if q = [''p'', ''b''] then Some (LFile ''y'')
     else if q = [''p'', ''.dl'', ''version''] then Some (LFile ''1'') else None)"
  by (simp add: leaf_at_def sample_node sample_data)

lemma sample_unshared [simp]: "unshared [''p''] sample_disk"
  by (auto simp: unshared_def sample_node split: if_splits)

text \<open>The versions 1 and 3, and what lies between them.\<close>

definition sample_changes :: "DbObject list" where
  "sample_changes = build sample_lib (whole 1 \<lparr>From = 1, To = 3\<rparr>) sample_db"

lemma sample_snapshots:
  "snapshot (objects sample_db) 1 1 = {(''a'', sample_hash ''x'', 420, 1, False), (''b'', sample_hash ''y'', 420, 1, False)}"
  "snapshot (objects sample_db) 1 3 = {(''a'', sample_hash ''z'', 420, 1, False), (''c'', sample_hash ''w'', 420, 1, False)}"
  by code_simp+

lemma sample_place: "place [''p''] (''a'', f) = [''p'', ''a'']" "place [''p''] (''b'', f) = [''p'', ''b'']" "place [''p''] (''c'', f) = [''p'', ''c'']"
  by (simp_all add: place_def join_path_def)

lemma sample_named [simp]: "named_apart [''p''] (snapshot (objects sample_db) 1 1)" "named_apart [''p''] (snapshot (objects sample_db) 1 3)"
  unfolding sample_snapshots by (auto simp: named_apart_def inj_on_def sample_place plain_name_def)

lemma sample_mirror [simp]:
  "mirrors (file_leaf sample_lib (\<lambda>_. None) (contents sample_db)) [''p''] (snapshot (objects sample_db) 1 1) sample_disk"
proof -
  have "file_leaf sample_lib (\<lambda>_. None) (contents sample_db) (''a'', sample_hash ''x'', 420, 1, False) = Some (LFile ''x'')"
    "file_leaf sample_lib (\<lambda>_. None) (contents sample_db) (''b'', sample_hash ''y'', 420, 1, False) = Some (LFile ''y'')" by code_simp+
  then show ?thesis unfolding mirrors_def sample_snapshots
    by (auto simp: sample_leaf sample_place outside_metadata_iff metadataDir_def)
qed

lemma sample_sendable [simp]: "sendable sample_Fs sample_db sample_changes"
  unfolding sendable_def sample_Fs_sel by code_simp

lemma sample_applies [simp]: "applies sample_Fs sample_db [''p''] sample_disk sample_changes"
proof -
  let ?p = "\<lambda>r. join_path [''p''] (d_path r)"
  have e: "all_apart (map ?p sample_changes)" "list_all (\<lambda>r. outside_metadata [''p''] (?p r) \<and> ?p r \<in> {[''p'', ''a''], [''p'', ''b''], [''p'', ''c'']} \<and> plain_path sample_disk (?p r) \<and>
      (let h = fst (object_entry (object_content sample_lib (\<lambda>_. None) (contents sample_db)) r);
           b = snd (object_entry (object_content sample_lib (\<lambda>_. None) (contents sample_db)) r) in
       h_Typeflag h = TypeReg \<and> h_Size h = int (length b) \<or> h_Typeflag h = TarDeleted)) sample_changes" by code_simp+
  have "bare_below sample_disk q \<and> (\<forall>t. node_at sample_disk q \<noteq> Some (Sym t))" if q: "q \<in> {[''p'', ''a''], [''p'', ''b''], [''p'', ''c'']}" for q
  proof -
    obtain c where c: "q = [''p'', c]" "c \<noteq> ''.dl''" using q by auto
    have "leaf_at sample_disk r = None" if "strict_prefix q r" for r
      using that c by (auto simp: strict_prefix_def prefix_def sample_leaf)
    then show ?thesis by (simp add: bare_below_def sample_node)
  qed
  then show ?thesis using e by (auto simp: applies_def fits_def list_all_iff Let_def)
qed

section \<open>A copy to upload\<close>

text \<open>A local copy at version 3, with the files \<open>a\<close> and \<open>b\<close> changed since.\<close>

definition current_disk :: disk where
  "current_disk = sample_disk\<lparr>inodes := [\<lparr>i_perm = 0x1A4, i_data = ''x''\<rparr>, \<lparr>i_perm = 0x1A4, i_data = ''y''\<rparr>, \<lparr>i_perm = 0x1ED, i_data = ''3''\<rparr>]\<rparr>"

definition summarized_disk :: disk where
  "summarized_disk = fst (DiffAndSummarize sample_host [''p''] current_disk)"

definition sample_read_object :: "fsdiff_update \<Rightarrow> pb_object" where
  "sample_read_object u = projr (read_update [''p''] summarized_disk u)"

lemma fold_keep: "fold (\<lambda>_ b. b) xs b = b"
  by (induction xs arbitrary: b) simp_all

lemma unshared_nodes:
  assumes "list_all (\<lambda>e. list_all (\<lambda>e'. fst e = fst e' \<or> snd e \<noteq> snd e' \<or> (case snd e of Reg i \<Rightarrow> False | _ \<Rightarrow> True)) (nodes d)) (nodes d)"
  shows "unshared R d"
proof -
  have listed: "(p, Reg i) \<in> set (nodes d)" if "node_at d p = Some (Reg i)" for p i
    using that by (cases "p = []") (auto simp: node_at_def dest: map_of_SomeD)
  have "p = q" if "node_at d p = Some (Reg i)" "node_at d q = Some (Reg i)" for p q i
    using bspec[OF bspec[OF assms[unfolded list_all_iff] listed[OF that(1)]] listed[OF that(2)]] by simp
  then show ?thesis unfolding unshared_def by blast
qed

lemma summarized:
  "DiffAndSummarize sample_host [''p''] current_disk = (summarized_disk, Inr [\<lparr>u_Path = ''a'', u_Remove = False\<rparr>, \<lparr>u_Path = ''b'', u_Remove = False\<rparr>])"
  "ReadVersionFile [''p''] current_disk = Inr 3" "local_dir summarized_disk [''p'']" "unshared [''p''] summarized_disk"
  "read_update [''p''] summarized_disk \<lparr>u_Path = ''a'', u_Remove = False\<rparr> = Inr (sample_read_object \<lparr>u_Path = ''a'', u_Remove = False\<rparr>)"
  "read_update [''p''] summarized_disk \<lparr>u_Path = ''b'', u_Remove = False\<rparr> = Inr (sample_read_object \<lparr>u_Path = ''b'', u_Remove = False\<rparr>)"
proof -
  show "unshared [''p''] summarized_disk" by (rule unshared_nodes) code_simp
qed code_simp+

end
