(* ===== verification/ClientProps.thy ===== *)
theory ClientProps
  imports LocalSamples
begin

text \<open>The properties of the client, of writing files and of the cached daemon, with their witnesses.\<close>

section \<open>Samples\<close>

text \<open>A response with one archive that changes \<open>a\<close> and adds \<open>c\<close>.\<close>

definition sample_header :: "string \<Rightarrow> bytes \<Rightarrow> tar_header" where
  "sample_header name b = \<lparr>h_Name = name, h_Mode = 0x1A4, h_Typeflag = TypeReg, h_Size = int (length b), h_Linkname = []\<rparr>"

definition sample_entry :: "string \<Rightarrow> bytes \<Rightarrow> tar_entry" where
  "sample_entry name b = (sample_header name b, b)"

definition sample_response :: GetCompressResponse where
  "sample_response = \<lparr>rc_Version = 3, rc_Bytes = concat (map put_entry [sample_entry ''a'' ''z'', sample_entry ''c'' ''w'']), rc_PackPath = None\<rparr>"

definition sending :: "GetCompressResponse list \<Rightarrow> DB Client" where
  "sending msgs = sample_Client\<lparr>cl_fs := (cl_fs sample_Client)\<lparr>pb_GetCompress := (\<lambda>req db. (db, Inr (msgs, None)))\<rparr>\<rparr>"

definition refusing :: "DB Client" where
  "refusing = sample_Client\<lparr>cl_fs := (cl_fs sample_Client)\<lparr>pb_Update := (\<lambda>obs db. (db, Inl Unavailable))\<rparr>\<rparr>"

definition cacheless :: "DB Client" where
  "cacheless = sample_Client\<lparr>cl_fs := (cl_fs sample_Client)\<lparr>pb_GetCache := (\<lambda>db. (db, Inr ([], None)))\<rparr>\<rparr>"

definition idle :: "DB Client" where
  "idle = (sending [sample_response])\<lparr>cl_Getenv := (\<lambda>_. ''0'')\<rparr>"

text \<open>A link \<open>a\<close> to a file \<open>b\<close>.\<close>

definition linked_disk :: disk where
  "linked_disk = put_node [''p'', ''a''] (Sym ''b'') sample_disk"

definition sample_kernel :: kernel where
  "sample_kernel = \<lparr>access_write = (\<lambda>_ _. True), statfs = (\<lambda>_ _. Inr (10, 4096))\<rparr>"

definition sample_Cached :: Cached where
  "sample_Cached = \<lparr>ca_Env = Dev, ca_StagingPath = [''p''], ca_currentVersion = 7\<rparr>"

definition sample_publish :: NodePublishVolumeRequest where
  "sample_publish = \<lparr>pv_VolumeId = ''v'', pv_TargetPath = ''/vol'', pv_VolumeCapability = True, pv_VolumeContext = [(''placeCacheAtPath'', ''cache'')]\<rparr>"

lemma sending_sel [simp]:
  "cl_host (sending ms) = sample_host" "cl_lib (sending ms) = sample_lib" "parallelWorkerCount (sending ms) = 2"
  "pb_GetCompress (cl_fs (sending ms)) req db = (db, Inr (ms, None))"
  by (simp_all add: sending_def parallelWorkerCount_def sample_Client_def)

section \<open>Rebuilding a local copy\<close>

text \<open>
  C2: client and service together: if a directory holds exactly the files of one version of a project, then \<open>Rebuild\<close> to a
  later version, talking to the service, leaves it with exactly the files of that version and records it, however the
  workers are scheduled. The versions hold no packs, and the changes between them can be applied independently of each
  other: no changed path lies above another, and nothing in the directory stands in the way of one.
\<close>

theorem Rebuild_mirrors:
  assumes "lib_ok (fs_lib F)" and "\<And>n. fs_Send F n" and "fs_Connect F" and "requireProjectAuth ctx = Inr a" and "a = - 1 \<or> a = p"
    and "cl_fs C = service_stub F ctx s1 s2" and "cl_lib C = fs_lib F" and "fresh_names (cl_host C) dir" and "0 < parallelWorkerCount C"
    and "db = w_remote w" and "db_ok db" and "0 \<le> from" and "from < to" and "is_int64 to"
    and "S0 = snapshot (objects db) p from" and "S1 = snapshot (objects db) p to" and "tree_ok S1"
    and "named_apart dir S0" and "named_apart dir S1"
    and "ds = build (fs_lib F) (whole p \<lparr>From = from, To = to\<rparr>) db" and "sendable F db ds" and "applies F db dir (w_disk w) ds"
    and "local_dir (w_disk w) dir" and "unshared dir (w_disk w)" and "ReadVersionFile dir (w_disk w) = Inr from"
    and "ReadCacheVersionFile cacheDir (w_disk w) = []"
    and "mirrors (file_leaf (fs_lib F) (fs_cache F) (contents db)) dir S0 (w_disk w)"
  shows "\<exists>w' res. Rebuild C p [] (Some to) dir [] cacheDir matcher False w = Some (w', Inr res) \<and>
    mirrors (file_leaf (fs_lib F) (fs_cache F) (contents db)) dir S1 (w_disk w') \<and>
    (ds \<noteq> [] \<longrightarrow> rr_Version res = to \<and> ReadVersionFile dir (w_disk w') = Inr to)"
  by (rule Rebuild_mirrors_version[OF assms])

theorem Rebuild_mirrors_witness:
  "\<exists>w' res. Rebuild sample_Client 1 [] (Some 3) [''p''] [] [''c''] None False sample_world = Some (w', Inr res) \<and>
    mirrors (file_leaf sample_lib (\<lambda>_. None) (contents sample_db)) [''p''] (snapshot (objects sample_db) 1 3) (w_disk w') \<and>
    rr_Version res = 3 \<and> ReadVersionFile [''p''] (w_disk w') = Inr 3"
proof -
  have t: "tree_ok (snapshot (objects sample_db) 1 3)" "sample_changes \<noteq> []" "is_int64 3" by code_simp+
  have "\<exists>w' res. Rebuild sample_Client 1 [] (Some 3) [''p''] [] [''c''] None False sample_world = Some (w', Inr res) \<and>
    mirrors (file_leaf (fs_lib sample_Fs) (fs_cache sample_Fs) (contents sample_db)) [''p''] (snapshot (objects sample_db) 1 3) (w_disk w') \<and>
    (sample_changes \<noteq> [] \<longrightarrow> rr_Version res = 3 \<and> ReadVersionFile [''p''] (w_disk w') = Inr 3)"
    by (rule Rebuild_mirrors[where ctx = "Some adminAuth" and a = "- 1" and ?from = 1 and ?s1.0 = "\<lambda>_ _ _. True" and ?s2.0 = "\<lambda>_ t. t"
        and ?S0.0 = "snapshot (objects sample_db) 1 1" and ?S1.0 = "snapshot (objects sample_db) 1 3" and db = sample_db])
      (simp_all add: t sample_lib_ok, simp add: sample_changes_def)
  then show ?thesis using t by simp
qed

text \<open>
  C8: in general, for a response that also has packs and removals, \<open>Rebuild\<close> makes the files and links below the paths of the
  response those of its archives (of a pack, nothing else is left), leaves all other files as they were, and records
  the version, the number of entries and whether all of them match, for every scheduling of the workers.
\<close>

theorem Rebuild_effect:
  assumes "local_dir (w_disk w) dir" and "unshared dir (w_disk w)" and "fresh_names (cl_host C) dir" and "0 < parallelWorkerCount C"
    and "ReadVersionFile dir (w_disk w) = Inr from" and "toVersion \<noteq> Some from"
    and "pb_GetCompress (cl_fs C) \<lparr>g_Project = p, g_FromVersion = Some from, g_ToVersion = toVersion,
          g_Queries = [\<lparr>q_Path = pfx, q_IsPrefix = True, q_Ignores = ignores\<rparr>],
          g_AvailableCacheVersions = ReadCacheVersionFile cacheDir (w_disk w)\<rparr> (w_remote w) = (x, Inr (msgs, None))"
    and "msgs \<noteq> []" and "\<forall>r \<in> set msgs. rc_Version r = v" and "is_int64 v"
    and "\<forall>r \<in> set msgs. applicable (cl_lib C) dir (w_disk w) r" and "all_apart (concat (map (owned (cl_lib C) dir) msgs))"
  shows "\<exists>w' res. Rebuild C p pfx toVersion dir ignores cacheDir matcher False w = Some (w', Inr res) \<and> w_remote w' = x \<and>
    rr_Version res = v \<and> rr_Count res = sum_list (map (entry_count (cl_lib C)) msgs) \<and>
    (rr_FileMatch res \<longleftrightarrow> rr_Count res \<noteq> 0 \<and> all_matched C matcher msgs) \<and> ReadVersionFile dir (w_disk w') = Inr v \<and>
    (\<forall>q. outside_metadata dir q \<longrightarrow> leaf_at (w_disk w') q =
       (if under (concat (map (owned (cl_lib C) dir) msgs)) q then response_leaf (cl_lib C) dir msgs q else leaf_at (w_disk w) q))"
proof -
  have rem: "remote (pb_GetCompress (cl_fs C) \<lparr>g_Project = p, g_FromVersion = Some from, g_ToVersion = toVersion,
          g_Queries = [\<lparr>q_Path = pfx, q_IsPrefix = True, q_Ignores = ignores\<rparr>],
          g_AvailableCacheVersions = ReadCacheVersionFile cacheDir (w_disk w)\<rparr>) w = (w\<lparr>w_remote := x\<rparr>, Inr (msgs, None))"
    using assms(7) by (simp add: remote_def)
  show ?thesis using rebuild_disk_effect[OF assms(1-4,8-12), where cacheDir=cacheDir and m=matcher] assms(5,6,8) rem
    by (auto simp: Rebuild_def tracker_result_def)
qed

theorem Rebuild_effect_witness:
  "\<exists>w' res. Rebuild (sending [sample_response]) 1 [] None [''p''] [] [''c''] None False sample_world = Some (w', Inr res) \<and>
     leaf_at (w_disk w') [''p'', ''a''] = Some (LFile ''z'') \<and> leaf_at (w_disk w') [''p'', ''b''] = Some (LFile ''y'')"
proof -
  have e: "entries_of sample_lib sample_response = [sample_entry ''a'' ''z'', sample_entry ''c'' ''w'']" "snd (tar_decode sample_lib (rc_Bytes sample_response))"
    "rc_Version sample_response = 3" "rc_PackPath sample_response = None" "is_int64 3" by code_simp+
  have o: "owned sample_lib [''p''] sample_response = [[''p'', ''a''], [''p'', ''c'']]"
    by (simp add: owned_def e entry_path_def sample_entry_def sample_header_def join_path_def)
  have pl: "plain_path sample_disk [''p'', ''a'']" "plain_path sample_disk [''p'', ''c'']" by code_simp+
  have "bare_below sample_disk [''p'', c]" if "c \<noteq> ''.dl''" for c
    unfolding bare_below_def using that by (auto simp: strict_prefix_def prefix_def sample_leaf)
  then have "applicable sample_lib [''p''] sample_disk sample_response"
    using pl e(2) by (auto simp: applicable_def o e(1,3,4,5) entry_path_def sample_entry_def sample_header_def join_path_def all_apart_def apart_def fits_def
        sample_node outside_metadata_iff metadataDir_def)
  moreover have "response_leaf sample_lib [''p''] [sample_response] [''p'', ''a''] = Some (LFile ''z'')"
    by (simp add: response_leaf_def o e under_iff archive_leaf_def entry_path_def sample_entry_def sample_header_def join_path_def entry_leaf_def)
  ultimately show ?thesis
    using Rebuild_effect[of sample_world "[''p'']" "sending [sample_response]" 1 None 1 "[]" "[]" "[''c'']" sample_db "[sample_response]" 3 None] e o
    by (auto simp: all_apart_def apart_def under_iff sample_leaf outside_metadata_iff metadataDir_def)
qed

text \<open>
  C7: client and service together: \<open>Update\<close> of a directory at the latest version sends the object of every difference exactly once, in
  an order that the scheduling decides, and the head of the project becomes the old one with these objects applied;
  when there is a new version, the client records it and leaves the files as they are.
\<close>

theorem Update_uploads:
  assumes "db_ok (w_remote w)" and "find_project (w_remote w) p = Some pr" and "0 \<le> latest_version pr" and "is_int64 (latest_version pr + 1)"
    and "requireProjectAuth ctx = Inr a" and "a = - 1 \<or> a = p" and "fs_Connect F" and "fs_Commit F"
    and "cl_fs C = service_stub F ctx s1 s2" and "0 < parallelWorkerCount C"
    and "ReadVersionFile dir (w_disk w) = Inr (latest_version pr)" and "DiffAndSummarize (cl_host C) dir (w_disk w) = (d1, Inr us)" and "us \<noteq> []"
    and "local_dir d1 dir" and "unshared dir d1" and "\<And>u. u \<in> set us \<Longrightarrow> read_update dir d1 u = Inr (f u)"
    and "\<And>obs. mset obs = mset (map f us) \<Longrightarrow> update_ok F (w_remote w) pr obs"
  shows "\<exists>obs db' v. mset obs = mset (map f us) \<and> Fs_Update F ctx (map (Pair p) obs) None (w_remote w) = (db', Inr v) \<and> db_ok db' \<and>
    snapshot (objects db') p v = fst (spec_Update F (w_remote w) pr obs (snapshot (objects (w_remote w)) p (latest_version pr), {})) \<and>
    (v = latest_version pr + 1 \<longrightarrow> (\<exists>d'. client_Update C p dir w = Some (\<lparr>w_disk = d', w_remote = db'\<rparr>, Inr (v, word_of_nat (length us))) \<and>
       ReadVersionFile dir d' = Inr v \<and> (\<forall>q. outside_metadata dir q \<longrightarrow> leaf_at d' q = leaf_at d1 q)))"
  by (rule client_Update_uploads[OF assms(1-15)]) (fact assms(16), fact assms(17))

theorem Update_uploads_witness:
  "\<exists>obs db' v. mset obs = {#sample_read_object \<lparr>u_Path = ''a'', u_Remove = False\<rparr>, sample_read_object \<lparr>u_Path = ''b'', u_Remove = False\<rparr>#} \<and>
     Fs_Update sample_Fs (Some adminAuth) (map (Pair 1) obs) None sample_db = (db', Inr v) \<and> db_ok db'"
proof -
  let ?us = "[\<lparr>u_Path = ''a'', u_Remove = False\<rparr>, \<lparr>u_Path = ''b'', u_Remove = False\<rparr>]"
  let ?w = "\<lparr>w_disk = current_disk, w_remote = sample_db\<rparr>"
  have ok: "update_ok sample_Fs sample_db sample_pr obs" if "mset obs = mset (map sample_read_object ?us)" for obs
  proof -
    have "map Path (map sample_read_object ?us) = [''a'', ''b'']" by code_simp
    then have "distinct (map Path (map sample_read_object ?us))" by simp
    then have "distinct (map Path obs)" using that mset_eq_imp_distinct_iff[of "map Path obs" "map Path (map sample_read_object ?us)"] by simp
    moreover have "obs \<noteq> []" using that by auto
    ultimately show ?thesis by (simp add: update_ok_def group_packs_def plain_objects_def Let_def fold_keep)
  qed
  have rd: "read_update [''p''] summarized_disk u = Inr (sample_read_object u)"
    if "u = \<lparr>u_Path = ''a'', u_Remove = False\<rparr> \<or> u = \<lparr>u_Path = ''b'', u_Remove = False\<rparr>" for u using that summarized(5,6) by auto
  have "db_ok sample_db" "find_project sample_db 1 = Some sample_pr" "is_int64 (latest_version sample_pr + 1)" "latest_version sample_pr = 3" by code_simp+
  then show ?thesis
    using Update_uploads[of ?w 1 sample_pr "Some adminAuth" "- 1" sample_Fs sample_Client "\<lambda>_ _ _. True" "\<lambda>_ t. t" "[''p'']" summarized_disk ?us sample_read_object]
      ok summarized(1-4) rd by auto
qed





text \<open>
  C35: without workers (\<^verbatim>\<open>DL_WRITE_WORKERS\<close> is zero or negative), \<open>Rebuild\<close> writes no file; up to 32 messages it succeeds and records the
  version all the same, and with more it never returns.
\<close>

theorem No_workers_no_files:
  assumes "local_dir d dir" and "unshared dir d" and "parallelWorkerCount C \<le> 0" and "msgs \<noteq> []" and "\<forall>r \<in> set msgs. rc_Version r = v" and "is_int64 v"
  shows "if length msgs \<le> 32
    then \<exists>d'. rebuild_disk C dir cacheDir m False msgs None d = Some (d', Inr (emptyResult v)) \<and> ReadVersionFile dir d' = Inr v \<and>
      (\<forall>q. outside_metadata dir q \<longrightarrow> leaf_at d' q = leaf_at d q)
    else rebuild_disk C dir cacheDir m False msgs None d = None"
  by (rule unserved_rebuild_disk[OF assms])

theorem No_workers_no_files_witness:
  "\<exists>d'. rebuild_disk idle [''p''] [''c''] None False [sample_response] None sample_disk = Some (d', Inr (emptyResult 3)) \<and>
     ReadVersionFile [''p''] d' = Inr 3 \<and> leaf_at d' [''p'', ''a''] = Some (LFile ''x'')"
proof -
  have "parallelWorkerCount idle \<le> 0" "rc_Version sample_response = 3" "is_int64 3" by code_simp+
  then show ?thesis using No_workers_no_files[of sample_disk "[''p'']" idle "[sample_response]" 3 "[''c'']" None]
    by (auto simp: sample_leaf outside_metadata_iff metadataDir_def)
qed

section \<open>Objects and files\<close>

text \<open>
  C23: what \<open>writeObject\<close> puts on the disk for a file, an empty directory or a link, \<open>ObjectFromFilePath\<close> reads back as the same
  object: its path, its content (of a link, the target) and its type.
\<close>

theorem Write_then_read:
  assumes "fits d (join_path root (h_Name (fst e))) e" and "h_Typeflag (fst e) \<noteq> TarDeleted" and "unshared root d" and "\<forall>x \<in> set ex. is_dir_at d x"
    and "prefix root (join_path root (h_Name (fst e)))"
  shows "\<exists>d' ex' ob. writeObject H root cache e ex d = (d', Inr ex') \<and> ObjectFromFilePath root (h_Name (fst e)) d' = Inr ob \<and>
    Path ob = h_Name (fst e) \<and> \<not> Deleted ob \<and> TarTypeFromMode (word_of_int (Mode ob)) = h_Typeflag (fst e) \<and>
    Content ob = Some (if h_Typeflag (fst e) = TypeReg then snd e else if h_Typeflag (fst e) = TypeSymlink then h_Linkname (fst e) else [])"
proof -
  let ?p = "join_path root (h_Name (fst e))"
  obtain d' ex' where w: "writeObject H root cache e ex d = (d', Inr ex')" and ok: "disk_ok d'" and l: "leaf_at d' ?p = entry_leaf e"
    and dir: "h_Typeflag (fst e) = TypeDir \<longrightarrow> is_dir_at d' ?p"
    using writeObject_effect[OF assms(1) refl assms(3,5,4), of H cache] unfolding touches_def by blast
  have types: "h_Typeflag (fst e) \<in> {TypeReg, TypeDir, TypeSymlink}" "h_Typeflag (fst e) = TypeSymlink \<longrightarrow> h_Linkname (fst e) \<noteq> []"
    using assms(1,2) by (auto simp: fits_def typeflag_defs TarDeleted_def)
  obtain n where n: "node_at d' ?p = Some n" using l dir types
    by (cases "node_at d' ?p") (auto simp: leaf_at_def entry_leaf_def is_dir_at_def typeflag_defs split: if_splits)
  show ?thesis using w ObjectFromFilePath_node[OF ok refl n] l dir types n
    by (cases n) (auto simp: leaf_at_def entry_leaf_def is_dir_at_def info_mode_def node_types typeflag_defs split: if_splits)
qed

theorem Write_then_read_witness:
  "\<exists>d' ex' ob. writeObject sample_host [''p''] [''c''] (sample_entry ''a'' ''z'') [] sample_disk = (d', Inr ex') \<and>
     ObjectFromFilePath [''p''] ''a'' d' = Inr ob \<and> Content ob = Some ''z''"
proof -
  have "plain_path sample_disk [''p'', ''a'']" by code_simp
  moreover have "bare_below sample_disk [''p'', ''a'']" by (auto simp: bare_below_def strict_prefix_def prefix_def sample_leaf)
  ultimately show ?thesis using Write_then_read[of sample_disk "[''p'']" "sample_entry ''a'' ''z''" "[]" sample_host "[''c'']"]
    by (auto simp: fits_def sample_entry_def sample_header_def join_path_def sample_node typeflag_defs TarDeleted_def)
qed

text \<open>
  C36: a regular file that arrives at the place of a symbolic link to another file does not replace the link: it is written
  through it, so the other file gets its content, and the link stays.
\<close>

theorem Link_overwrites_target:
  assumes "disk_ok d" and "node_at d p = Some (Sym t)" and "p = join_path root (h_Name h)" and "resolve True p d = Inr q"
    and "node_at d q = Some (Reg i)" and "h_Typeflag h = TypeReg" and "h_Size h = int (length content)" and "butlast p \<in> set ex"
  shows "\<exists>d'. writeObject H root cache (h, content) ex d = (d', Inr ex) \<and> (\<forall>x. node_at d' x = node_at d x) \<and> get_data i d' = content"
proof -
  have "i < length (inodes d)" using disk_okD(3)[OF assms(1,5)] assms(5) by (cases "q = []") (simp_all add: inode_ok_def)
  then show ?thesis using assms
    by (simp add: writeObject_def Let_def write_regular_def open_create_def retryFileErrors_def os_call_def andThen_def ret_def
        CopyContent_def PreAllocate_def fix_mode_def typeflag_defs TarCached_def)
qed

theorem Link_overwrites_target_witness:
  "\<exists>d'. writeObject sample_host [''p''] [''c''] (sample_entry ''a'' ''z'') [[''p'']] linked_disk = (d', Inr [[''p'']]) \<and>
     node_at d' [''p'', ''a''] = Some (Sym ''b'') \<and> node_at d' [''p'', ''b''] = Some (Reg 1) \<and> get_data 1 d' = ''z''"
proof -
  have e: "disk_ok linked_disk" "resolve True [''p'', ''a''] linked_disk = Inr [''p'', ''b'']" by code_simp+
  have n: "node_at linked_disk [''p'', ''a''] = Some (Sym ''b'')" "node_at linked_disk [''p'', ''b''] = Some (Reg 1)"
    by (simp_all add: linked_disk_def sample_node)
  show ?thesis
    using Link_overwrites_target[OF e(1) n(1) _ e(2) n(2), of "[''p'']" "sample_header ''a'' ''z''" "''z''" "[[''p'']]" sample_host "[''c'']"] n
    by (auto simp: sample_entry_def sample_header_def join_path_def)
qed

section \<open>Volumes\<close>

text \<open>
  C13: \<open>NodePublishVolume\<close> with a prepared cache makes the place of the cache in the volume a copy of the staging directory, in which
  every file is a hard link to the file of the staging directory; it changes nothing outside of the volume, but for
  directories it creates above it, and copies no data.
\<close>

theorem Publish_links:
  assumes "pv_VolumeId req \<noteq> []" and "pv_TargetPath req \<noteq> []" and "pv_VolumeCapability req"
    and "target = abs_path (cl_cwd C) (pv_TargetPath req)" and "cache_place target (pv_VolumeContext req) = (spot, perm)"
    and "publishable C K c target spot d"
  shows "\<exists>d'. NodePublishVolume C K c req d = (d', Inr ()) \<and> disk_ok d' \<and> inodes d' = inodes d \<and> is_dir_at d' spot \<and>
    (\<forall>rel. rel \<noteq> [] \<longrightarrow> node_at d' (spot @ rel) = map_option (link_node d) (node_at d (ca_StagingPath c @ rel))) \<and>
    (\<forall>q. \<not> prefix target q \<longrightarrow> node_at d' q = node_at d q \<or> node_at d q = None \<and> strict_prefix q target \<and> is_dir_at d' q)"
  using publish_effect[OF assms(6), of perm] NodePublishVolume_valid[OF assms(1-3), of C spot perm K c] assms(4,5) by simp

lemma sample_publishable: "publishable sample_Client sample_kernel sample_Cached [''vol''] [''vol'', ''cache''] sample_disk"
proof -
  have "plain_path sample_disk [''vol'', ''cache'']" by code_simp
  then show ?thesis using sample_walks[of "[''p'']"]
    by (simp add: publishable_def sample_Cached_def sample_kernel_def is_dir_at_def sample_node apart_def)
qed

theorem Publish_links_witness:
  "\<exists>d'. NodePublishVolume sample_Client sample_kernel sample_Cached sample_publish sample_disk = (d', Inr ()) \<and>
     node_at d' [''vol'', ''cache'', ''a''] = Some (Reg 0)"
proof -
  have e: "abs_path [] (pv_TargetPath sample_publish) = [''vol'']" "cache_place [''vol''] (pv_VolumeContext sample_publish) = ([''vol'', ''cache''], 0x1FF)"
    "pv_VolumeId sample_publish \<noteq> []" "pv_TargetPath sample_publish \<noteq> []" "pv_VolumeCapability sample_publish" "ca_StagingPath sample_Cached = [''p'']"
    by code_simp+
  obtain d' where "NodePublishVolume sample_Client sample_kernel sample_Cached sample_publish sample_disk = (d', Inr ())"
    "\<forall>rel. rel \<noteq> [] \<longrightarrow> node_at d' ([''vol'', ''cache''] @ rel) = map_option (link_node sample_disk) (node_at sample_disk ([''p''] @ rel))"
    using Publish_links[OF e(3-5) _ _ sample_publishable] e by auto
  then show ?thesis by (auto dest: spec[of _ "[''a'']"] simp: sample_node link_node_def)
qed



section \<open>States and summaries\<close>

text \<open>
  C26: the string that the client's \<open>Snapshot\<close> returns is read by its \<open>Reset\<close> as the same list of projects and versions. The string of a
  service without projects is the exception: it is empty, and \<open>Reset\<close> refuses it.
\<close>

theorem Snapshot_string_roundtrip:
  assumes "pb_Snapshot (cl_fs C) (w_remote w) = (x, Inr ps)" and "list_all (\<lambda>p. is_int64 (fst p) \<and> is_int64 (snd p)) ps"
  shows "\<exists>s. client_Snapshot C w = (w\<lparr>w_remote := x\<rparr>, Inr s) \<and>
    (\<forall>w'. client_Reset C s w' = (if ps = [] then (w', Inl (InvalidState [])) else remote (pb_Reset (cl_fs C) ps) w'))"
proof (cases "ps = []")
  case True
  then show ?thesis using assms(1) by (simp add: client_Snapshot_def client_Reset_def remote_def andThen_def ret_def Split_no_occurrence)
next
  case False
  have "remote (pb_Snapshot (cl_fs C)) w = (w\<lparr>w_remote := x\<rparr>, Inr ps)" using assms(1) by (simp add: remote_def)
  then show ?thesis using False snapshot_string[OF False assms(2)] by (simp add: client_Snapshot_def client_Reset_def andThen_def ret_def)
qed

theorem Snapshot_string_roundtrip_witness:
  "\<exists>s. client_Snapshot sample_Client sample_world = (sample_world, Inr s) \<and>
     client_Reset sample_Client s sample_world = remote (pb_Reset (cl_fs sample_Client) [(1, 3)]) sample_world"
proof -
  have "pb_Snapshot (cl_fs sample_Client) (w_remote sample_world) = (sample_db, Inr [(1, 3)])" "is_int64 1" "is_int64 3" by code_simp+
  moreover have "sample_world\<lparr>w_remote := sample_db\<rparr> = sample_world" by (simp add: sample_world_def)
  ultimately show ?thesis using Snapshot_string_roundtrip[of sample_Client sample_world sample_db "[(1, 3)]"] by auto
qed

text \<open>
  C34: \<open>Update\<close> of the client writes its summary of the directory before it uploads. If the service then refuses the update, the
  changes are lost from sight: a second \<open>Update\<close> finds no changes, reports success and uploads nothing.
\<close>

theorem Refused_update_forgets:
  assumes "fsdiff_ok (cl_host C) dir" and "summaries_ok (cl_host C)" and "local_dir (w_disk w) dir"
    and "client_Update C project dir w = Some (w1, Inl (Rpc c))" and "\<And>obs. pb_Update (cl_fs C) obs (w_remote w) = (w_remote w, Inl c)"
  shows "\<exists>w2 v. client_Update C project dir w1 = Some (w2, Inr (v, 0)) \<and> ReadVersionFile dir (w_disk w) = Inr v \<and> w_remote w2 = w_remote w"
  by (rule refused_update[OF assms])

theorem Refused_update_forgets_witness:
  "\<exists>w1 w2 v. client_Update refusing 1 [''p''] sample_world = Some (w1, Inl (Rpc Unavailable)) \<and>
     client_Update refusing 1 [''p''] w1 = Some (w2, Inr (v, 0)) \<and> ReadVersionFile [''p''] sample_disk = Inr v"
proof -
  have "case client_Update refusing 1 [''p''] sample_world of Some (w1, Inl (Rpc Unavailable)) \<Rightarrow> True | _ \<Rightarrow> False" by code_simp
  then obtain w1 where w1: "client_Update refusing 1 [''p''] sample_world = Some (w1, Inl (Rpc Unavailable))"
    by (auto split: option.splits prod.splits sum.splits client_error.splits code.splits)
  have "cl_host refusing = sample_host" "\<And>obs. pb_Update (cl_fs refusing) obs (w_remote sample_world) = (w_remote sample_world, Inl Unavailable)"
    by (simp_all add: refusing_def)
  then show ?thesis using w1 Refused_update_forgets[of refusing "[''p'']" sample_world 1 w1 Unavailable] by simp blast
qed

text \<open>
  When the service has no cache, \<open>Prepare\<close> succeeds with version \<open>-1\<close> and the daemon reports itself as ready.
\<close>

theorem Ready_without_cache:
  assumes "\<And>x. snd (pb_GetCache (cl_fs C) x) = Inr ([], None)" and "Prepare C c w = Some (w', c', Inr ())"
  shows "ca_currentVersion c' = - 1 \<and> client_Probe (daemon_stub C K c') d = Inr True"
  using Prepare_nothing[OF assms] by (simp add: client_Probe_def daemon_stub_def Probe_def)

theorem Ready_without_cache_witness:
  "\<exists>w' c'. Prepare cacheless sample_Cached sample_world = Some (w', c', Inr ()) \<and>
     client_Probe (daemon_stub cacheless sample_kernel c') sample_disk = Inr True"
proof -
  have "case Prepare cacheless sample_Cached sample_world of Some (w', c', Inr _) \<Rightarrow> True | _ \<Rightarrow> False" by code_simp
  then obtain w' c' where p: "Prepare cacheless sample_Cached sample_world = Some (w', c', Inr ())"
    by (auto split: option.splits prod.splits sum.splits)
  have "\<And>x. snd (pb_GetCache (cl_fs cacheless) x) = Inr ([], None)" by (simp add: cacheless_def)
  then show ?thesis using Ready_without_cache[OF _ p] p by blast
qed

end
