(* ===== verification/Commands.thy ===== *)
theory Commands
  imports Daemon
begin

text \<open>
  The commands of \<^verbatim>\<open>pkg/cli\<close> and \<^verbatim>\<open>pkg/cachedcli\<close> that call the client: how flags become arguments (a flag that is
  not given is \<open>-1\<close>), which flags a mode requires, and the lines printed on the standard output. What goes to
  the log is left out, and so are parsing the command line, connecting and telemetry.
\<close>

section \<open>Flags and output\<close>

datatype cli_error = FlagRequired string | InvalidMode string | BadMatcher ferr | CallFailed client_error

type_synonym 'w command = "'w world \<Rightarrow> ('w world \<times> (cli_error + string list)) option"

definition flag :: "int \<Rightarrow> int option" where
  "flag n = (if n = - 1 then None else Some n)"

text \<open>The bits of the \<^verbatim>\<open>float32\<close> \<open>-1\<close>, the only ones that compare equal to it.\<close>

definition no_sample :: "32 word" where
  "no_sample = 0xBF800000"

definition printing :: "('a \<Rightarrow> string list) \<Rightarrow> 'w world \<times> (client_error + 'a) \<Rightarrow> 'w world \<times> (cli_error + string list)" where
  "printing out wr = (case wr of (w, Inl e) \<Rightarrow> (w, Inl (CallFailed e)) | (w, Inr a) \<Rightarrow> (w, Inr (out a)))"

definition returned :: "('a \<Rightarrow> string list) \<Rightarrow> ('w, 'a) call \<Rightarrow> 'w command" where
  "returned out call w = Some (printing out (call w))"

definition refused_flag :: "cli_error \<Rightarrow> 'w command" where
  "refused_flag e w = Some (w, Inl e)"

text \<open>\<^verbatim>\<open>json.Marshal\<close> of a struct of numbers and booleans.\<close>

definition json_field :: "string \<times> string \<Rightarrow> string" where
  "json_field f = CHR 0x22 # fst f @ CHR 0x22 # CHR '':'' # snd f"

definition json_object :: "(string \<times> string) list \<Rightarrow> string" where
  "json_object fs = ''{'' @ Join (map json_field fs) '','' @ ''}''"

definition json_bool :: "bool \<Rightarrow> string" where
  "json_bool b = (if b then ''true'' else ''false'')"

definition GcResult :: "int \<Rightarrow> string" where
  "GcResult n = json_object [(''count'', FormatInt n)]"

definition rebuild_json :: "RebuildResult \<Rightarrow> string" where
  "rebuild_json r = json_object [(''version'', FormatInt (rr_Version r)), (''count'', FormatInt (uint (rr_Count r))), (''fileMatch'', json_bool (rr_FileMatch r))]"

section \<open>Commands of the client\<close>

definition NewCmdNew :: "'w Client \<Rightarrow> int \<Rightarrow> int \<Rightarrow> string \<Rightarrow> 'w command" where
  "NewCmdNew C i template patterns = returned (\<lambda>_. []) (client_NewProject C i (flag template) (Some patterns))"

definition NewCmdGet :: "'w Client \<Rightarrow> int \<Rightarrow> int \<Rightarrow> int \<Rightarrow> string \<Rightarrow> 'w command" where
  "NewCmdGet C project to from pfx = returned (\<lambda>_. []) (client_Get C project pfx [] (flag from) (flag to))"

definition NewCmdInspect :: "'w Client \<Rightarrow> int \<Rightarrow> 'w command" where
  "NewCmdInspect C project = returned (\<lambda>_. []) (client_Inspect C project)"

definition NewCmdSnapshot :: "'w Client \<Rightarrow> 'w command" where
  "NewCmdSnapshot C = returned (\<lambda>state. [state]) (client_Snapshot C)"

definition NewCmdReset :: "'w Client \<Rightarrow> string \<Rightarrow> 'w command" where
  "NewCmdReset C state = returned (\<lambda>_. []) (client_Reset C state)"

definition NewCmdUpdate :: "'w Client \<Rightarrow> int \<Rightarrow> string \<Rightarrow> 'w command" where
  "NewCmdUpdate C project dir w =
     map_option (printing (\<lambda>(version, n). [FormatInt version])) (client_Update C project (abs_path (cl_cwd C) dir) w)"

definition NewCmdGetCache :: "'w Client \<Rightarrow> string \<Rightarrow> 'w command" where
  "NewCmdGetCache C path w = map_option (printing (\<lambda>_. [])) (GetCache C (abs_path (cl_cwd C) path) w)"

definition NewCmdRebuild :: "'w Client \<Rightarrow> int \<Rightarrow> int \<Rightarrow> string \<Rightarrow> string \<Rightarrow> string \<Rightarrow> bool \<Rightarrow> string \<Rightarrow> string \<Rightarrow> string \<Rightarrow> 'w command" where
  "NewCmdRebuild C project to pfx dir ignores summarize cacheDir matchInclude matchExclude w =
     (let ignoreList = (if ignores \<noteq> [] then Split ignores CHR '','' else []) in
      case NewFileMatcher (cl_host C) matchInclude matchExclude of
        Inl e \<Rightarrow> Some (w, Inl (BadMatcher e))
      | Inr matcher \<Rightarrow>
          map_option (printing (\<lambda>result. [rebuild_json result]))
            (Rebuild C project pfx (flag to) (abs_path (cl_cwd C) dir) ignoreList (abs_path (cl_cwd C) cacheDir) (Some matcher) summarize w))"

definition NewCmdGc :: "'w Client \<Rightarrow> string \<Rightarrow> int \<Rightarrow> int \<Rightarrow> int \<Rightarrow> 32 word \<Rightarrow> 'w command" where
  "NewCmdGc C mode project keep from sample =
     (if mode = ''contents'' then
        (if sample = no_sample then refused_flag (FlagRequired ''sample'')
         else returned (\<lambda>n. [GcResult n]) (client_GcContents C sample))
      else if mode = ''project'' then
        (if project = - 1 then refused_flag (FlagRequired ''project'')
         else if keep = - 1 then refused_flag (FlagRequired ''keep'')
         else returned (\<lambda>n. [GcResult n]) (client_GcProject C project keep (flag from)))
      else if mode = ''random-projects'' then
        (if sample = no_sample then refused_flag (FlagRequired ''sample'')
         else if keep = - 1 then refused_flag (FlagRequired ''keep'')
         else returned (\<lambda>n. [GcResult n]) (client_GcRandomProjects C sample keep (flag from)))
      else refused_flag (InvalidMode mode))"

section \<open>Commands of the daemon's client\<close>

definition NewCmdPopulate :: "'w CachedClient \<Rightarrow> string \<Rightarrow> 'w \<Rightarrow> 'w \<times> (client_error + unit)" where
  "NewCmdPopulate S path = andThen (client_PopulateDiskCache S path) (\<lambda>_. ret ())"

definition NewCmdProbe :: "'w CachedClient \<Rightarrow> 'w \<Rightarrow> client_error + unit" where
  "NewCmdProbe S w = (case client_Probe S w of Inl e \<Rightarrow> Inl e | Inr ready \<Rightarrow> Inr ())"

section \<open>What is printed can be read back\<close>

lemma json_object_inj:
  assumes "json_object (zip ks vs) = json_object (zip ks ws)" and "length vs = length ks" and "length ws = length ks"
    and "ks \<noteq> []" and "\<forall>x \<in> set ks \<union> set vs \<union> set ws. CHR '','' \<notin> set x"
  shows "vs = ws"
proof -
  have nc: "CHR '','' \<notin> set x" if "x \<in> set (map json_field (zip ks us))" "us = vs \<or> us = ws" for x us
    using that assms(5) by (fastforce simp: json_field_def dest: set_zip_leftD set_zip_rightD)
  have ne: "map json_field (zip ks us) \<noteq> []" if "us = vs \<or> us = ws" for us using that assms(2-4) by (auto simp: zip_eq_Nil_iff)
  have "Join (map json_field (zip ks vs)) '','' = Join (map json_field (zip ks ws)) '',''" using assms(1) by (simp add: json_object_def)
  then have "map json_field (zip ks vs) = map json_field (zip ks ws)"
    using Split_Join[of "map json_field (zip ks vs)" "CHR '',''"] Split_Join[of "map json_field (zip ks ws)" "CHR '',''"] ne nc by metis
  then show ?thesis using assms(2,3)
  proof (induction vs ws arbitrary: ks rule: list_induct2')
    case (4 v vs w ws)
    then show ?case by (cases ks) (auto simp: json_field_def)
  qed auto
qed

theorem rebuild_json_inj:
  assumes "rebuild_json r = rebuild_json r'" and "is_int64 (rr_Version r)" and "is_int64 (rr_Version r')"
  shows "r = r'"
proof -
  let ?ks = "[''version'', ''count'', ''fileMatch'']"
  let ?vs = "\<lambda>r. [FormatInt (rr_Version r), FormatInt (uint (rr_Count r)), json_bool (rr_FileMatch r)]"
  have nc: "CHR '','' \<notin> set (FormatInt n)" "CHR '','' \<notin> set (json_bool b)" for n b
    using FormatInt_chars[of "CHR '',''" n] by (auto simp: is_digit_def char_digit_def json_bool_def)
  have "?vs r = ?vs r'" using assms(1) nc by (intro json_object_inj[of ?ks]) (simp_all add: rebuild_json_def)
  moreover have "is_int64 (uint c)" for c :: "32 word"
  proof -
    have "0 \<le> uint c" "uint c < 4294967296" using uint_bounded[of c] by simp_all
    moreover have "n \<ge> 0 \<Longrightarrow> n < 4294967296 \<Longrightarrow> is_int64 n" for n by (simp add: is_int64_def int64_min_def int64_max_def)
    ultimately show ?thesis by blast
  qed
  ultimately have "rr_Version r = rr_Version r'" "uint (rr_Count r) = uint (rr_Count r')"
    using ParseInt_FormatInt assms(2,3) by (metis list.inject option.inject)+
  moreover have "rr_FileMatch r = rr_FileMatch r'" using \<open>?vs r = ?vs r'\<close> by (auto simp: json_bool_def split: if_splits)
  ultimately show ?thesis by (cases r; cases r') (simp add: word_uint_eq_iff)
qed

text \<open>A command line that is refused calls nobody.\<close>

lemma gc_refused:
  assumes "NewCmdGc C mode project keep from sample w = Some (w', Inl e)" and "\<And>x. e \<noteq> CallFailed x"
  shows "w' = w"
  using assms by (auto simp: NewCmdGc_def refused_flag_def returned_def printing_def split: if_splits prod.splits sum.splits)

end
