(* ===== verification/Fuzz.thy ===== *)
theory Fuzz
  imports Composed
begin

text \<open>
  \<^verbatim>\<open>cmd/fuzz-test/main.go\<close>: the test that applies random operations to directories, uploads them, rebuilds copies of them in three
  ways and compares the copies. Relative paths are lists of names here, as elsewhere. Random
  numbers come from a stream, which is a parameter; the random order in which Go iterates over a map is the order of
  the list. The file system is case-sensitive, as on Linux. What is only logged is left out.
\<close>

section \<open>Random values\<close>

type_synonym rng = "nat \<Rightarrow> nat"

definition Intn :: "nat \<Rightarrow> rng \<Rightarrow> rng \<times> nat" where
  "Intn n g = (\<lambda>k. g (Suc k), g 0 mod n)"

definition charset :: string where
  "charset = ''aAbBcCdDeEfFgGhHiIjJkKlLmMnNoOpPqQrRsStTuUvVwWxXyYzZ0123456789''"

primrec randString :: "nat \<Rightarrow> rng \<Rightarrow> rng \<times> string" where
  "randString 0 g = (g, [])"
| "randString (Suc n) g = (let (g1, i) = Intn (length charset) g; (g2, s) = randString n g1 in (g2, charset ! i # s))"

section \<open>The objects of a directory\<close>

datatype Type = typeMissing | typeRegular | typeDirectory | typeSymlink

primrec typeStr :: "Type \<Rightarrow> string" where
  "typeStr typeMissing = ''missing''"
| "typeStr typeRegular = ''file''"
| "typeStr typeDirectory = ''directory''"
| "typeStr typeSymlink = ''symlink''"

definition node_type :: "node \<Rightarrow> Type" where
  "node_type n = (case n of Sym t \<Rightarrow> typeSymlink | Dir m \<Rightarrow> typeDirectory | Reg i \<Rightarrow> typeRegular)"

definition tested :: "path \<Rightarrow> bool" where
  "tested rel \<longleftrightarrow> \<not> HasPrefix (Join rel ''/'') ''.dl'' \<and> rel \<noteq> []"

text \<open>\<^verbatim>\<open>filepath.Walk\<close> visits what is at and below its root; without a root the program exits.\<close>

definition walkDir :: "path \<Rightarrow> disk \<Rightarrow> (path \<times> Type) list option" where
  "walkDir dir d =
     (case resolve False dir d of
        Inl e \<Rightarrow> None
      | Inr root \<Rightarrow>
          if node_at d root = None then None
          else
            Some (map (\<lambda>rel. (rel, node_type (the (node_at d (root @ rel)))))
              (filter tested (map (drop (length root)) (filter (prefix root) (remdups (map fst (nodes d))))))))"

definition objectFilter :: "(path \<times> Type) list \<Rightarrow> Type \<Rightarrow> path list" where
  "objectFilter obs ty = map fst (filter (\<lambda>e. snd e = ty) obs)"

definition objectExists :: "(path \<times> Type) list \<Rightarrow> path \<Rightarrow> bool" where
  "objectExists obs p \<longleftrightarrow> map_of obs (tl p) \<noteq> None"

section \<open>Operations\<close>

datatype Operation =
    SkipOp
  | AddFileOp path path path bytes
  | UpdateFileOp path path path bytes
  | AddDirOp path path path
  | RemoveFileOp path path path
  | AddSymlinkOp path path path path

definition AddFileOp_Apply :: "path \<Rightarrow> path \<Rightarrow> path \<Rightarrow> bytes \<Rightarrow> unit os" where
  "AddFileOp_Apply base dir name content = WriteFile (base @ dir @ name) content 0x1ED"

definition UpdateFileOp_Apply :: "path \<Rightarrow> path \<Rightarrow> path \<Rightarrow> bytes \<Rightarrow> unit os" where
  "UpdateFileOp_Apply base dir name content = WriteFile (base @ dir @ name) content 0x1ED"

definition AddDirOp_Apply :: "path \<Rightarrow> path \<Rightarrow> path \<Rightarrow> unit os" where
  "AddDirOp_Apply base dir name = MkdirAll (base @ dir @ name) 0x1ED"

definition RemoveFileOp_Apply :: "path \<Rightarrow> path \<Rightarrow> path \<Rightarrow> unit os" where
  "RemoveFileOp_Apply base dir name = Remove (base @ dir @ name)"

definition AddSymlinkOp_Apply :: "path \<Rightarrow> path \<Rightarrow> path \<Rightarrow> path \<Rightarrow> unit os" where
  "AddSymlinkOp_Apply base dir name target = Symlink (''/'' @ Join (base @ dir @ target) ''/'') (base @ dir @ name)"

fun Apply :: "Operation \<Rightarrow> unit os" where
  "Apply SkipOp = ret ()"
| "Apply (AddFileOp base dir name content) = AddFileOp_Apply base dir name content"
| "Apply (UpdateFileOp base dir name content) = UpdateFileOp_Apply base dir name content"
| "Apply (AddDirOp base dir name) = AddDirOp_Apply base dir name"
| "Apply (RemoveFileOp base dir name) = RemoveFileOp_Apply base dir name"
| "Apply (AddSymlinkOp base dir name target) = AddSymlinkOp_Apply base dir name target"

lemmas Apply_defs = AddFileOp_Apply_def UpdateFileOp_Apply_def AddDirOp_Apply_def RemoveFileOp_Apply_def AddSymlinkOp_Apply_def

definition AddFileOp_String :: "path \<Rightarrow> path \<Rightarrow> bytes \<Rightarrow> string" where
  "AddFileOp_String dir name content =
     ''AddFile('' @ Join (dir @ name) ''/'' @ '', '' @ FormatInt (int (length content)) @ '')''"

definition UpdateFileOp_String :: "path \<Rightarrow> path \<Rightarrow> bytes \<Rightarrow> string" where
  "UpdateFileOp_String dir name content =
     ''UpdateFile('' @ Join (dir @ name) ''/'' @ '', '' @ FormatInt (int (length content)) @ '')''"

definition AddDirOp_String :: "path \<Rightarrow> path \<Rightarrow> string" where
  "AddDirOp_String dir name = ''AddDir('' @ Join (dir @ name) ''/'' @ '')''"

definition RemoveFileOp_String :: "path \<Rightarrow> path \<Rightarrow> string" where
  "RemoveFileOp_String dir name = ''RemoveFile('' @ Join (dir @ name) ''/'' @ '')''"

definition AddSymlinkOp_String :: "path \<Rightarrow> path \<Rightarrow> path \<Rightarrow> string" where
  "AddSymlinkOp_String dir name target =
     ''AddSymlink('' @ Join (dir @ target) ''/'' @ '', '' @ Join (dir @ name) ''/'' @ '')''"

primrec Operation_String :: "Operation \<Rightarrow> string" where
  "Operation_String SkipOp = ''Skip()''"
| "Operation_String (AddFileOp base dir name content) = AddFileOp_String dir name content"
| "Operation_String (UpdateFileOp base dir name content) = UpdateFileOp_String dir name content"
| "Operation_String (AddDirOp base dir name) = AddDirOp_String dir name"
| "Operation_String (RemoveFileOp base dir name) = RemoveFileOp_String dir name"
| "Operation_String (AddSymlinkOp base dir name target) = AddSymlinkOp_String dir name target"

type_synonym op_constructor = "path \<Rightarrow> int \<Rightarrow> disk \<Rightarrow> rng \<Rightarrow> (rng \<times> Operation) option"

definition project_dir :: "int \<Rightarrow> path" where
  "project_dir project = [FormatInt project]"

text \<open>A directory of the project, with a chance of one half.\<close>

definition pick_dir :: "path list \<Rightarrow> path \<Rightarrow> rng \<Rightarrow> rng \<times> path" where
  "pick_dir dirs dir g =
     (if dirs = [] then (g, dir)
      else
        (let (g1, coin) = Intn 2 g in
         if coin = 1 then (let (g2, i) = Intn (length dirs) g1 in (g2, dir @ dirs ! i)) else (g1, dir)))"

definition rand_name :: "rng \<Rightarrow> rng \<times> path" where
  "rand_name g = (let (g1, n) = Intn 20 g; (g2, s) = randString (n + 1) g1 in (g2, [s]))"

definition rand_content :: "rng \<Rightarrow> rng \<times> bytes" where
  "rand_content g = (let (g1, n) = Intn 500 g in randString n g1)"

definition newAddFileOp :: op_constructor where
  "newAddFileOp base project d g =
     (let (g1, name) = rand_name g in
      map_option (\<lambda>obs.
        let (g2, dir) = pick_dir (objectFilter obs typeDirectory) (project_dir project) g1 in
        if objectExists obs (dir @ name) then (g2, SkipOp)
        else (let (g3, content) = rand_content g2 in (g3, AddFileOp base dir name content)))
        (walkDir (base @ project_dir project) d))"

definition newUpdateFileOp :: op_constructor where
  "newUpdateFileOp base project d g =
     map_option (\<lambda>obs.
       let files = objectFilter obs typeRegular in
       if files = [] then (g, SkipOp)
       else (let (g1, i) = Intn (length files) g; (g2, content) = rand_content g1 in
             (g2, UpdateFileOp base (project_dir project) (files ! i) content)))
       (walkDir (base @ project_dir project) d)"

definition newAddDirOp :: op_constructor where
  "newAddDirOp base project d g =
     (let (g1, name) = rand_name g in
      map_option (\<lambda>obs.
        let (g2, n) = Intn 10 g1;
            (g3, dir) = (if n < 1 then (let (g', k) = Intn 2 g2 in (g', project_dir project @ [''pack'' @ FormatInt (int k + 1)]))
                         else pick_dir (objectFilter obs typeDirectory) (project_dir project) g2) in
        if objectExists obs (dir @ name) then (g3, SkipOp) else (g3, AddDirOp base dir name))
        (walkDir (base @ project_dir project) d))"

definition newRemoveFileOp :: op_constructor where
  "newRemoveFileOp base project d g =
     map_option (\<lambda>obs.
       let files = objectFilter obs typeRegular in
       if files = [] then (g, SkipOp)
       else (let (g1, i) = Intn (length files) g in (g1, RemoveFileOp base (project_dir project) (files ! i))))
       (walkDir (base @ project_dir project) d)"

definition newAddSymlinkOp :: op_constructor where
  "newAddSymlinkOp base project d g =
     (let (g1, name) = rand_name g in
      map_option (\<lambda>obs.
        let files = objectFilter obs typeRegular in
        if files = [] then (g1, SkipOp)
        else
          (let (g2, dir) = pick_dir (objectFilter obs typeDirectory) (project_dir project) g1 in
           if objectExists obs (dir @ name) then (g2, SkipOp)
           else (let (g3, i) = Intn (length files) g2 in (g3, AddSymlinkOp base dir name (files ! i)))))
        (walkDir (base @ project_dir project) d))"

definition opConstructors :: "op_constructor list" where
  "opConstructors = [newAddFileOp, newUpdateFileOp, newAddDirOp, newRemoveFileOp, newAddSymlinkOp]"

text \<open>The loop draws until an operation does something; if none ever does, it does not end.\<close>

partial_function (option) randomOperation :: "path \<Rightarrow> int \<Rightarrow> disk \<Rightarrow> rng \<Rightarrow> (rng \<times> Operation) option" where
  "randomOperation base project d g =
     (let (g1, i) = Intn (length opConstructors) g in
      case (opConstructors ! i) base project d g1 of
        None \<Rightarrow> None
      | Some (g2, operation) \<Rightarrow> if operation = SkipOp then randomOperation base project d g2 else Some (g2, operation))"

section \<open>Comparing directories\<close>

record MatchError =
  me_project :: int
  me_path :: path
  me_expectedType :: "Type option"
  me_actualType :: "Type option"
  me_expectedContent :: bytes
  me_actualContent :: bytes

definition type_mismatch :: "int \<Rightarrow> path \<Rightarrow> Type option \<Rightarrow> Type option \<Rightarrow> MatchError" where
  "type_mismatch project p ty ty' =
     \<lparr>me_project = project, me_path = p, me_expectedType = ty, me_actualType = ty', me_expectedContent = [], me_actualContent = []\<rparr>"

definition compare_one :: "int \<Rightarrow> path \<Rightarrow> path \<Rightarrow> (path \<times> Type) list \<Rightarrow> disk \<Rightarrow> path \<times> Type \<Rightarrow> errno + MatchError list" where
  "compare_one project expected actual actualObjects d e =
     (case map_of actualObjects (fst e) of
        None \<Rightarrow> Inr [type_mismatch project (fst e) (Some (snd e)) None]
      | Some actualType \<Rightarrow>
          if snd e \<noteq> actualType then Inr [type_mismatch project (fst e) (Some (snd e)) (Some actualType)]
          else if snd e = typeRegular then
            (case ReadFile (expected @ fst e) d of
               Inl err \<Rightarrow> Inl err
             | Inr expectedContent \<Rightarrow>
                 (case ReadFile (actual @ fst e) d of
                    Inl err \<Rightarrow> Inl err
                  | Inr actualContent \<Rightarrow>
                      Inr (if expectedContent \<noteq> actualContent
                           then [\<lparr>me_project = project, me_path = fst e, me_expectedType = Some (snd e), me_actualType = Some actualType,
                                  me_expectedContent = expectedContent, me_actualContent = actualContent\<rparr>]
                           else [])))
          else Inr [])"

fun compare_all :: "(path \<times> Type \<Rightarrow> errno + MatchError list) \<Rightarrow> (path \<times> Type) list \<Rightarrow> errno + MatchError list" where
  "compare_all f [] = Inr []"
| "compare_all f (e # es) =
     (case f e of Inl err \<Rightarrow> Inl err | Inr ms \<Rightarrow> (case compare_all f es of Inl err \<Rightarrow> Inl err | Inr ms' \<Rightarrow> Inr (ms @ ms')))"

definition compareDirs :: "int \<Rightarrow> path \<Rightarrow> path \<Rightarrow> disk \<Rightarrow> (errno + MatchError list) option" where
  "compareDirs project expected actual d =
     (case (walkDir expected d, walkDir actual d) of
        (Some expectedObjects, Some actualObjects) \<Rightarrow>
          Some (case compare_all (compare_one project expected actual actualObjects d) expectedObjects of
             Inl err \<Rightarrow> Inl err
           | Inr errors \<Rightarrow>
               Inr (errors @ map (\<lambda>e. type_mismatch project (fst e) None (Some (snd e)))
                      (filter (\<lambda>e. map_of expectedObjects (fst e) = None) actualObjects)))
      | _ \<Rightarrow> None)"

text \<open>The message for a difference, with the fields beside project and path.\<close>

definition match_message :: "MatchError \<Rightarrow> (string \<times> (string \<times> string) list) option" where
  "match_message m =
     (case (me_expectedType m, me_actualType m) of
        (None, _) \<Rightarrow> Some (''missing file in target dir'', [])
      | (Some ty, None) \<Rightarrow> Some (''missing file in source dir'', [])
      | (Some ty, Some ty') \<Rightarrow>
          if ty \<noteq> ty' then Some (''object type mismatch'', [(''expected'', typeStr ty), (''actual'', typeStr ty')])
          else if me_expectedContent m \<noteq> me_actualContent m then
            Some (''object content mismatch'', [(''expected'', me_expectedContent m), (''actual'', me_actualContent m)])
          else None)"

definition logMatchErrors :: "MatchError list \<Rightarrow> (int \<times> path \<times> string \<times> (string \<times> string) list) list" where
  "logMatchErrors ms = concat (map (\<lambda>m. case match_message m of None \<Rightarrow> [] | Some x \<Rightarrow> [(me_project m, me_path m, x)]) ms)"

definition logOpLog :: "Operation list \<Rightarrow> (nat \<times> string) list" where
  "logOpLog ops = zip [0..<length ops] (map Operation_String ops)"

section \<open>The test\<close>

record Directories =
  dirs_base :: path
  dirs_reset :: path
  dirs_oneStep :: path
  dirs_randomStep :: path

datatype fuzz_error =
    NewProjectFailed client_error
  | ApplyFailed errno
  | UpdateFailed client_error
  | RebuildFailed client_error
  | DirFailed errno
  | CompareFailed errno
  | DirsDiffer path int "MatchError list"
  | IntnPanic

definition Dirs_Base :: "Directories \<Rightarrow> int \<Rightarrow> path" where
  "Dirs_Base ds project = dirs_base ds @ project_dir project"

definition Dirs_Reset :: "Directories \<Rightarrow> int \<Rightarrow> path" where
  "Dirs_Reset ds project = dirs_reset ds @ project_dir project"

definition Dirs_OneStep :: "Directories \<Rightarrow> int \<Rightarrow> path" where
  "Dirs_OneStep ds project = dirs_oneStep ds @ project_dir project"

definition Dirs_RandomStep :: "Directories \<Rightarrow> int \<Rightarrow> path" where
  "Dirs_RandomStep ds project = dirs_randomStep ds @ project_dir project"

type_synonym ('w, 'a) fuzz = "'w world \<Rightarrow> ('w world \<times> (fuzz_error + 'a)) option"

definition fuzz_then :: "('w, 'a) fuzz \<Rightarrow> ('a \<Rightarrow> ('w, 'b) fuzz) \<Rightarrow> ('w, 'b) fuzz" where
  "fuzz_then m f w =
     (case m w of None \<Rightarrow> None | Some (w', Inl e) \<Rightarrow> Some (w', Inl e) | Some (w', Inr a) \<Rightarrow> f a w')"

definition fuzz_os :: "(errno \<Rightarrow> fuzz_error) \<Rightarrow> 'a os \<Rightarrow> ('w, 'a) fuzz" where
  "fuzz_os err m w =
     (case m (w_disk w) of (d, Inl e) \<Rightarrow> Some (w\<lparr>w_disk := d\<rparr>, Inl (err e)) | (d, Inr a) \<Rightarrow> Some (w\<lparr>w_disk := d\<rparr>, Inr a))"

definition fuzz_call :: "(client_error \<Rightarrow> fuzz_error) \<Rightarrow> ('w world \<Rightarrow> ('w world \<times> (client_error + 'a)) option) \<Rightarrow> ('w, 'a) fuzz" where
  "fuzz_call err m w =
     map_option (\<lambda>(w', r). (w', case r of Inl e \<Rightarrow> Inl (err e) | Inr a \<Rightarrow> Inr a)) (m w)"

text \<open>The error of \<^verbatim>\<open>os.RemoveAll\<close> is ignored.\<close>

definition fresh_dir :: "path \<Rightarrow> ('w, unit) fuzz" where
  "fresh_dir dir = fuzz_os DirFailed (\<lambda>d. MkdirAll dir 0x1ED (fst (RemoveAll dir d)))"

definition fuzz_rebuild :: "'w Client \<Rightarrow> int \<Rightarrow> int option \<Rightarrow> path \<Rightarrow> ('w, RebuildResult) fuzz" where
  "fuzz_rebuild C project to dir = fuzz_call RebuildFailed (Rebuild C project [] to dir [] (cl_cwd C) None False)"

definition runIteration :: "'w Client \<Rightarrow> int \<Rightarrow> Operation \<Rightarrow> Directories \<Rightarrow> rng \<Rightarrow> ('w, rng \<times> int) fuzz" where
  "runIteration C project operation ds g =
     fuzz_then (fuzz_os ApplyFailed (Apply operation)) (\<lambda>_.
     fuzz_then (fuzz_call UpdateFailed (client_Update C project (Dirs_Base ds project))) (\<lambda>(version, n).
     fuzz_then (fresh_dir (Dirs_Reset ds project)) (\<lambda>_.
     fuzz_then (fuzz_rebuild C project None (Dirs_Reset ds project)) (\<lambda>_.
     fuzz_then (fuzz_rebuild C project None (Dirs_OneStep ds project)) (\<lambda>_.
     fuzz_then (fresh_dir (Dirs_RandomStep ds project)) (\<lambda>_ w.
       if version \<le> 0 then Some (w, Inl IntnPanic)
       else
         (let (g1, k) = Intn (nat version) g; randomStepVersion = int k in
          fuzz_then (fuzz_rebuild C project (Some randomStepVersion) (Dirs_RandomStep ds project)) (\<lambda>_.
          fuzz_then (fuzz_rebuild C project (Some version) (Dirs_RandomStep ds project)) (\<lambda>_ w'.
            Some (w', Inr (g1, randomStepVersion)))) w)))))))"

definition check_same :: "path \<Rightarrow> path \<Rightarrow> int \<Rightarrow> ('w, unit) fuzz" where
  "check_same expected actual project w =
     map_option (\<lambda>r. (w, case r of
         Inl e \<Rightarrow> Inl (CompareFailed e)
       | Inr errors \<Rightarrow> if errors = [] then Inr () else Inl (DirsDiffer actual project errors)))
       (compareDirs project expected actual (w_disk w))"

fun verifyDirs :: "Directories \<Rightarrow> int list \<Rightarrow> ('w, unit) fuzz" where
  "verifyDirs ds [] w = Some (w, Inr ())"
| "verifyDirs ds (project # ps) w =
     fuzz_then (check_same (Dirs_Base ds project) (Dirs_Reset ds project) project) (\<lambda>_.
     fuzz_then (check_same (Dirs_Base ds project) (Dirs_OneStep ds project) project) (\<lambda>_.
     fuzz_then (check_same (Dirs_Base ds project) (Dirs_RandomStep ds project) project) (\<lambda>_.
     verifyDirs ds ps))) w"

definition project_ids :: "nat \<Rightarrow> int list" where
  "project_ids n = map int [1..<Suc n]"

fun make_all :: "path list \<Rightarrow> unit os" where
  "make_all [] = ret ()"
| "make_all (p # ps) = andThen (MkdirAll p 0x1ED) (\<lambda>_. make_all ps)"

definition create_dir :: "host \<Rightarrow> path \<Rightarrow> nat \<Rightarrow> string \<Rightarrow> path os" where
  "create_dir H tmp n name d =
     andThen (MkdirTemp tmp (''dl-ft-'' @ name @ ''-'') (temp_names H d)) (\<lambda>dir.
     andThen (make_all (map (\<lambda>i. dir @ project_dir i) (project_ids n))) (\<lambda>_. ret dir)) d"

definition createDirs :: "host \<Rightarrow> path \<Rightarrow> nat \<Rightarrow> Directories os" where
  "createDirs H tmp n =
     andThen (create_dir H tmp n ''base'') (\<lambda>b.
     andThen (create_dir H tmp n ''reset'') (\<lambda>r.
     andThen (create_dir H tmp n ''one-step'') (\<lambda>s.
     andThen (create_dir H tmp n ''random-step'') (\<lambda>x.
     ret \<lparr>dirs_base = b, dirs_reset = r, dirs_oneStep = s, dirs_randomStep = x\<rparr>))))"

definition Dirs_RemoveAll :: "Directories \<Rightarrow> disk \<Rightarrow> disk" where
  "Dirs_RemoveAll ds d = fold (\<lambda>p d. fst (RemoveAll p d)) [dirs_base ds, dirs_reset ds, dirs_oneStep ds, dirs_randomStep ds] d"

fun new_projects :: "'w Client \<Rightarrow> int list \<Rightarrow> ('w, unit) call" where
  "new_projects C [] = ret ()"
| "new_projects C (i # is) = andThen (client_NewProject C i None (Some ''^pack1/.*/,^pack2/.*/'')) (\<lambda>_. new_projects C is)"

fun iterations :: "'w Client \<Rightarrow> nat \<Rightarrow> Directories \<Rightarrow> nat \<Rightarrow> rng \<Rightarrow> ('w, unit) fuzz" where
  "iterations C n ds 0 g w = Some (w, Inr ())"
| "iterations C n ds (Suc k) g w =
     (if n = 0 then Some (w, Inl IntnPanic)
      else
        (let (g1, i) = Intn n g; project = int i + 1 in
         case randomOperation (dirs_base ds) project (w_disk w) g1 of
           None \<Rightarrow> None
         | Some (g2, operation) \<Rightarrow>
             fuzz_then (runIteration C project operation ds g2) (\<lambda>(g3, stepVersion).
             fuzz_then (verifyDirs ds (project_ids n)) (\<lambda>_.
             iterations C n ds k g3)) w))"

definition fuzzTest :: "'w Client \<Rightarrow> path \<Rightarrow> nat \<Rightarrow> nat \<Rightarrow> rng \<Rightarrow> ('w, unit) fuzz" where
  "fuzzTest C tmp n k g =
     fuzz_then (fuzz_call NewProjectFailed (\<lambda>w. Some (new_projects C (project_ids n) w))) (\<lambda>_.
     fuzz_then (fuzz_os DirFailed (createDirs (cl_host C) tmp n)) (\<lambda>ds.
     fuzz_then (iterations C n ds k g) (\<lambda>_ w.
       Some (w\<lparr>w_disk := Dirs_RemoveAll ds (w_disk w)\<rparr>, Inr ()))))"

section \<open>What the comparison finds\<close>

text \<open>Two objects are the same for the test: targets of links, and permissions, do not matter.\<close>

definition same_object :: "disk \<Rightarrow> node option \<Rightarrow> node option \<Rightarrow> bool" where
  "same_object d x y \<longleftrightarrow> map_option node_type x = map_option node_type y \<and>
     (\<forall>i j. x = Some (Reg i) \<longrightarrow> y = Some (Reg j) \<longrightarrow> get_data i d = get_data j d)"

lemma walkDir_there:
  assumes "disk_ok d" and "is_dir_at d dir"
  shows "\<exists>obs. walkDir dir d = Some obs \<and> (\<forall>rel. map_of obs rel = (if tested rel then map_option node_type (node_at d (dir @ rel)) else None)) \<and>
    (\<forall>rel ty. (rel, ty) \<in> set obs \<longleftrightarrow> map_of obs rel = Some ty)"
proof -
  obtain m where m: "node_at d dir = Some (Dir m)" using assms(2) by (auto simp: is_dir_at_iff)
  have res: "resolve False dir d = Inr dir" using resolve_plain[OF node_plain[OF assms(1) m], of False] node_dirs_above[OF assms(1) m] by simp
  let ?rels = "filter tested (map (drop (length dir)) (filter (prefix dir) (remdups (map fst (nodes d)))))"
  let ?obs = "map (\<lambda>rel. (rel, node_type (the (node_at d (dir @ rel))))) ?rels"
  have "rel \<in> set ?rels \<longleftrightarrow> tested rel \<and> node_at d (dir @ rel) \<noteq> None" for rel
  proof -
    have "rel \<in> set ?rels \<longleftrightarrow> tested rel \<and> (\<exists>x \<in> fst ` set (nodes d). prefix dir x \<and> rel = drop (length dir) x)"
      by (simp only: set_filter set_map set_remdups) blast
    also have "(\<exists>x \<in> fst ` set (nodes d). prefix dir x \<and> rel = drop (length dir) x) \<longleftrightarrow> dir @ rel \<in> fst ` set (nodes d)"
      by (metis append_eq_conv_conj prefixE prefixI)
    finally have "rel \<in> set ?rels \<longleftrightarrow> tested rel \<and> dir @ rel \<in> fst ` set (nodes d)" .
    moreover have "tested rel \<Longrightarrow> dir @ rel \<in> fst ` set (nodes d) \<longleftrightarrow> node_at d (dir @ rel) \<noteq> None"
      by (simp add: node_at_def map_of_eq_None_iff tested_def)
    ultimately show ?thesis by blast
  qed
  moreover have of: "map_of ?obs rel = (if rel \<in> set ?rels then Some (node_type (the (node_at d (dir @ rel)))) else None)" for rel
    by (simp only: map_of_map_restrict restrict_map_def comp_def)
  ultimately have "map_of ?obs rel = (if tested rel then map_option node_type (node_at d (dir @ rel)) else None)" for rel
    by (cases "node_at d (dir @ rel)") auto
  moreover have "(rel, ty) \<in> set ?obs \<longleftrightarrow> map_of ?obs rel = Some ty" for rel ty unfolding of by auto
  moreover have "walkDir dir d = Some ?obs" using res m by (simp add: walkDir_def)
  ultimately show ?thesis by blast
qed

text \<open>The object of a difference.\<close>

definition explains :: "int \<Rightarrow> path \<Rightarrow> path \<Rightarrow> disk \<Rightarrow> path \<Rightarrow> MatchError \<Rightarrow> bool" where
  "explains project expected actual d rel m \<longleftrightarrow> me_project m = project \<and> me_path m = rel \<and>
     me_expectedType m = map_option node_type (node_at d (expected @ rel)) \<and> me_actualType m = map_option node_type (node_at d (actual @ rel))"

lemma compare_one_result:
  assumes "disk_ok d" and n: "node_at d (expected @ rel) = Some n" and obs: "map_of actualObjects rel = map_option node_type (node_at d (actual @ rel))"
  shows "\<exists>ms. compare_one project expected actual actualObjects d (rel, node_type n) = Inr ms \<and> (\<forall>m \<in> set ms. explains project expected actual d rel m) \<and>
    (ms = [] \<longleftrightarrow> same_object d (node_at d (expected @ rel)) (node_at d (actual @ rel)))"
proof (cases "node_at d (actual @ rel)")
  case None
  then show ?thesis using n obs by (simp add: compare_one_def explains_def same_object_def type_mismatch_def)
next
  case (Some n')
  show ?thesis
  proof (cases "node_type n = node_type n' \<and> node_type n = typeRegular")
    case True
    then obtain i j where r: "n = Reg i" "n' = Reg j" by (auto simp: node_type_def split: node.splits)
    have "ReadFile (expected @ rel) d = Inr (get_data i d)" "ReadFile (actual @ rel) d = Inr (get_data j d)"
      using ReadFile_plain[OF node_plain[OF assms(1)]] n Some r by blast+
    then show ?thesis using n Some r obs by (simp add: compare_one_def explains_def same_object_def node_type_def)
  next
    case False
    then have "\<not> (\<exists>i j. n = Reg i \<and> n' = Reg j)" by (auto simp: node_type_def)
    then show ?thesis using n Some obs False by (auto simp: compare_one_def explains_def same_object_def type_mismatch_def)
  qed
qed

lemma compare_all_Inr: "\<forall>e \<in> set es. f e = Inr (g e) \<Longrightarrow> compare_all f es = Inr (concat (map g es))"
  by (induction es) auto

lemma walkDir_entries:
  assumes "disk_ok d" and "is_dir_at d dir"
  obtains es where "walkDir dir d = Some es"
    and "\<And>rel ty. (rel, ty) \<in> set es \<longleftrightarrow> tested rel \<and> map_option node_type (node_at d (dir @ rel)) = Some ty"
    and "\<And>rel. tested rel \<Longrightarrow> map_of es rel = map_option node_type (node_at d (dir @ rel))"
  using walkDir_there[OF assms] by (metis option.distinct(1))

text \<open>A difference that the test reports is one.\<close>

definition differs :: "int \<Rightarrow> path \<Rightarrow> path \<Rightarrow> disk \<Rightarrow> MatchError \<Rightarrow> bool" where
  "differs project expected actual d m \<longleftrightarrow> explains project expected actual d (me_path m) m \<and> tested (me_path m) \<and>
     \<not> same_object d (node_at d (expected @ me_path m)) (node_at d (actual @ me_path m))"

lemma compare_all_exact:
  assumes ok: "disk_ok d"
    and es: "\<And>rel ty. (rel, ty) \<in> set es \<longleftrightarrow> tested rel \<and> map_option node_type (node_at d (expected @ rel)) = Some ty"
    and as: "\<And>rel. tested rel \<Longrightarrow> map_of as rel = map_option node_type (node_at d (actual @ rel))"
  shows "\<exists>ms. compare_all (compare_one project expected actual as d) es = Inr ms \<and> (\<forall>m \<in> set ms. differs project expected actual d m) \<and>
    (\<forall>rel n. tested rel \<longrightarrow> node_at d (expected @ rel) = Some n \<longrightarrow> \<not> same_object d (Some n) (node_at d (actual @ rel)) \<longrightarrow> rel \<in> me_path ` set ms)"
proof -
  define g where "g x = projr (compare_one project expected actual as d x)" for x
  have g: "compare_one project expected actual as d (rel, ty) = Inr (g (rel, ty))" "\<forall>m \<in> set (g (rel, ty)). explains project expected actual d rel m"
    "g (rel, ty) = [] \<longleftrightarrow> same_object d (node_at d (expected @ rel)) (node_at d (actual @ rel))" if mem: "(rel, ty) \<in> set es" for rel ty
  proof -
    obtain n where n: "node_at d (expected @ rel) = Some n" "ty = node_type n" "tested rel" using mem es by auto
    from compare_one_result[OF ok n(1) as[OF n(3)], of project] show "compare_one project expected actual as d (rel, ty) = Inr (g (rel, ty))"
      "\<forall>m \<in> set (g (rel, ty)). explains project expected actual d rel m"
      "g (rel, ty) = [] \<longleftrightarrow> same_object d (node_at d (expected @ rel)) (node_at d (actual @ rel))"
      using n(2) by (auto simp: g_def)
  qed
  have "compare_all (compare_one project expected actual as d) es = Inr (concat (map g es))" by (rule compare_all_Inr) (use g(1) in auto)
  moreover have "differs project expected actual d m" if m: "m \<in> set (concat (map g es))" for m
  proof -
    obtain rel ty where x: "(rel, ty) \<in> set es" "m \<in> set (g (rel, ty))" using m by auto
    then have "g (rel, ty) \<noteq> []" by auto
    then show ?thesis using g(2,3)[OF x(1)] x es by (auto simp: explains_def differs_def)
  qed
  moreover have "rel \<in> me_path ` set (concat (map g es))"
    if rel: "tested rel" "node_at d (expected @ rel) = Some n" "\<not> same_object d (Some n) (node_at d (actual @ rel))" for rel n
  proof -
    have mem: "(rel, node_type n) \<in> set es" using es rel(1,2) by simp
    then obtain m where "m \<in> set (g (rel, node_type n))" using g(3)[OF mem] rel by (cases "g (rel, node_type n)") auto
    then show ?thesis using g(2)[OF mem] mem by (force simp: explains_def)
  qed
  ultimately show ?thesis by blast
qed

theorem compareDirs_exact:
  assumes ok: "disk_ok d" and dirs: "is_dir_at d expected" "is_dir_at d actual"
  shows "\<exists>errors. compareDirs project expected actual d = Some (Inr errors) \<and>
    me_path ` set errors = {rel. tested rel \<and> \<not> same_object d (node_at d (expected @ rel)) (node_at d (actual @ rel))} \<and>
    (\<forall>m \<in> set errors. explains project expected actual d (me_path m) m)"
proof -
  let ?e = "\<lambda>rel. node_at d (expected @ rel)" and ?a = "\<lambda>rel. node_at d (actual @ rel)"
  obtain es where es: "walkDir expected d = Some es" "\<And>rel ty. (rel, ty) \<in> set es \<longleftrightarrow> tested rel \<and> map_option node_type (?e rel) = Some ty"
    "\<And>rel. tested rel \<Longrightarrow> map_of es rel = map_option node_type (?e rel)" using walkDir_entries[OF ok dirs(1)] by metis
  obtain as where as: "walkDir actual d = Some as" "\<And>rel ty. (rel, ty) \<in> set as \<longleftrightarrow> tested rel \<and> map_option node_type (?a rel) = Some ty"
    "\<And>rel. tested rel \<Longrightarrow> map_of as rel = map_option node_type (?a rel)" using walkDir_entries[OF ok dirs(2)] by metis
  obtain ms where ms: "compare_all (compare_one project expected actual as d) es = Inr ms" "\<forall>m \<in> set ms. differs project expected actual d m"
    "\<And>rel n. tested rel \<Longrightarrow> ?e rel = Some n \<Longrightarrow> \<not> same_object d (Some n) (?a rel) \<Longrightarrow> rel \<in> me_path ` set ms"
    using compare_all_exact[OF ok es(2) as(3), of project] by blast
  let ?missing = "map (\<lambda>x. type_mismatch project (fst x) None (Some (snd x))) (filter (\<lambda>x. map_of es (fst x) = None) as)"
  have run: "compareDirs project expected actual d = Some (Inr (ms @ ?missing))" using es(1) as(1) ms(1) by (simp add: compareDirs_def)
  have "differs project expected actual d m" if mem: "m \<in> set ?missing" for m
  proof -
    obtain rel ty where "(rel, ty) \<in> set as" "map_of es rel = None" "m = type_mismatch project rel None (Some ty)" using mem by auto
    then show ?thesis using as(2)[of rel ty] es(3)[of rel] by (auto simp: differs_def explains_def type_mismatch_def same_object_def)
  qed
  then have found: "differs project expected actual d m" if "m \<in> set (ms @ ?missing)" for m using that ms(2) by auto
  have all: "rel \<in> me_path ` set (ms @ ?missing)" if rel: "tested rel" "\<not> same_object d (?e rel) (?a rel)" for rel
  proof (cases "?e rel")
    case (Some n)
    then show ?thesis using ms(3)[OF rel(1) Some] rel(2) by auto
  next
    case None
    then obtain n where n: "?a rel = Some n" using rel(2) by (cases "?a rel") (auto simp: same_object_def)
    then have "(rel, node_type n) \<in> set as" "map_of es rel = None" using as(2) es(3) rel(1) None by auto
    then have "type_mismatch project rel None (Some (node_type n)) \<in> set ?missing" by force
    then have "type_mismatch project rel None (Some (node_type n)) \<in> set (ms @ ?missing)" by simp
    then show ?thesis by (rule rev_image_eqI) (simp add: type_mismatch_def)
  qed
  have "me_path ` set (ms @ ?missing) = {rel. tested rel \<and> \<not> same_object d (?e rel) (?a rel)}"
  proof (intro equalityI subsetI)
    fix rel assume "rel \<in> me_path ` set (ms @ ?missing)"
    then obtain m where "rel = me_path m" "m \<in> set (ms @ ?missing)" by (rule imageE)
    then show "rel \<in> {rel. tested rel \<and> \<not> same_object d (?e rel) (?a rel)}" using found[of m] by (simp add: differs_def)
  qed (use all in simp)
  moreover have "\<forall>m \<in> set (ms @ ?missing). explains project expected actual d (me_path m) m" using found by (simp only: differs_def) blast
  ultimately show ?thesis using run by (intro exI[of _ "ms @ ?missing"] conjI)
qed

section \<open>What the verification finds\<close>

definition same_dirs :: "disk \<Rightarrow> path \<Rightarrow> path \<Rightarrow> bool" where
  "same_dirs d p q \<longleftrightarrow> (\<forall>rel. tested rel \<longrightarrow> same_object d (node_at d (p @ rel)) (node_at d (q @ rel)))"

definition copies :: "Directories \<Rightarrow> int \<Rightarrow> path list" where
  "copies ds project = [Dirs_Reset ds project, Dirs_OneStep ds project, Dirs_RandomStep ds project]"

lemma check_same_exact:
  assumes "disk_ok (w_disk w)" and "is_dir_at (w_disk w) expected" "is_dir_at (w_disk w) actual"
  shows "\<exists>r. check_same expected actual project w = Some (w, r) \<and> (r = Inr () \<longleftrightarrow> same_dirs (w_disk w) expected actual)"
proof -
  obtain errors where e: "compareDirs project expected actual (w_disk w) = Some (Inr errors)"
    "me_path ` set errors = {rel. tested rel \<and> \<not> same_object (w_disk w) (node_at (w_disk w) (expected @ rel)) (node_at (w_disk w) (actual @ rel))}"
    using compareDirs_exact[OF assms, of project] by blast
  have "errors = [] \<longleftrightarrow> same_dirs (w_disk w) expected actual"
    using e(2) unfolding same_dirs_def by (metis (mono_tags, lifting) empty_Collect_eq image_is_empty set_empty)
  then show ?thesis using e(1) by (simp add: check_same_def)
qed

lemma fuzz_then_step: "m w = Some (w', Inl e) \<Longrightarrow> fuzz_then m f w = Some (w', Inl e)" "m w = Some (w', Inr a) \<Longrightarrow> fuzz_then m f w = f a w'"
  by (simp_all add: fuzz_then_def)

lemma check_then:
  assumes "disk_ok (w_disk w)" and "is_dir_at (w_disk w) expected" "is_dir_at (w_disk w) actual"
    and f: "\<exists>r. k w = Some (w, r) \<and> (r = Inr () \<longleftrightarrow> P)"
  shows "\<exists>r. fuzz_then (check_same expected actual project) (\<lambda>_. k) w = Some (w, r) \<and> (r = Inr () \<longleftrightarrow> same_dirs (w_disk w) expected actual \<and> P)"
proof -
  obtain r where r: "check_same expected actual project w = Some (w, r)" "r = Inr () \<longleftrightarrow> same_dirs (w_disk w) expected actual"
    using check_same_exact[OF assms(1-3)] by blast
  then show ?thesis using f by (cases r) (auto simp: fuzz_then_step)
qed

theorem verifyDirs_exact:
  assumes "disk_ok (w_disk w)" and "\<forall>project \<in> set ps. \<forall>p \<in> set (Dirs_Base ds project # copies ds project). is_dir_at (w_disk w) p"
  shows "\<exists>r. verifyDirs ds ps w = Some (w, r) \<and>
    (r = Inr () \<longleftrightarrow> (\<forall>project \<in> set ps. \<forall>p \<in> set (copies ds project). same_dirs (w_disk w) (Dirs_Base ds project) p))"
  using assms(2)
proof (induction ps)
  case (Cons project ps)
  then have IH: "\<exists>r. verifyDirs ds ps w = Some (w, r) \<and>
    (r = Inr () \<longleftrightarrow> (\<forall>project \<in> set ps. \<forall>p \<in> set (copies ds project). same_dirs (w_disk w) (Dirs_Base ds project) p))"
    and dirs: "is_dir_at (w_disk w) (Dirs_Base ds project)" "is_dir_at (w_disk w) (Dirs_Reset ds project)"
      "is_dir_at (w_disk w) (Dirs_OneStep ds project)" "is_dir_at (w_disk w) (Dirs_RandomStep ds project)" by (simp_all add: copies_def)
  have "\<exists>r. verifyDirs ds (project # ps) w = Some (w, r) \<and> (r = Inr () \<longleftrightarrow> same_dirs (w_disk w) (Dirs_Base ds project) (Dirs_Reset ds project) \<and>
    same_dirs (w_disk w) (Dirs_Base ds project) (Dirs_OneStep ds project) \<and> same_dirs (w_disk w) (Dirs_Base ds project) (Dirs_RandomStep ds project) \<and>
    (\<forall>project \<in> set ps. \<forall>p \<in> set (copies ds project). same_dirs (w_disk w) (Dirs_Base ds project) p))"
    unfolding verifyDirs.simps by (intro check_then assms(1) dirs IH)
  then show ?case by (simp add: copies_def)
qed simp

section \<open>Mirrors of one version\<close>

lemma tested_outside:
  assumes "tested rel"
  shows "outside_metadata dir (dir @ rel)"
proof -
  obtain c y where rel: "rel = c # y" using assms by (cases rel) (auto simp: tested_def)
  have "c \<noteq> metadataDir" using assms rel by (cases y) (auto simp: tested_def metadataDir_def HasPrefix_def)
  then show ?thesis using rel by (simp add: outside_metadata_iff)
qed

text \<open>Two copies of one version have the same files and links; the test can only report a directory that one of them lacks.\<close>

lemma mirrors_leaf:
  assumes "mirrors leaf p S d" "mirrors leaf q S d" and S: "\<forall>f \<in> S. plain_name (fst f)" and "tested rel"
  shows "leaf_at d (p @ rel) = leaf_at d (q @ rel)"
proof -
  have "leaf_at d (x @ rel) = Some l \<longleftrightarrow> (\<exists>f \<in> S. name_path (fst f) = rel \<and> leaf f = Some l)" if "mirrors leaf x S d" for x l
  proof -
    have "leaf_at d (x @ rel) = Some l \<longleftrightarrow> (\<exists>f \<in> S. place x f = x @ rel \<and> leaf f = Some l)"
      using that tested_outside[OF assms(4), of x] unfolding mirrors_def by blast
    also have "\<dots> \<longleftrightarrow> (\<exists>f \<in> S. name_path (fst f) = rel \<and> leaf f = Some l)" using S by (auto simp: place_def join_plain)
    finally show ?thesis .
  qed
  then show ?thesis using assms(1,2) by (metis not_Some_eq)
qed

lemma same_leaf:
  assumes "leaf_at d p = leaf_at d q"
  shows "same_object d (node_at d p) (node_at d q) \<or>
    {map_option node_type (node_at d p), map_option node_type (node_at d q)} = {None, Some typeDirectory}"
  using assms by (auto simp: leaf_at_def same_object_def node_type_def split: option.splits node.splits)

theorem mirrors_compared:
  assumes "disk_ok d" "is_dir_at d expected" "is_dir_at d actual"
    and "mirrors leaf expected S d" "mirrors leaf actual S d" "\<forall>f \<in> S. plain_name (fst f)"
  shows "\<exists>errors. compareDirs project expected actual d = Some (Inr errors) \<and>
    (\<forall>m \<in> set errors. {me_expectedType m, me_actualType m} = {None, Some typeDirectory})"
proof -
  obtain errors where e: "compareDirs project expected actual d = Some (Inr errors)"
    "me_path ` set errors = {rel. tested rel \<and> \<not> same_object d (node_at d (expected @ rel)) (node_at d (actual @ rel))}"
    "\<forall>m \<in> set errors. explains project expected actual d (me_path m) m"
    using compareDirs_exact[OF assms(1-3)] by blast
  have "{me_expectedType m, me_actualType m} = {None, Some typeDirectory}" if m: "m \<in> set errors" for m
  proof -
    let ?x = "node_at d (expected @ me_path m)" and ?y = "node_at d (actual @ me_path m)"
    have t: "tested (me_path m)" and ns: "\<not> same_object d ?x ?y" using e(2) m by blast+
    have "{map_option node_type ?x, map_option node_type ?y} = {None, Some typeDirectory}"
      by (rule disjE[OF same_leaf[OF mirrors_leaf[OF assms(4-6) t]]]) (simp_all add: ns)
    moreover have "me_expectedType m = map_option node_type ?x" "me_actualType m = map_option node_type ?y"
      using e(3)[rule_format, OF m] by (simp_all add: explains_def)
    ultimately show ?thesis by simp
  qed
  then show ?thesis by (intro exI[of _ errors] conjI ballI e(1))
qed

text \<open>What the verification reports are differences between the base directory and a copy.\<close>

definition reports :: "Directories \<Rightarrow> disk \<Rightarrow> int list \<Rightarrow> fuzz_error \<Rightarrow> bool" where
  "reports ds d ps e \<longleftrightarrow> (\<exists>project p errors. e = DirsDiffer p project errors \<and> project \<in> set ps \<and> p \<in> set (copies ds project) \<and> errors \<noteq> [] \<and>
     compareDirs project (Dirs_Base ds project) p d = Some (Inr errors))"

lemma check_same_report:
  assumes "disk_ok (w_disk w)" "is_dir_at (w_disk w) expected" "is_dir_at (w_disk w) actual" and run: "check_same expected actual project w = Some (w', Inl e)"
  shows "\<exists>errors. e = DirsDiffer actual project errors \<and> errors \<noteq> [] \<and> compareDirs project expected actual (w_disk w) = Some (Inr errors)"
proof -
  obtain errors where e: "compareDirs project expected actual (w_disk w) = Some (Inr errors)" using compareDirs_exact[OF assms(1-3)] by blast
  then show ?thesis using run by (auto simp: check_same_def split: if_splits)
qed

lemma verifyDirs_failure:
  assumes "disk_ok (w_disk w)" and "\<forall>project \<in> set ps. \<forall>p \<in> set (Dirs_Base ds project # copies ds project). is_dir_at (w_disk w) p"
    and "verifyDirs ds ps w = Some (w', Inl e)"
  shows "reports ds (w_disk w) ps e"
  using assms(2,3)
proof (induction ps)
  case (Cons project ps)
  have step: "reports ds (w_disk w) (project # ps) e"
    if p: "p \<in> set (copies ds project)" and run: "fuzz_then (check_same (Dirs_Base ds project) p project) (\<lambda>_. k) w = Some (w', Inl e)"
      and rest: "k w = Some (w', Inl e) \<Longrightarrow> reports ds (w_disk w) (project # ps) e" for p k
  proof -
    have dirs: "is_dir_at (w_disk w) (Dirs_Base ds project)" "is_dir_at (w_disk w) p" using Cons.prems(1) p by simp_all
    obtain r where r: "check_same (Dirs_Base ds project) p project w = Some (w, r)" using check_same_exact[OF assms(1) dirs] by blast
    show ?thesis
    proof (cases r)
      case (Inl e')
      then have "e' = e" using r run by (simp add: fuzz_then_step)
      then show ?thesis using check_same_report[OF assms(1) dirs r[unfolded Inl]] p by (auto simp: reports_def)
    next
      case (Inr u)
      then show ?thesis using r run rest by (simp add: fuzz_then_step)
    qed
  qed
  have IH: "reports ds (w_disk w) (project # ps) e" if "verifyDirs ds ps w = Some (w', Inl e)"
    using Cons.IH[OF _ that] Cons.prems(1) by (auto simp: reports_def)
  show ?case
    by (rule step[OF _ Cons.prems(2)[unfolded verifyDirs.simps]], simp add: copies_def, rule step[rotated], assumption,
        rule step[rotated], assumption, erule IH) (simp_all add: copies_def)
qed simp

end
