(* ===== verification/FuzzOps.thy ===== *)
theory FuzzOps
  imports Fuzz Outcomes
begin

text \<open>
  The operations that the fuzz test draws: each of them suits the directory it was drawn for, and all but the ones that
  add directories apply without an error. With at least one worker an iteration returns.
\<close>

section \<open>Drawing\<close>

lemma randString_chars: "randString n g = (g', s) \<Longrightarrow> length s = n \<and> set s \<subseteq> set charset"
proof (induction n arbitrary: g g' s)
  case (Suc n)
  have "0 < length charset" by (simp add: charset_def)
  then have "charset ! (g 0 mod length charset) \<in> set charset" by simp
  moreover obtain x where "randString n (\<lambda>k. g (Suc k)) = (g', x)" "s = charset ! (g 0 mod length charset) # x"
    using Suc.prems by (auto simp: Intn_def Let_def split: prod.splits)
  ultimately show ?case using Suc.IH[of _ g' x] by simp
qed simp

lemma charset_plain: "CHR ''.'' \<notin> set charset" by (simp add: charset_def)

lemma rand_name_good: "rand_name g = (g', name) \<Longrightarrow> \<exists>n. name = [n] \<and> good_name n \<and> CHR ''.'' \<notin> set n"
proof -
  assume "rand_name g = (g', name)"
  then obtain k g1 g2 n where r: "randString (Suc k) g1 = (g2, n)" and name: "name = [n]"
    by (auto simp: rand_name_def Let_def split: prod.splits simp del: randString.simps)
  from randString_chars[OF r] have "n \<noteq> []" "CHR ''.'' \<notin> set n" using charset_plain by auto
  then show ?thesis using name by (auto simp: good_name_def)
qed

lemma pick_dir_cases: "pick_dir dirs dir g = (g', x) \<Longrightarrow> x = dir \<or> (\<exists>r \<in> set dirs. x = dir @ r)"
  by (auto simp: pick_dir_def Intn_def Let_def split: if_splits)

lemma tested_single: "CHR ''.'' \<notin> set n \<Longrightarrow> tested [n]"
  by (cases n) (auto simp: tested_def HasPrefix_def)

lemma Join_snoc: "xs \<noteq> [] \<Longrightarrow> Join (xs @ [y]) sep = Join xs sep @ sep @ y"
  by (induction xs sep rule: Join.induct) auto

lemma tested_snoc: "tested rel \<Longrightarrow> tested (rel @ [n])"
proof -
  assume t: "tested rel"
  then have ne: "rel \<noteq> []" by (simp add: tested_def)
  have "HasPrefix (a @ CHR ''/'' # b) ''.dl'' \<Longrightarrow> HasPrefix a ''.dl''" for a b :: string
    by (cases a; cases "tl a"; cases "tl (tl a)") (auto simp: HasPrefix_def)
  then show ?thesis using t ne by (auto simp: tested_def Join_snoc)
qed

section \<open>Operations that suit a directory\<close>

definition is_reg_at :: "disk \<Rightarrow> path \<Rightarrow> bool" where
  "is_reg_at d p = (case node_at d p of Some (Reg i) \<Rightarrow> True | _ \<Rightarrow> False)"

lemma node_type_at:
  "map_option node_type (node_at d p) = Some typeDirectory \<longleftrightarrow> is_dir_at d p" "map_option node_type (node_at d p) = Some typeRegular \<longleftrightarrow> is_reg_at d p"
  by (simp_all add: is_dir_at_def is_reg_at_def node_type_def split: option.splits node.splits)

definition vacant :: "disk \<Rightarrow> path \<Rightarrow> path \<Rightarrow> bool" where
  "vacant d dir name \<longleftrightarrow> is_dir_at d dir \<and> node_at d (dir @ name) = None \<and> length name = 1 \<and> list_all good_name name"

fun op_ready :: "disk \<Rightarrow> Operation \<Rightarrow> bool" where
  "op_ready d SkipOp = False"
| "op_ready d (AddFileOp base dir name content) = vacant d (base @ dir) name"
| "op_ready d (UpdateFileOp base dir name content) = is_reg_at d (base @ dir @ name)"
| "op_ready d (AddDirOp base dir name) = (node_at d (base @ dir @ name) = None \<and> list_all good_name name)"
| "op_ready d (RemoveFileOp base dir name) = is_reg_at d (base @ dir @ name)"
| "op_ready d (AddSymlinkOp base dir name target) = (vacant d (base @ dir) name)"

fun adds_dir :: "Operation \<Rightarrow> bool" where
  "adds_dir (AddDirOp base dir name) = True"
| "adds_dir _ = False"

section \<open>Every drawn operation suits the directory\<close>

text \<open>The objects of a project are those of its directory.\<close>

lemma project_objects:
  assumes "disk_ok d" and "is_dir_at d (base @ project_dir project)"
  obtains obs where "walkDir (base @ project_dir project) d = Some obs"
    and "\<And>r. r \<in> set (objectFilter obs typeDirectory) \<Longrightarrow> tested r \<and> is_dir_at d (base @ project_dir project @ r)"
    and "\<And>r. r \<in> set (objectFilter obs typeRegular) \<Longrightarrow> is_reg_at d (base @ project_dir project @ r)"
    and "\<And>r. tested r \<Longrightarrow> objectExists obs (project_dir project @ r) \<longleftrightarrow> node_at d (base @ project_dir project @ r) \<noteq> None"
proof -
  obtain es where es: "walkDir (base @ project_dir project) d = Some es"
    "\<And>rel ty. (rel, ty) \<in> set es \<longleftrightarrow> tested rel \<and> map_option node_type (node_at d ((base @ project_dir project) @ rel)) = Some ty"
    "\<And>rel. tested rel \<Longrightarrow> map_of es rel = map_option node_type (node_at d ((base @ project_dir project) @ rel))"
    using walkDir_entries[OF assms] by metis
  have "tested r \<and> map_option node_type (node_at d (base @ project_dir project @ r)) = Some ty" if "r \<in> set (objectFilter es ty)" for r ty
    using that es(2) by (auto simp: objectFilter_def)
  note kinds = this[of _ typeDirectory, unfolded node_type_at] this[of _ typeRegular, unfolded node_type_at]
  show thesis by (rule that[OF es(1)]) (use kinds es(3) in \<open>auto simp: objectExists_def project_dir_def\<close>)
qed

lemma picked_vacant:
  assumes "is_dir_at d (base @ project_dir project)" and name: "rand_name g = (g1, name)"
    and dirs: "\<And>r. r \<in> set dirs \<Longrightarrow> tested r \<and> is_dir_at d (base @ project_dir project @ r)"
    and picked: "pick_dir dirs (project_dir project) g2 = (g3, dir)" and free: "\<not> objectExists obs (dir @ name)"
    and obs: "\<And>r. tested r \<Longrightarrow> objectExists obs (project_dir project @ r) \<longleftrightarrow> node_at d (base @ project_dir project @ r) \<noteq> None"
  shows "vacant d (base @ dir) name"
proof -
  obtain n where n: "name = [n]" "good_name n" "CHR ''.'' \<notin> set n" using rand_name_good[OF name] by blast
  obtain r where r: "dir = project_dir project @ r" "is_dir_at d (base @ dir)" "tested (r @ [n])"
    using pick_dir_cases[OF picked] assms(1) dirs tested_single[OF n(3)] tested_snoc[of _ n] by fastforce
  then have "node_at d (base @ dir @ name) = None" using obs[OF r(3)] free n(1) by simp
  then show ?thesis using r(2) n by (simp add: vacant_def)
qed

text \<open>What a constructor returns is nothing to do, or suits the directory.\<close>

definition suits :: "disk \<Rightarrow> Operation \<Rightarrow> bool" where
  "suits d operation \<longleftrightarrow> operation = SkipOp \<or> op_ready d operation"

lemma nth_Intn: "xs \<noteq> [] \<Longrightarrow> Intn (length xs) g = (g', i) \<Longrightarrow> xs ! i \<in> set xs"
  by (auto simp: Intn_def)

lemma newAddFileOp_suits:
  assumes "disk_ok d" and "is_dir_at d (base @ project_dir project)" and new: "newAddFileOp base project d g = Some (g', operation)"
  shows "suits d operation"
proof -
  obtain obs where obs: "walkDir (base @ project_dir project) d = Some obs"
    "\<And>r. r \<in> set (objectFilter obs typeDirectory) \<Longrightarrow> tested r \<and> is_dir_at d (base @ project_dir project @ r)"
    "\<And>r. tested r \<Longrightarrow> objectExists obs (project_dir project @ r) \<longleftrightarrow> node_at d (base @ project_dir project @ r) \<noteq> None"
    using project_objects[OF assms(1,2)] by metis
  show ?thesis using new picked_vacant[OF assms(2) _ obs(2) _ _ obs(3)]
    by (auto simp: newAddFileOp_def obs(1) Let_def suits_def split: prod.splits if_splits)
qed

lemma newAddSymlinkOp_suits:
  assumes "disk_ok d" and "is_dir_at d (base @ project_dir project)" and new: "newAddSymlinkOp base project d g = Some (g', operation)"
  shows "suits d operation"
proof -
  obtain obs where obs: "walkDir (base @ project_dir project) d = Some obs"
    "\<And>r. r \<in> set (objectFilter obs typeDirectory) \<Longrightarrow> tested r \<and> is_dir_at d (base @ project_dir project @ r)"
    "\<And>r. tested r \<Longrightarrow> objectExists obs (project_dir project @ r) \<longleftrightarrow> node_at d (base @ project_dir project @ r) \<noteq> None"
    using project_objects[OF assms(1,2)] by metis
  show ?thesis using new picked_vacant[OF assms(2) _ obs(2) _ _ obs(3)]
    by (auto simp: newAddSymlinkOp_def obs(1) Let_def suits_def split: prod.splits if_splits)
qed

lemma files_suit:
  assumes "disk_ok d" and "is_dir_at d (base @ project_dir project)"
    and "newUpdateFileOp base project d g = Some (g', operation) \<or> newRemoveFileOp base project d g = Some (g', operation)"
  shows "suits d operation"
proof -
  obtain obs where obs: "walkDir (base @ project_dir project) d = Some obs"
    "\<And>r. r \<in> set (objectFilter obs typeRegular) \<Longrightarrow> is_reg_at d (base @ project_dir project @ r)"
    using project_objects[OF assms(1,2)] by metis
  show ?thesis using assms(3) obs(2)[OF nth_Intn]
    by (auto simp: newUpdateFileOp_def newRemoveFileOp_def obs(1) Let_def suits_def split: prod.splits if_splits)
qed

lemma newAddDirOp_suits:
  assumes "disk_ok d" and "is_dir_at d (base @ project_dir project)" and new: "newAddDirOp base project d g = Some (g', operation)"
  shows "suits d operation"
proof -
  obtain obs where obs: "walkDir (base @ project_dir project) d = Some obs"
    "\<And>r. r \<in> set (objectFilter obs typeDirectory) \<Longrightarrow> tested r \<and> is_dir_at d (base @ project_dir project @ r)"
    "\<And>r. tested r \<Longrightarrow> objectExists obs (project_dir project @ r) \<longleftrightarrow> node_at d (base @ project_dir project @ r) \<noteq> None"
    using project_objects[OF assms(1,2)] by metis
  have pack: "op_ready d (AddDirOp base (project_dir project @ [''pack'' @ s]) name)"
    if name: "rand_name g = (g1, name)" and free: "\<not> objectExists obs (project_dir project @ (''pack'' @ s) # name)" for g1 name s
  proof -
    obtain n where n: "name = [n]" "good_name n" using rand_name_good[OF name] by blast
    have "tested [''pack'' @ s]" by (simp add: tested_def HasPrefix_def)
    from obs(3)[OF tested_snoc[OF this, of n]] show ?thesis using free n by simp
  qed
  show ?thesis using new picked_vacant[OF assms(2) _ obs(2) _ _ obs(3)] pack
    by (auto simp: newAddDirOp_def obs(1) Let_def suits_def vacant_def split: prod.splits if_splits)
qed

theorem randomOperation_ready:
  assumes "disk_ok d" and "is_dir_at d (base @ project_dir project)" and "randomOperation base project d g = Some (g', operation)"
  shows "op_ready d operation"
proof -
  have one: "suits d operation" if mem: "f \<in> set opConstructors" and new: "f base project d g = Some (g', operation)" for f g g' operation
  proof -
    consider "f = newAddFileOp" | "f = newUpdateFileOp" | "f = newAddDirOp" | "f = newRemoveFileOp" | "f = newAddSymlinkOp"
      using mem by (auto simp: opConstructors_def)
    then show ?thesis
      by cases (use new newAddFileOp_suits[OF assms(1,2), of g g' operation] files_suit[OF assms(1,2), of g g' operation]
          newAddDirOp_suits[OF assms(1,2), of g g' operation] newAddSymlinkOp_suits[OF assms(1,2), of g g' operation] in simp_all)
  qed
  have step: "op_ready d (snd x)"
    if IH: "\<And>g x. r base project d g = Some x \<Longrightarrow> op_ready d (snd x)"
      and run: "(let (g1, i) = Intn (length opConstructors) g in
        case (opConstructors ! i) base project d g1 of
          None \<Rightarrow> None
        | Some (g2, operation) \<Rightarrow> if operation = SkipOp then r base project d g2 else Some (g2, operation)) = Some x" for r g x
  proof -
    obtain g1 i where i: "Intn (length opConstructors) g = (g1, i)" by fastforce
    have mem: "opConstructors ! i \<in> set opConstructors" using nth_Intn[OF _ i] by (simp add: opConstructors_def)
    obtain g2 operation where new: "(opConstructors ! i) base project d g1 = Some (g2, operation)" 
      using run i by (cases "(opConstructors ! i) base project d g1") auto
    show ?thesis
    proof (cases "operation = SkipOp")
      case True
      then have "r base project d g2 = Some x" using run i new by simp
      then show ?thesis by (rule IH)
    next
      case False
      then have "x = (g2, operation)" using run i new by simp
      then show ?thesis using False one[where f = "opConstructors ! i", OF mem new] by (simp only: suits_def snd_conv) blast
    qed
  qed
  have "base = base \<longrightarrow> project = project \<longrightarrow> d = d \<longrightarrow> op_ready d (snd (g', operation))"
  proof (rule randomOperation.raw_induct[where P = "\<lambda>b p e g x. b = base \<longrightarrow> p = project \<longrightarrow> e = d \<longrightarrow> op_ready d (snd x)", OF _ assms(3)], intro impI, hypsubst)
    fix r :: "path \<Rightarrow> int \<Rightarrow> disk \<Rightarrow> rng \<Rightarrow> (rng \<times> Operation) option" and g and x :: "rng \<times> Operation"
    assume IH: "\<And>b p e g (x :: rng \<times> Operation). r b p e g = Some x \<Longrightarrow> b = base \<longrightarrow> p = project \<longrightarrow> e = d \<longrightarrow> op_ready d (snd x)"
    have IH': "\<And>g x. r base project d g = Some x \<Longrightarrow> op_ready d (snd x)" using IH by blast
    assume "(let (g1, i) = Intn (length opConstructors) g in
        case (opConstructors ! i) base project d g1 of
          None \<Rightarrow> None
        | Some (g2, operation) \<Rightarrow> if operation = SkipOp then r base project d g2 else Some (g2, operation)) = Some x"
    then show "op_ready d (snd x)" using step[of r g x] IH' by blast
  qed
  then show ?thesis by simp
qed

section \<open>Every drawn operation applies\<close>

fun op_path :: "Operation \<Rightarrow> path" where
  "op_path SkipOp = []"
| "op_path (AddFileOp base dir name content) = base @ dir @ name"
| "op_path (UpdateFileOp base dir name content) = base @ dir @ name"
| "op_path (AddDirOp base dir name) = base @ dir @ name"
| "op_path (RemoveFileOp base dir name) = base @ dir @ name"
| "op_path (AddSymlinkOp base dir name target) = base @ dir @ name"

text \<open>What is at the place of an operation once it was applied.\<close>

fun op_leaf :: "Operation \<Rightarrow> leaf option" where
  "op_leaf (AddFileOp base dir name content) = Some (LFile content)"
| "op_leaf (UpdateFileOp base dir name content) = Some (LFile content)"
| "op_leaf (AddSymlinkOp base dir name target) = Some (LLink (''/'' @ Join (base @ dir @ target) ''/''))"
| "op_leaf _ = None"

lemma vacant_plain:
  assumes ok: "disk_ok d" and v: "vacant d dir name"
  shows "plain_path d (dir @ name)" and "dirs_above d (dir @ name)" and "dir @ name \<noteq> []"
proof -
  obtain n where n: "name = [n]" "good_name n" using v by (cases name) (auto simp: vacant_def)
  have dir: "is_dir_at d dir" using v by (simp add: vacant_def)
  then obtain m where m: "node_at d dir = Some (Dir m)" by (auto simp: is_dir_at_iff)
  show up: "dirs_above d (dir @ name)" using dirs_above_parent[OF ok, of "dir @ name"] dir n(1) by simp
  show "plain_path d (dir @ name)" using plainD(2)[OF node_plain[OF ok m]] n ok clear_above_dirs[OF up] by (simp add: plain_path_def)
  show "dir @ name \<noteq> []" using n(1) by simp
qed

lemma reg_plain:
  assumes ok: "disk_ok d" and "is_reg_at d p"
  shows "plain_path d p" and "dirs_above d p" and "p \<noteq> []" and "\<exists>i. node_at d p = Some (Reg i)"
proof -
  from assms(2) obtain i where i: "node_at d p = Some (Reg i)" by (auto simp: is_reg_at_def split: option.splits node.splits)
  then show "\<exists>i. node_at d p = Some (Reg i)" by blast
  show "plain_path d p" "dirs_above d p" using node_plain[OF ok i] node_dirs_above[OF ok i] by blast+
  show "p \<noteq> []" using i by (auto simp: node_at_def)
qed

lemma WriteFile_ready:
  assumes p: "plain_path d p" "dirs_above d p" "p \<noteq> []" and n: "node_at d p = None \<or> (\<exists>i. node_at d p = Some (Reg i))"
  shows "\<exists>d'. WriteFile p b perm d = (d', Inr ()) \<and> disk_ok d' \<and> leaf_at d' p = Some (LFile b) \<and> (\<forall>q. q \<noteq> p \<longrightarrow> node_at d' q = node_at d q)"
proof -
  have nd: "\<forall>t. node_at d p \<noteq> Some (Sym t)" "\<not> is_dir_at d p" using n by (auto simp: is_dir_at_iff)
  obtain d1 i where o: "open_create True p perm d = (d1, Inr i)" "\<And>q. node_at d1 q = (if q = p then Some (Reg i) else node_at d q)" "i < length (inodes d1)"
    using open_create_plain[OF p nd] by metis
  have run: "WriteFile p b perm d = (set_data i b d1, Inr ())" using o(1) by (simp add: WriteFile_def andThen_def)
  have "disk_ok (set_data i b d1)" using keeps_okD[OF keeps_WriteFile[OF plainD(2)[OF p(1)]] plainD(1)[OF p(1)], of b perm] run by simp
  moreover have "leaf_at (set_data i b d1) p = Some (LFile b)" using o(2,3) by (simp add: leaf_at_def)
  ultimately show ?thesis using run o(2) by (intro exI[of _ "set_data i b d1"]) simp
qed

lemma Symlink_ready:
  assumes ok: "disk_ok d" and v: "vacant d dir name" and "t \<noteq> []"
  shows "\<exists>d'. Symlink t (dir @ name) d = (d', Inr ()) \<and> disk_ok d' \<and> leaf_at d' (dir @ name) = Some (LLink t) \<and>
    (\<forall>q. q \<noteq> dir @ name \<longrightarrow> node_at d' q = node_at d q)"
proof -
  note p = vacant_plain[OF ok v]
  have "resolve False (dir @ name) d = Inr (dir @ name)" using resolve_plain[OF p(1), of False] p(2) by simp
  then have run: "Symlink t (dir @ name) d = (put_node (dir @ name) (Sym t) d, Inr ())" using v assms(3) by (simp add: Symlink_def vacant_def)
  have "disk_ok (put_node (dir @ name) (Sym t) d)" using keeps_okD[OF keeps_Symlink[OF plainD(2)[OF p(1)]] ok, of t] run by simp
  then show ?thesis using run p(3) by (simp add: leaf_at_def)
qed

lemma Remove_ready:
  assumes ok: "disk_ok d" and r: "is_reg_at d p"
  shows "\<exists>d'. Remove p d = (d', Inr ()) \<and> disk_ok d' \<and> leaf_at d' p = None \<and> (\<forall>q. q \<noteq> p \<longrightarrow> node_at d' q = node_at d q)"
proof -
  note p = reg_plain[OF ok r]
  have "resolve False p d = Inr p" using resolve_plain[OF p(1), of False] p(2) by simp
  then have run: "Remove p d = (cut_node p d, Inr ())" using p(3,4) by (auto simp: Remove_def)
  have "disk_ok (cut_node p d)" using keeps_okD[OF keeps_Remove ok, of p] run by simp
  then show ?thesis using run p(3) by (simp add: leaf_at_def)
qed

theorem Apply_ready:
  assumes ok: "disk_ok d" and "op_ready d operation" and "\<not> adds_dir operation"
  shows "\<exists>d'. Apply operation d = (d', Inr ()) \<and> disk_ok d' \<and> leaf_at d' (op_path operation) = op_leaf operation \<and>
    (\<forall>q. q \<noteq> op_path operation \<longrightarrow> node_at d' q = node_at d q)"
proof (cases operation)
  case (AddFileOp base dir name content)
  then have v: "vacant d (base @ dir) name" using assms(2) by simp
  show ?thesis using WriteFile_ready[OF vacant_plain[OF ok v]] v AddFileOp by (auto simp: vacant_def Apply_defs)
next
  case (UpdateFileOp base dir name content)
  then have r: "is_reg_at d (base @ dir @ name)" using assms(2) by simp
  note p = reg_plain[OF ok r]
  show ?thesis using WriteFile_ready[OF p(1-3) disjI2[OF p(4)]] UpdateFileOp by (simp add: Apply_defs)
next
  case (RemoveFileOp base dir name)
  then show ?thesis using Remove_ready[OF ok] assms(2) by (simp add: Apply_defs)
next
  case (AddSymlinkOp base dir name target)
  then show ?thesis using Symlink_ready[OF ok, of "base @ dir" name] assms(2) by (simp add: Apply_defs)
qed (use assms in simp_all)

section \<open>An iteration returns\<close>

definition fuzz_total :: "('w, 'a) fuzz \<Rightarrow> bool" where
  "fuzz_total m \<longleftrightarrow> (\<forall>w. m w \<noteq> None)"

named_theorems fuzz_total_intros \<open>steps of the test that return\<close>

lemma fuzz_total_then [fuzz_total_intros]: "fuzz_total m \<Longrightarrow> (\<And>a. fuzz_total (f a)) \<Longrightarrow> fuzz_total (fuzz_then m f)"
  unfolding fuzz_total_def fuzz_then_def by (auto split: option.splits sum.splits)

lemma fuzz_total_os [fuzz_total_intros]: "fuzz_total (fuzz_os err m)"
  unfolding fuzz_total_def fuzz_os_def by (auto split: prod.splits sum.splits)

lemma fuzz_total_fresh [fuzz_total_intros]: "fuzz_total (fresh_dir dir)"
  unfolding fresh_dir_def by (rule fuzz_total_os)

lemma fuzz_total_update [fuzz_total_intros]: "0 < parallelWorkerCount C \<Longrightarrow> fuzz_total (fuzz_call err (client_Update C project dir))"
  using client_Update_returns[of C project dir] by (auto simp: fuzz_total_def fuzz_call_def)

lemma fuzz_total_rebuild [fuzz_total_intros]: "0 < parallelWorkerCount C \<Longrightarrow> fuzz_total (fuzz_rebuild C project to dir)"
  using Rebuild_returns[of C project _ to dir] by (auto simp: fuzz_total_def fuzz_call_def fuzz_rebuild_def)

lemma fuzz_total_steps [fuzz_total_intros]:
  "0 < parallelWorkerCount C \<Longrightarrow> fuzz_total (\<lambda>w. if version \<le> 0 then Some (w, Inl IntnPanic)
     else (let (g1, k) = Intn (nat version) g; randomStepVersion = int k in
       fuzz_then (fuzz_rebuild C project (Some randomStepVersion) dir) (\<lambda>_.
       fuzz_then (fuzz_rebuild C project (Some version) dir) (\<lambda>_ w'. Some (w', Inr (g1, randomStepVersion)))) w))"
proof -
  assume "0 < parallelWorkerCount C"
  then have "fuzz_total (fuzz_then (fuzz_rebuild C project (Some v) dir) (\<lambda>_. fuzz_then (fuzz_rebuild C project (Some version) dir) (\<lambda>_ w'. Some (w', Inr x))))"
    for v and x :: "rng \<times> int" by (intro fuzz_total_intros) (simp_all add: fuzz_total_def)
  from this[of "int (g 0 mod nat version)" "(\<lambda>k. g (Suc k), int (g 0 mod nat version))"] show ?thesis by (simp add: fuzz_total_def Intn_def Let_def)
qed

theorem runIteration_returns: "0 < parallelWorkerCount C \<Longrightarrow> fuzz_total (runIteration C project operation ds g)"
  unfolding runIteration_def by (intro fuzz_total_intros) (auto intro!: fuzz_total_intros split: prod.split)

end
