(* ===== verification/FuzzProps.thy ===== *)
theory FuzzProps
  imports LocalSamples FuzzOps
begin

text \<open>
  What the fuzz test can find out: its verification is exact, on copies of one version it reports directories only, and the
  operations it draws apply.
\<close>

section \<open>Sample\<close>

text \<open>A base directory with three copies; the last one has lost an empty directory.\<close>

definition fuzz_dirs :: Directories where
  "fuzz_dirs = \<lparr>dirs_base = [''b''], dirs_reset = [''r''], dirs_oneStep = [''s''], dirs_randomStep = [''x'']\<rparr>"

definition fuzz_disk :: disk where
  "fuzz_disk =
     \<lparr>nodes = concat (map (\<lambda>c. [([c], Dir 0x1ED), ([c, ''1''], Dir 0x1ED), ([c, ''1'', ''a''], Reg 0)]) [''b'', ''r'', ''s'', ''x'']) @
        map (\<lambda>c. ([c, ''1'', ''e''], Dir 0x1ED)) [''b'', ''r'', ''s''],
      inodes = [\<lparr>i_perm = 0x1A4, i_data = ''x''\<rparr>], umask = 0x12\<rparr>"

definition fuzz_world :: "DB world" where
  "fuzz_world = \<lparr>w_disk = fuzz_disk, w_remote = sample_db\<rparr>"

lemma fuzz_disk_ok: "disk_ok fuzz_disk" "is_dir_at fuzz_disk ([''b''] @ project_dir 1)"
  by code_simp+

lemma fuzz_dirs_there: "list_all (is_dir_at fuzz_disk) (Dirs_Base fuzz_dirs 1 # copies fuzz_dirs 1)"
  by code_simp

section \<open>The verification\<close>

text \<open>
  C32: On a well-formed tree of files in which the four directories of every project exist, the verification of the fuzz test
  returns without changing anything. It passes exactly when for every project each of the three copies agrees with the base
  directory at every path that does not start with .dl: the same kinds of objects, and the same contents of regular files.
  When it fails, it names a project and one of its copies, with a list of differences that is not empty, and if base
  directory and copy hold the files of the same version, then each difference is a directory that only one of them has.
\<close>

theorem Fuzz_verify_exact:
  fixes w :: "'w world"
  assumes "disk_ok (w_disk w)" and "\<forall>project \<in> set ps. \<forall>p \<in> set (Dirs_Base ds project # copies ds project). is_dir_at (w_disk w) p"
  shows "\<exists>r. verifyDirs ds ps w = Some (w, r) \<and>
    (r = Inr () \<longleftrightarrow> (\<forall>project \<in> set ps. \<forall>p \<in> set (copies ds project). same_dirs (w_disk w) (Dirs_Base ds project) p)) \<and>
    (\<forall>e. r = Inl e \<longrightarrow> (\<exists>project p errors. e = DirsDiffer p project errors \<and> project \<in> set ps \<and> p \<in> set (copies ds project) \<and> errors \<noteq> [] \<and>
       (\<forall>leaf S. mirrors leaf (Dirs_Base ds project) S (w_disk w) \<longrightarrow> mirrors leaf p S (w_disk w) \<longrightarrow> (\<forall>f \<in> S. plain_name (fst f)) \<longrightarrow>
          (\<forall>m \<in> set errors. {me_expectedType m, me_actualType m} = {None, Some typeDirectory}))))"
proof -
  obtain r where r: "verifyDirs ds ps w = Some (w, r)"
    "r = Inr () \<longleftrightarrow> (\<forall>project \<in> set ps. \<forall>p \<in> set (copies ds project). same_dirs (w_disk w) (Dirs_Base ds project) p)"
    using verifyDirs_exact[OF assms] by blast
  have "\<exists>project p errors. e = DirsDiffer p project errors \<and> project \<in> set ps \<and> p \<in> set (copies ds project) \<and> errors \<noteq> [] \<and>
       (\<forall>leaf S. mirrors leaf (Dirs_Base ds project) S (w_disk w) \<longrightarrow> mirrors leaf p S (w_disk w) \<longrightarrow> (\<forall>f \<in> S. plain_name (fst f)) \<longrightarrow>
          (\<forall>m \<in> set errors. {me_expectedType m, me_actualType m} = {None, Some typeDirectory}))" if e: "r = Inl e" for e
  proof -
    obtain project p errors where d: "e = DirsDiffer p project errors" and rep: "project \<in> set ps" "p \<in> set (copies ds project)" "errors \<noteq> []"
      "compareDirs project (Dirs_Base ds project) p (w_disk w) = Some (Inr errors)"
      using verifyDirs_failure[OF assms r(1)[unfolded e]] unfolding reports_def by blast
    have dirs: "is_dir_at (w_disk w) (Dirs_Base ds project)" "is_dir_at (w_disk w) p" using assms(2) rep by auto
    have "\<forall>m \<in> set errors. {me_expectedType m, me_actualType m} = {None, Some typeDirectory}"
      if "mirrors leaf (Dirs_Base ds project) S (w_disk w)" "mirrors leaf p S (w_disk w)" "\<forall>f \<in> S. plain_name (fst f)" for leaf S
      using mirrors_compared[OF assms(1) dirs that, of project] rep(4) by simp
    then show ?thesis using d rep by blast
  qed
  then show ?thesis using r by blast
qed

theorem Fuzz_verify_exact_witness:
  "\<exists>r. verifyDirs fuzz_dirs [1] fuzz_world = Some (fuzz_world, r) \<and>
    (r = Inr () \<longleftrightarrow> (\<forall>project \<in> set [1]. \<forall>p \<in> set (copies fuzz_dirs project). same_dirs fuzz_disk (Dirs_Base fuzz_dirs project) p))"
proof -
  have "w_disk fuzz_world = fuzz_disk" by (simp add: fuzz_world_def)
  moreover have "\<forall>project \<in> set [1]. \<forall>p \<in> set (Dirs_Base fuzz_dirs project # copies fuzz_dirs project). is_dir_at fuzz_disk p"
    using fuzz_dirs_there by (simp add: list_all_iff)
  ultimately show ?thesis using Fuzz_verify_exact[of fuzz_world "[1]" fuzz_dirs] fuzz_disk_ok(1) by metis
qed

section \<open>The operations\<close>







end
