(* ===== verification/Interceptors.thy ===== *)
theory Interceptors
  imports Auths
begin

text \<open>
  The interceptors that log a call (\<^verbatim>\<open>internal/logger/grpc.go\<close>) and the chains that \<^verbatim>\<open>NewServer\<close> puts in front of the handlers
  (\<^verbatim>\<open>pkg/server/server.go\<close>): recovery (a panic of a handler is its result \<open>Internal\<close>), tracing, logging and the check of the
  token. Methods have the form \<^verbatim>\<open>/service/method\<close>. The level of a status and the identifier of a trace are
  parameters, the measured time is left out.
\<close>

section \<open>Logging a call\<close>

record log_entry =
  le_level :: nat
  le_message :: string
  le_fields :: "(string \<times> string) list"
  le_code :: "code option"

definition healthCheck :: string where
  "healthCheck = ''/grpc.health.v1.Health/Check''"

text \<open>\<^verbatim>\<open>path.Dir\<close> and \<^verbatim>\<open>path.Base\<close> of a method.\<close>

definition method_Dir :: "string \<Rightarrow> string" where
  "method_Dir m = Join (butlast (Split m CHR ''/'')) ''/''"

definition method_Base :: "string \<Rightarrow> string" where
  "method_Base m = last (Split m CHR ''/'')"

definition call_fields :: "string option \<Rightarrow> string \<Rightarrow> (string \<times> string) list" where
  "call_fields trace fullMethod =
     [(''grpc.service'', tl (method_Dir fullMethod)), (''grpc.method'', method_Base fullMethod)] @
     (case trace of None \<Rightarrow> [] | Some traceId \<Rightarrow> [(''trace.trace_id'', traceId)])"

definition status_Code :: "code + 'r \<Rightarrow> code option" where
  "status_Code r = (case r of Inl c \<Rightarrow> Some c | Inr _ \<Rightarrow> None)"

type_synonym ('s, 'r) handler = "ctx \<Rightarrow> 's \<Rightarrow> 's \<times> (code + 'r)"

definition UnaryServerInterceptor ::
    "(code option \<Rightarrow> nat) \<Rightarrow> string option \<Rightarrow> string \<Rightarrow> ('s, 'r) handler \<Rightarrow> ('s \<times> log_entry list, 'r) handler" where
  "UnaryServerInterceptor codeToLevel trace fullMethod handler ctx sl =
     (case handler ctx (fst sl) of
        (s', r) \<Rightarrow>
          if fullMethod = healthCheck then ((s', snd sl), r)
          else
            ((s', snd sl @ [\<lparr>le_level = codeToLevel (status_Code r), le_message = ''finished unary call'',
                le_fields = call_fields trace fullMethod, le_code = status_Code r\<rparr>]), r))"

text \<open>A handler of streams also learns whether its stream is a wrapped one.\<close>

definition StreamServerInterceptor ::
    "(code option \<Rightarrow> nat) \<Rightarrow> string option \<Rightarrow> string \<Rightarrow> bool \<Rightarrow> (bool \<Rightarrow> ('s, 'r) handler) \<Rightarrow> ('s \<times> log_entry list, 'r) handler" where
  "StreamServerInterceptor codeToLevel trace fullMethod wrapped handler ctx sl =
     (if fullMethod = healthCheck then (case handler wrapped ctx (fst sl) of (s', r) \<Rightarrow> ((s', snd sl), r))
      else
        (case handler True ctx (fst sl) of
           (s', r) \<Rightarrow>
             ((s', snd sl @ [\<lparr>le_level = codeToLevel (status_Code r), le_message = ''finished streaming call'',
                 le_fields = call_fields trace fullMethod, le_code = status_Code r\<rparr>]), r)))"

section \<open>Tracing\<close>

datatype telemetry_Type = ServerType | ClientType

primrec telemetry_String :: "telemetry_Type \<Rightarrow> string" where
  "telemetry_String ServerType = ''server''"
| "telemetry_String ClientType = ''client''"

datatype Decision = Drop | RecordAndSample

definition ShouldSample :: "string \<Rightarrow> 't \<Rightarrow> Decision \<times> 't" where
  "ShouldSample name parentTracestate =
     (if name = ''grpc.health.v1.Health/Check'' then (Drop, parentTracestate) else (RecordAndSample, parentTracestate))"

section \<open>The chains of the server\<close>

definition unary_chain ::
    "(code option \<Rightarrow> nat) \<Rightarrow> string option \<Rightarrow> (string \<Rightarrow> string option) \<Rightarrow> string list option \<Rightarrow> string \<Rightarrow> ('s, 'r) handler \<Rightarrow> ('s \<times> log_entry list, 'r) handler" where
  "unary_chain codeToLevel trace verify authorization fullMethod handler =
     UnaryServerInterceptor codeToLevel trace fullMethod (ValidateTokenUnary verify authorization fullMethod handler)"

text \<open>What comes before the logging does not wrap the stream with the wrapper of the middleware.\<close>

definition stream_chain ::
    "(code option \<Rightarrow> nat) \<Rightarrow> string option \<Rightarrow> (string \<Rightarrow> string option) \<Rightarrow> string list option \<Rightarrow> string \<Rightarrow> ('s, 'r) handler \<Rightarrow> ('s \<times> log_entry list, 'r) handler" where
  "stream_chain codeToLevel trace verify authorization fullMethod handler =
     StreamServerInterceptor codeToLevel trace fullMethod False (\<lambda>wrapped. validateTokenStream verify wrapped authorization handler)"

section \<open>What reaches a handler\<close>

text \<open>The call of a verified token.\<close>

definition authenticated ::
    "(string \<Rightarrow> string option) \<Rightarrow> string list option \<Rightarrow> ('s, 'r) handler \<Rightarrow> 's \<Rightarrow> 's \<times> (code + 'r) \<Rightarrow> bool" where
  "authenticated verify authorization handler s result \<longleftrightarrow>
     (\<exists>token subject a. authorization = Some [''Bearer '' @ token] \<and> verify token = Some subject \<and> Validate verify token = (a, None) \<and>
        Role a \<noteq> NoRole \<and> handler (Some a) s = result)"

lemma Validate_verified: "Validate verify token = (a, None) \<Longrightarrow> \<exists>subject. verify token = Some subject"
  by (auto simp: Validate_def split: option.splits)

lemma unary_cases:
  assumes "fullMethod \<noteq> healthCheck"
  shows "authenticated verify authorization handler s (ValidateTokenUnary verify authorization fullMethod handler ctx s) \<or>
    (\<exists>c \<in> {InvalidArgument, Unauthenticated, PermissionDenied}. ValidateTokenUnary verify authorization fullMethod handler ctx s = (s, Inl c))"
  using assms Validate_verified[of verify]
  by (auto simp: ValidateTokenUnary_def authenticated_def healthCheck_def getToken_Some split: option.splits prod.splits)

lemma stream_cases:
  "authenticated verify authorization handler s (validateTokenStream verify True authorization handler ctx s) \<or>
    (\<exists>c \<in> {InvalidArgument, Unauthenticated, PermissionDenied}. validateTokenStream verify True authorization handler ctx s = (s, Inl c))"
  using Validate_verified[of verify]
  by (auto simp: validateTokenStream_def authenticated_def getToken_Some split: option.splits prod.splits)

end
