(* ===== verification/Connections.thy ===== *)
theory Connections
  imports Daemon
begin

text \<open>
  How a client gets its connection: the options, the token and the address of \<^verbatim>\<open>grpcClientConn\<close> and its companions in
  \<^verbatim>\<open>pkg/client/client.go\<close>, the client in the context (\<^verbatim>\<open>pkg/client/context.go\<close>), and what the commands \<^verbatim>\<open>client\<close> and
  \<^verbatim>\<open>cachedclient\<close> do before and after the command they were asked for (\<^verbatim>\<open>pkg/cli/client.go\<close>, \<^verbatim>\<open>pkg/cachedcli/client.go\<close>).
  Dialling, the certificates of the system, the logger and the decoder of trace contexts are parameters. Of cobra the
  model has what its documentation says: a subcommand starts with the context of the root command, and a context that is set on the
  subcommand is not set on the root command.
\<close>

section \<open>Options and connections\<close>

record options =
  opt_headlessHost :: string
  opt_token :: string

definition WithToken :: "string \<Rightarrow> options \<Rightarrow> options" where
  "WithToken token opts = opts\<lparr>opt_token := token\<rparr>"

definition WithheadlessHost :: "string \<Rightarrow> options \<Rightarrow> options" where
  "WithheadlessHost host opts = opts\<lparr>opt_headlessHost := host\<rparr>"

definition KB :: nat where "KB = 1024"

definition MB :: nat where "MB = KB * KB"

definition BUFFER_SIZE :: nat where "BUFFER_SIZE = 64 * KB"

definition INITIAL_WINDOW_SIZE :: nat where "INITIAL_WINDOW_SIZE = 1 * MB"

definition INITIAL_CONN_WINDOW_SIZE :: nat where "INITIAL_CONN_WINDOW_SIZE = 2 * INITIAL_WINDOW_SIZE"

definition MAX_MESSAGE_SIZE :: nat where "MAX_MESSAGE_SIZE = 300 * MB"

text \<open>Which methods may be sent again, how often, after how many milliseconds (the first, the most, the factor) and for which codes.\<close>

record service_config =
  sc_loadBalancing :: string
  sc_methods :: "string list"
  sc_maxAttempts :: nat
  sc_backoff :: "nat \<times> nat \<times> nat"
  sc_retryableStatusCodes :: "string list"

definition serviceConfig :: service_config where
  "serviceConfig =
     \<lparr>sc_loadBalancing = ''round_robin'', sc_methods = [''Get'', ''GetUnary'', ''GetCompress''], sc_maxAttempts = 3,
      sc_backoff = (100, 1000, 2), sc_retryableStatusCodes = [''UNAVAILABLE'', ''DEADLINE_EXCEEDED'']\<rparr>"

text \<open>What a connection over TLS is made with; times are in seconds.\<close>

record dial_config =
  di_server :: string
  di_ServerName :: string
  di_InsecureSkipVerify :: bool
  di_AccessToken :: string
  di_buffers :: nat
  di_windows :: "nat \<times> nat"
  di_messages :: nat
  di_timeout :: nat
  di_keepalive :: "nat \<times> nat"
  di_service :: service_config

datatype conn_error = CertPoolFailed | TokenFailed client_error | DialFailed string | SocketPanic

record 'c network =
  SystemCertPool :: bool
  DialContext :: "dial_config \<Rightarrow> string + 'c"
  DialUnix :: "string \<Rightarrow> string + 'c"
  nt_Getenv :: "string \<Rightarrow> string"
  nt_cwd :: path

definition grpcClientConn :: "'c network \<Rightarrow> string \<Rightarrow> 16 word \<Rightarrow> (options \<Rightarrow> options) list \<Rightarrow> disk \<Rightarrow> conn_error + 'c" where
  "grpcClientConn N host port opts d =
     (if \<not> SystemCertPool N then Inl CertPoolFailed
      else
        (let opt = fold (\<lambda>f opt. f opt) opts \<lparr>opt_headlessHost = [], opt_token = []\<rparr>;
             sslVerification = nt_Getenv N ''DL_SKIP_SSL_VERIFICATION'' in
         case (if opt_token opt = [] then client_getToken (nt_Getenv N) (abs_path (nt_cwd N)) d else Inr (opt_token opt)) of
           Inl e \<Rightarrow> Inl (TokenFailed e)
         | Inr token \<Rightarrow>
             (let server = (if opt_headlessHost opt \<noteq> [] then opt_headlessHost opt else host) @ '':'' @ FormatInt (uint port) in
              case DialContext N
                \<lparr>di_server = server, di_ServerName = host, di_InsecureSkipVerify = (sslVerification = ''1''), di_AccessToken = token,
                 di_buffers = BUFFER_SIZE, di_windows = (INITIAL_WINDOW_SIZE, INITIAL_CONN_WINDOW_SIZE), di_messages = MAX_MESSAGE_SIZE,
                 di_timeout = 10, di_keepalive = (5, 1), di_service = serviceConfig\<rparr> of
                Inl e \<Rightarrow> Inl (DialFailed e)
              | Inr conn \<Rightarrow> Inr conn)))"

text \<open>The generated stub of a connection is a parameter; so is the rest of the world of a client.\<close>

definition NewClientConn :: "('c \<Rightarrow> 'w FsClient) \<Rightarrow> 'w Client \<Rightarrow> 'c \<Rightarrow> 'w Client" where
  "NewClientConn stub C conn = C\<lparr>cl_fs := stub conn\<rparr>"

definition NewClient :: "'c network \<Rightarrow> ('c \<Rightarrow> 'w FsClient) \<Rightarrow> 'w Client \<Rightarrow> string \<Rightarrow> 16 word \<Rightarrow> (options \<Rightarrow> options) list \<Rightarrow> disk \<Rightarrow> conn_error + 'w Client" where
  "NewClient N stub C host port opts d =
     (case grpcClientConn N host port opts d of Inl e \<Rightarrow> Inl e | Inr conn \<Rightarrow> Inr (NewClientConn stub C conn))"

definition NewCachedClient :: "'c network \<Rightarrow> ('c \<Rightarrow> 'w CachedClient) \<Rightarrow> string \<Rightarrow> 16 word \<Rightarrow> (options \<Rightarrow> options) list \<Rightarrow> disk \<Rightarrow> conn_error + 'w CachedClient" where
  "NewCachedClient N stub host port opts d =
     (case grpcClientConn N host port opts d of Inl e \<Rightarrow> Inl e | Inr conn \<Rightarrow> Inr (stub conn))"

text \<open>The dialer cuts the scheme off without looking at it; a shorter address is out of the bounds of the slice.\<close>

definition unix_path :: "string \<Rightarrow> string option" where
  "unix_path socket = (if length socket < length ''unix://'' then None else Some (drop (length ''unix://'') socket))"

definition NewCachedUnixClient :: "'c network \<Rightarrow> ('c \<Rightarrow> 'w CachedClient) \<Rightarrow> string \<Rightarrow> conn_error + 'w CachedClient" where
  "NewCachedUnixClient N stub socket =
     (case unix_path socket of
        None \<Rightarrow> Inl SocketPanic
      | Some p \<Rightarrow> (case DialUnix N p of Inl e \<Rightarrow> Inl (DialFailed e) | Inr conn \<Rightarrow> Inr (stub conn)))"

section \<open>Contexts\<close>

record 'w cli_context =
  cx_client :: "'w Client option"
  cx_cached :: "disk CachedClient option"

definition FromContext :: "'w cli_context \<Rightarrow> 'w Client option" where
  "FromContext cx = cx_client cx"

definition IntoContext :: "'w cli_context \<Rightarrow> 'w Client \<Rightarrow> 'w cli_context" where
  "IntoContext cx client = cx\<lparr>cx_client := Some client\<rparr>"

definition CachedFromContext :: "'w cli_context \<Rightarrow> disk CachedClient option" where
  "CachedFromContext cx = cx_cached cx"

definition CachedIntoContext :: "'w cli_context \<Rightarrow> disk CachedClient \<Rightarrow> 'w cli_context" where
  "CachedIntoContext cx client = cx\<lparr>cx_cached := Some client\<rparr>"

section \<open>The commands around a command\<close>

datatype client_action = CancelContext | CloseClient | EndSpan | ShutdownTelemetry | SyncLogger | FatalExit

record 'w cli =
  cli_root :: "'w cli_context"
  cli_ctx :: "'w cli_context"
  cli_cancel :: bool
  cli_telemetry :: bool
  cli_span :: bool

datatype prerun_error = LoggerFailed | OtelContextFailed | HostRequired | SocketRequired | NotConnected conn_error | CommandFailed

record cli_flags =
  fl_timeout :: nat
  fl_tracing :: bool
  fl_otelContext :: string
  fl_host :: string
  fl_port :: "16 word"
  fl_headlessHost :: string
  fl_socket :: string

record cli_env =
  logger_Init :: bool
  otel_decodes :: "string \<Rightarrow> bool"

type_synonym ('w, 'a) run = "('w cli, prerun_error, 'a) sem"

definition change :: "('s \<Rightarrow> 's) \<Rightarrow> ('s, 'e, unit) sem" where
  "change f s = (f s, Inr ())"

definition demand :: "'e \<Rightarrow> bool \<Rightarrow> ('s, 'e, unit) sem" where
  "demand e b = (if b then ret () else fail e)"

text \<open>What both commands do first.\<close>

definition prepare_run :: "cli_env \<Rightarrow> cli_flags \<Rightarrow> ('w, unit) run" where
  "prepare_run E fl =
     andThen (demand LoggerFailed (logger_Init E)) (\<lambda>_.
     andThen (change (\<lambda>s. if fl_timeout fl \<noteq> 0 then s\<lparr>cli_cancel := True\<rparr> else s)) (\<lambda>_.
     andThen (change (\<lambda>s. if fl_tracing fl then s\<lparr>cli_telemetry := True\<rparr> else s)) (\<lambda>_.
     andThen (demand OtelContextFailed (fl_otelContext fl = [] \<or> otel_decodes E (fl_otelContext fl))) (\<lambda>_.
     change (\<lambda>s. s\<lparr>cli_span := True\<rparr>)))))"

definition client_PreRunE :: "'c network \<Rightarrow> ('c \<Rightarrow> 'w FsClient) \<Rightarrow> 'w Client \<Rightarrow> cli_env \<Rightarrow> cli_flags \<Rightarrow> disk \<Rightarrow> ('w, unit) run" where
  "client_PreRunE N stub C E fl d =
     andThen (prepare_run E fl) (\<lambda>_.
     andThen (demand HostRequired (fl_host fl \<noteq> [])) (\<lambda>_.
     (case NewClient N stub C (fl_host fl) (fl_port fl) [WithheadlessHost (fl_headlessHost fl)] d of
        Inl e \<Rightarrow> fail (NotConnected e)
      | Inr cl \<Rightarrow> change (\<lambda>s. s\<lparr>cli_ctx := IntoContext (cli_ctx s) cl\<rparr>))))"

definition cached_PreRunE :: "'c network \<Rightarrow> ('c \<Rightarrow> disk CachedClient) \<Rightarrow> cli_env \<Rightarrow> cli_flags \<Rightarrow> ('w, unit) run" where
  "cached_PreRunE N stub E fl =
     andThen (prepare_run E fl) (\<lambda>_.
     andThen (demand SocketRequired (fl_socket fl \<noteq> [])) (\<lambda>_.
     (case NewCachedUnixClient N stub (fl_socket fl) of
        Inl e \<Rightarrow> fail (NotConnected e)
      | Inr cl \<Rightarrow> change (\<lambda>s. s\<lparr>cli_ctx := CachedIntoContext (cli_ctx s) cl\<rparr>))))"

definition PostRunE :: "'w cli \<Rightarrow> client_action list" where
  "PostRunE s = (if cli_cancel s then [CancelContext] else [])"

text \<open>
  The command itself is a parameter that sees the context of the subcommand and says whether it succeeded; cobra runs what comes
  after it only then. The clients of the root command are closed, of either command the one of \<^verbatim>\<open>FromContext\<close>.
\<close>

definition ClientExecute :: "('w, unit) run \<Rightarrow> ('w cli_context \<Rightarrow> bool) \<Rightarrow> client_action list" where
  "ClientExecute PreRunE RunE =
     (let background = \<lparr>cx_client = None, cx_cached = None\<rparr>;
          (s, r) = PreRunE \<lparr>cli_root = background, cli_ctx = background, cli_cancel = False, cli_telemetry = False, cli_span = False\<rparr>;
          ok = (r = Inr () \<and> RunE (cli_ctx s)) in
      (if ok then PostRunE s else []) @
      (if FromContext (cli_root s) \<noteq> None then [CloseClient] else []) @
      (if cli_span s then [EndSpan] else []) @
      (if cli_telemetry s then [ShutdownTelemetry] else []) @
      [SyncLogger] @ (if ok then [] else [FatalExit]))"

section \<open>Connections\<close>

text \<open>An option for the token wins over the environment, and the environment over the file.\<close>

lemma connection_token:
  assumes "grpcClientConn N host port opts d = Inr conn"
  obtains di where "DialContext N di = Inr conn" and "di_ServerName di = host"
    and "di_AccessToken di =
      (let opt = fold (\<lambda>f opt. f opt) opts \<lparr>opt_headlessHost = [], opt_token = []\<rparr> in
       if opt_token opt \<noteq> [] then opt_token opt else if nt_Getenv N ''DL_TOKEN'' \<noteq> [] then nt_Getenv N ''DL_TOKEN''
       else projr (ReadFile (abs_path (nt_cwd N) (nt_Getenv N ''DL_TOKEN_FILE'')) d))"
  using assms by (auto simp: grpcClientConn_def client_getToken_def Let_def split: if_splits sum.splits)

lemma connection_server:
  assumes "grpcClientConn N host port [WithheadlessHost h] d = Inr conn"
  obtains di where "DialContext N di = Inr conn" and "di_server di = (if h = [] then host else h) @ '':'' @ FormatInt (uint port)"
    and "di_ServerName di = host"
  using assms by (auto simp: grpcClientConn_def WithheadlessHost_def Let_def split: if_splits sum.splits)

text \<open>A successful preparation connects, and puts the client into the context of the subcommand only.\<close>

lemma client_PreRunE_result:
  assumes "client_PreRunE N stub C E fl d s = (s', Inr ())"
  shows "\<exists>conn. grpcClientConn N (fl_host fl) (fl_port fl) [WithheadlessHost (fl_headlessHost fl)] d = Inr conn \<and>
    FromContext (cli_ctx s') = Some (NewClientConn stub C conn) \<and> cli_root s' = cli_root s \<and> fl_host fl \<noteq> []"
  using assms
  by (auto simp: client_PreRunE_def prepare_run_def NewClient_def demand_def change_def andThen_def fail_def FromContext_def IntoContext_def
      split: if_splits sum.splits)

lemma prepare_run_root: "cli_root (fst (prepare_run E fl s)) = cli_root s"
  by (simp add: prepare_run_def demand_def change_def andThen_def fail_def)

text \<open>So none of the two commands ever closes its client.\<close>

theorem ClientExecute_leaves_open:
  "CloseClient \<notin> set (ClientExecute (client_PreRunE N stub C E fl d) RunE)" "CloseClient \<notin> set (ClientExecute (cached_PreRunE N' stub' E fl) RunE)"
  by (auto simp: ClientExecute_def client_PreRunE_def cached_PreRunE_def prepare_run_def PostRunE_def FromContext_def demand_def change_def
      andThen_def fail_def Let_def split: sum.splits if_splits)

text \<open>A span that was started is ended, tracing that was set up is shut down, and a failure ends the program with an error.\<close>

theorem ClientExecute_ends:
  assumes "client_PreRunE N stub C E fl d \<lparr>cli_root = \<lparr>cx_client = None, cx_cached = None\<rparr>, cli_ctx = \<lparr>cx_client = None, cx_cached = None\<rparr>,
    cli_cancel = False, cli_telemetry = False, cli_span = False\<rparr> = (s, r)"
  shows "EndSpan \<in> set (ClientExecute (client_PreRunE N stub C E fl d) RunE) \<longleftrightarrow> cli_span s"
    and "ShutdownTelemetry \<in> set (ClientExecute (client_PreRunE N stub C E fl d) RunE) \<longleftrightarrow> cli_telemetry s"
    and "FatalExit \<in> set (ClientExecute (client_PreRunE N stub C E fl d) RunE) \<longleftrightarrow> r \<noteq> Inr () \<or> \<not> RunE (cli_ctx s)"
  using assms by (auto simp: ClientExecute_def PostRunE_def Let_def)

end
