(* ===== verification/Serving.thy ===== *)
theory Serving
  imports Connections
begin

text \<open>
  Starting and stopping the servers: the pool of database connections, the health of the service and its start
  (\<^verbatim>\<open>pkg/server/server.go\<close>, \<^verbatim>\<open>pkg/cli/server.go\<close>), the socket, the start and the health of the daemon (\<^verbatim>\<open>pkg/cached/cached.go\<close>,
  \<^verbatim>\<open>pkg/cachedcli/server.go\<close>). What the network, the database driver, the certificates and gRPC answer is a parameter; a
  start is a function that also returns the list of what it did.
\<close>

section \<open>Database connections\<close>

text \<open>A type is a number; the types of a connection are those its driver knows.\<close>

record pgx =
  ParseConfig :: "string \<Rightarrow> bool"
  NewWithConfig :: "string \<Rightarrow> nat \<Rightarrow> bool"
  Acquire :: "string \<Rightarrow> (nat list) option"
  LoadType :: "string \<Rightarrow> string \<Rightarrow> nat option"
  Begin :: "string \<Rightarrow> bool"

record DbPoolConnector =
  dp_uri :: string
  dp_extraTypes :: "nat list"

datatype db_error = BadUri | PoolFailed | AcquireFailed | TypeFailed string | BeginFailed

definition MAX_POOL_SIZE :: nat where "MAX_POOL_SIZE = 60"

fun load_types :: "pgx \<Rightarrow> string \<Rightarrow> string list \<Rightarrow> db_error + nat list" where
  "load_types P uri [] = Inr []"
| "load_types P uri (typeName # ts) =
     (case LoadType P uri typeName of
        None \<Rightarrow> Inl (TypeFailed typeName)
      | Some extraType \<Rightarrow> (case load_types P uri ts of Inl e \<Rightarrow> Inl e | Inr extraTypes \<Rightarrow> Inr (extraType # extraTypes)))"

definition NewDbPoolConnector :: "pgx \<Rightarrow> string \<Rightarrow> db_error + DbPoolConnector" where
  "NewDbPoolConnector P uri =
     (if \<not> ParseConfig P uri then Inl BadUri
      else if \<not> NewWithConfig P uri MAX_POOL_SIZE then Inl PoolFailed
      else
        (case Acquire P uri of
           None \<Rightarrow> Inl AcquireFailed
         | Some types \<Rightarrow>
             (case load_types P uri [''hash'', ''hash[]''] of
                Inl e \<Rightarrow> Inl e
              | Inr extraTypes \<Rightarrow> Inr \<lparr>dp_uri = uri, dp_extraTypes = extraTypes\<rparr>)))"

definition register_types :: "nat list \<Rightarrow> nat list \<Rightarrow> nat list" where
  "register_types extraTypes typeMap = fold (\<lambda>t m. if t \<in> set m then m else t # m) extraTypes typeMap"

text \<open>The types the transaction can use.\<close>

definition pool_Connect :: "pgx \<Rightarrow> DbPoolConnector \<Rightarrow> db_error + nat list" where
  "pool_Connect P d =
     (case Acquire P (dp_uri d) of
        None \<Rightarrow> Inl AcquireFailed
      | Some typeMap \<Rightarrow> if Begin P (dp_uri d) then Inr (register_types (dp_extraTypes d) typeMap) else Inl BeginFailed)"

section \<open>Health\<close>

datatype ServingStatus = SERVING | NOT_SERVING

datatype monitor_event = Timer bool | ContextDone

definition monitored :: string where
  "monitored = ''dateilager.server''"

text \<open>What the monitor does with the events it selects; a timer comes with the answer to the ping.\<close>

fun monitorDbPool :: "monitor_event list \<Rightarrow> (string \<rightharpoonup> ServingStatus) \<Rightarrow> (string \<rightharpoonup> ServingStatus)" where
  "monitorDbPool [] health = health"
| "monitorDbPool (ContextDone # es) health = health(monitored \<mapsto> NOT_SERVING)"
| "monitorDbPool (Timer pinged # es) health = monitorDbPool es (health(monitored \<mapsto> if pinged then SERVING else NOT_SERVING))"

datatype ctx_error = Canceled | DeadlineExceeded

primrec ctx_message :: "ctx_error \<Rightarrow> string" where
  "ctx_message Canceled = ''context canceled''"
| "ctx_message DeadlineExceeded = ''context deadline exceeded''"

text \<open>The body of the answer is the JSON text of status and error.\<close>

record healthz_response =
  hz_Code :: nat
  hz_Status :: string
  hz_Error :: string

definition healthzHandler :: "ctx_error option \<Rightarrow> healthz_response" where
  "healthzHandler err =
     (case err of
        None \<Rightarrow> \<lparr>hz_Code = 200, hz_Status = ''healthy'', hz_Error = []\<rparr>
      | Some e \<Rightarrow> \<lparr>hz_Code = 500, hz_Status = ''error'', hz_Error = ctx_message e\<rparr>)"

section \<open>The key of the tokens\<close>

datatype public_key = Ed25519 bytes | OtherKey

datatype key_error = KeyFileFailed errno | BadPem | BadKey | KeyPanic

record crypto =
  pem_Decode :: "bytes \<Rightarrow> (string \<times> bytes) option"
  ParsePKIXPublicKey :: "bytes \<Rightarrow> public_key option"

text \<open>The type assertion at the end panics for another kind of key.\<close>

definition parsePublicKey :: "crypto \<Rightarrow> path \<Rightarrow> disk \<Rightarrow> key_error + bytes" where
  "parsePublicKey K p d =
     (case ReadFile p d of
        Inl e \<Rightarrow> Inl (KeyFileFailed e)
      | Inr pubKeyBytes \<Rightarrow>
          (case pem_Decode K pubKeyBytes of
             None \<Rightarrow> Inl BadPem
           | Some (ty, block) \<Rightarrow>
               if ty \<noteq> ''PUBLIC KEY'' then Inl BadPem
               else
                 (case ParsePKIXPublicKey K block of
                    None \<Rightarrow> Inl BadKey
                  | Some (Ed25519 pub) \<Rightarrow> Inr pub
                  | Some OtherKey \<Rightarrow> Inl KeyPanic)))"

section \<open>Starting the service\<close>

record server_flags =
  sf_tracing :: bool
  sf_profilePath :: string
  sf_port :: int
  sf_dbUri :: string
  sf_certFile :: string
  sf_keyFile :: string
  sf_pasetoFile :: string

record server_env =
  se_Getenv :: "string \<Rightarrow> string"
  se_logger_Init :: "Env \<Rightarrow> bool"
  se_Listen :: "int \<Rightarrow> bool"
  se_pgx :: pgx
  se_LoadX509KeyPair :: "string \<Rightarrow> string \<Rightarrow> bool"
  se_crypto :: crypto
  se_NewContentLookup :: bool
  se_Serve :: bool
  se_cwd :: path

datatype server_error =
    NoEnvironment | NoLogger | NoProfile errno | NoListener | NoDatabase db_error | NoCertificate | NoKey key_error
  | NoLookup | ServeFailed

datatype server_action =
    InitLogger Env | StartProfile | InitTelemetry | Listen int | OpenDb DbPoolConnector | Monitor | RegisterFs Env | Serve bytes | CloseDb

record serving =
  sv_disk :: disk
  sv_log :: "server_action list"

type_synonym 'a start = "(serving, server_error, 'a) sem"

definition act :: "server_action \<Rightarrow> unit start" where
  "act a s = (s\<lparr>sv_log := sv_log s @ [a]\<rparr>, Inr ())"

definition take_or :: "server_error \<Rightarrow> 'a option \<Rightarrow> 'a start" where
  "take_or e x = (case x of None \<Rightarrow> fail e | Some a \<Rightarrow> ret a)"

text \<open>A deferred call runs whatever comes before it returns.\<close>

definition deferred :: "server_action \<Rightarrow> 'a start \<Rightarrow> 'a start" where
  "deferred a m s = (case m s of (s', r) \<Rightarrow> (s'\<lparr>sv_log := sv_log s' @ [a]\<rparr>, r))"

definition start_profile :: "path \<Rightarrow> string \<Rightarrow> unit start" where
  "start_profile cwd p s =
     (if p = [] then (s, Inr ())
      else (case WriteFile (abs_path cwd p) [] 0x1B6 (sv_disk s) of
              (d, Inl e) \<Rightarrow> (s\<lparr>sv_disk := d\<rparr>, Inl (NoProfile e))
            | (d, Inr _) \<Rightarrow> (s\<lparr>sv_disk := d, sv_log := sv_log s @ [StartProfile]\<rparr>, Inr ())))"

definition read_key :: "server_env \<Rightarrow> string \<Rightarrow> bytes start" where
  "read_key E p s =
     (case parsePublicKey (se_crypto E) (abs_path (se_cwd E) p) (sv_disk s) of Inl e \<Rightarrow> (s, Inl (NoKey e)) | Inr k \<Rightarrow> (s, Inr k))"

text \<open>From the pool on, its end is deferred.\<close>

definition serve_with :: "server_env \<Rightarrow> server_flags \<Rightarrow> Env \<Rightarrow> unit start" where
  "serve_with E fl env =
     andThen (take_or NoCertificate (if se_LoadX509KeyPair E (sf_certFile fl) (sf_keyFile fl) then Some () else None)) (\<lambda>_.
     andThen (read_key E (sf_pasetoFile fl)) (\<lambda>pasetoKey.
     andThen (take_or NoLookup (if se_NewContentLookup E then Some () else None)) (\<lambda>_.
     andThen (act Monitor) (\<lambda>_.
     andThen (act (RegisterFs env)) (\<lambda>_.
     andThen (act (Serve pasetoKey)) (\<lambda>_.
     take_or ServeFailed (if se_Serve E then Some () else None)))))))"

definition server_RunE :: "server_env \<Rightarrow> server_flags \<Rightarrow> unit start" where
  "server_RunE E fl =
     andThen (take_or NoEnvironment (LoadEnvironment (se_Getenv E ''DL_ENV''))) (\<lambda>env.
     andThen (take_or NoLogger (if se_logger_Init E env then Some () else None)) (\<lambda>_.
     andThen (act (InitLogger env)) (\<lambda>_.
     andThen (start_profile (se_cwd E) (sf_profilePath fl)) (\<lambda>_.
     andThen (if sf_tracing fl then act InitTelemetry else ret ()) (\<lambda>_.
     andThen (take_or NoListener (if se_Listen E (sf_port fl) then Some () else None)) (\<lambda>_.
     andThen (act (Listen (sf_port fl))) (\<lambda>_.
     (case NewDbPoolConnector (se_pgx E) (sf_dbUri fl) of
        Inl e \<Rightarrow> fail (NoDatabase e)
      | Inr dbConn \<Rightarrow> andThen (act (OpenDb dbConn)) (\<lambda>_. deferred CloseDb (serve_with E fl env))))))))))"

section \<open>The socket of the daemon\<close>

record url =
  u_Scheme :: string
  u_Host :: string
  url_Path :: string

datatype socket_error = BadAddress | WrongProtocol string | SocketNotRemoved errno | NotListening | GrpcFailed string

record sockets =
  url_Parse :: "string \<Rightarrow> url option"
  Listen_unix :: "path \<Rightarrow> disk \<Rightarrow> disk \<times> bool"
  Grpc_Serve :: "string option"

definition socket_addr :: "url \<Rightarrow> string" where
  "socket_addr u = (if u_Host u = [] then url_Path u else u_Host u @ ''/'' @ url_Path u)"

definition listen_and_serve :: "sockets \<Rightarrow> path \<Rightarrow> disk \<Rightarrow> disk \<times> (socket_error + unit)" where
  "listen_and_serve S addr d =
     (case Listen_unix S addr d of
        (d', listening) \<Rightarrow>
          (d', if \<not> listening then Inl NotListening else case Grpc_Serve S of None \<Rightarrow> Inr () | Some e \<Rightarrow> Inl (GrpcFailed e)))"

definition cached_Serve :: "sockets \<Rightarrow> path \<Rightarrow> string \<Rightarrow> disk \<Rightarrow> disk \<times> (socket_error + unit)" where
  "cached_Serve S cwd socketPath d =
     (case url_Parse S socketPath of
        None \<Rightarrow> (d, Inl BadAddress)
      | Some u \<Rightarrow>
          (let addr = abs_path cwd (socket_addr u) in
           if u_Scheme u \<noteq> ''unix'' then (d, Inl (WrongProtocol (u_Scheme u)))
           else
             (case Remove addr d of
                (d1, Inl e) \<Rightarrow> if e \<noteq> ENOENT then (d1, Inl (SocketNotRemoved e)) else listen_and_serve S addr d1
              | (d1, Inr _) \<Rightarrow> listen_and_serve S addr d1)))"

section \<open>The daemon\<close>

datatype daemon_error = DaemonNoEnvironment | DaemonNoLogger | DaemonNoProfile errno | DaemonNotConnected conn_error | NotPrepared client_error

text \<open>
  Until the group of goroutines starts: the profile, the connection, the registration and the first copy of the
  cache. What is served afterwards has its version. Setting up tracing changes nothing of this and is left out.
\<close>

definition daemon_profile :: "path \<Rightarrow> string \<Rightarrow> 'w world \<Rightarrow> 'w world \<times> (daemon_error + unit)" where
  "daemon_profile cwd p w =
     (if p = [] then (w, Inr ())
      else (case WriteFile (abs_path cwd p) [] 0x1B6 (w_disk w) of
              (d, Inl e) \<Rightarrow> (w\<lparr>w_disk := d\<rparr>, Inl (DaemonNoProfile e))
            | (d, Inr _) \<Rightarrow> (w\<lparr>w_disk := d\<rparr>, Inr ())))"

definition daemon_connect ::
  "'c network \<Rightarrow> ('c \<Rightarrow> 'w FsClient) \<Rightarrow> 'w Client \<Rightarrow> cli_flags \<Rightarrow> Env \<Rightarrow> string \<Rightarrow> 'w world \<Rightarrow> ('w world \<times> (daemon_error + Cached)) option" where
  "daemon_connect N stub C fl env stagingPath w =
     (case NewClient N stub C (fl_host fl) (fl_port fl) [WithheadlessHost (fl_headlessHost fl)] (w_disk w) of
        Inl e \<Rightarrow> Some (w, Inl (DaemonNotConnected e))
      | Inr cl \<Rightarrow>
          (case Prepare cl \<lparr>ca_Env = env, ca_StagingPath = abs_path (nt_cwd N) stagingPath, ca_currentVersion = 0\<rparr> w of
             None \<Rightarrow> None
           | Some (w', c, Inl e) \<Rightarrow> Some (w', Inl (NotPrepared e))
           | Some (w', c, Inr _) \<Rightarrow> Some (w', Inr c)))"

definition daemon_start ::
  "'c network \<Rightarrow> ('c \<Rightarrow> 'w FsClient) \<Rightarrow> 'w Client \<Rightarrow> (Env \<Rightarrow> bool) \<Rightarrow> cli_flags \<Rightarrow> string \<Rightarrow> string \<Rightarrow> 'w world \<Rightarrow> ('w world \<times> (daemon_error + Cached)) option" where
  "daemon_start N stub C initLogger fl profilePath stagingPath w =
     (case LoadEnvironment (nt_Getenv N ''DL_ENV'') of
        None \<Rightarrow> Some (w, Inl DaemonNoEnvironment)
      | Some env \<Rightarrow>
          if \<not> initLogger env then Some (w, Inl DaemonNoLogger)
          else
            (case daemon_profile (nt_cwd N) profilePath w of
               (w1, Inl e) \<Rightarrow> Some (w1, Inl e)
             | (w1, Inr _) \<Rightarrow> daemon_connect N stub C fl env stagingPath w1))"

text \<open>
  The group: one goroutine waits for a signal and then stops both servers, the others serve. The first error cancels the
  context that the health handler looks at.
\<close>

datatype daemon_event = OsSignal | GrpcReturns "string option" | HealthReturns "string option"

record daemon_group =
  dg_waiting :: bool
  dg_grpc :: bool
  dg_health :: bool
  dg_err :: "string option"

definition group_started :: daemon_group where
  "group_started = \<lparr>dg_waiting = True, dg_grpc = True, dg_health = True, dg_err = None\<rparr>"

definition first_error :: "string option \<Rightarrow> string option \<Rightarrow> string option" where
  "first_error err e = (if err = None then e else err)"

fun daemon_step :: "daemon_event \<Rightarrow> daemon_group \<Rightarrow> daemon_group" where
  "daemon_step OsSignal g = (if dg_waiting g then g\<lparr>dg_waiting := False, dg_grpc := False, dg_health := False\<rparr> else g)"
| "daemon_step (GrpcReturns e) g = (if dg_grpc g then g\<lparr>dg_grpc := False, dg_err := first_error (dg_err g) e\<rparr> else g)"
| "daemon_step (HealthReturns e) g = (if dg_health g then g\<lparr>dg_health := False, dg_err := first_error (dg_err g) e\<rparr> else g)"

definition group_done :: "daemon_group \<Rightarrow> bool" where
  "group_done g \<longleftrightarrow> \<not> dg_waiting g \<and> \<not> dg_grpc g \<and> \<not> dg_health g"

definition group_healthz :: "daemon_group \<Rightarrow> healthz_response" where
  "group_healthz g = healthzHandler (if dg_err g = None then None else Some Canceled)"

section \<open>What the servers promise\<close>

text \<open>A transaction knows the types of the schema.\<close>

lemma register_types_set: "set (register_types ts m) = set ts \<union> set m"
  unfolding register_types_def by (induction ts arbitrary: m) (auto simp: insert_absorb)

lemma load_types_all: "load_types P uri ts = Inr xs \<Longrightarrow> list_all2 (\<lambda>t x. LoadType P uri t = Some x) ts xs"
  by (induction ts arbitrary: xs) (auto split: option.splits sum.splits)

theorem Connect_knows_types:
  assumes "NewDbPoolConnector P uri = Inr d" and "pool_Connect P d = Inr types"
  shows "\<exists>h hs. LoadType P uri ''hash'' = Some h \<and> LoadType P uri ''hash[]'' = Some hs \<and> {h, hs} \<subseteq> set types"
proof -
  obtain xs where xs: "load_types P uri [''hash'', ''hash[]''] = Inr xs" "dp_extraTypes d = xs"
    using assms(1) by (auto simp: NewDbPoolConnector_def split: if_splits option.splits sum.splits)
  obtain m where "types = register_types xs m" using assms(2) xs(2) by (auto simp: pool_Connect_def split: option.splits if_splits)
  then show ?thesis using load_types_all[OF xs(1)] by (auto simp: list_all2_Cons1 register_types_set)
qed

text \<open>The status is the answer to the last ping, and not serving after the end.\<close>

theorem monitor_status:
  assumes "ContextDone \<notin> set es"
  shows "monitorDbPool (es @ [Timer ok]) h monitored = Some (if ok then SERVING else NOT_SERVING)"
    and "monitorDbPool (es @ ContextDone # es') h monitored = Some NOT_SERVING"
  using assms by (induction es h rule: monitorDbPool.induct) simp_all

text \<open>The service is served only with the environment, the pool and the key that were read, and a pool is closed on every path.\<close>

lemma serve_with_log:
  assumes "serve_with E fl env s = (s', r)"
  shows "\<exists>l. sv_log s' = sv_log s @ l \<and> sv_disk s' = sv_disk s \<and> (\<forall>c. OpenDb c \<notin> set l) \<and> CloseDb \<notin> set l \<and>
    (\<forall>k. Serve k \<in> set l \<longrightarrow> parsePublicKey (se_crypto E) (abs_path (se_cwd E) (sf_pasetoFile fl)) (sv_disk s) = Inr k \<and> RegisterFs env \<in> set l \<and> Monitor \<in> set l) \<and>
    (r = Inr () \<longrightarrow> (\<exists>k. Serve k \<in> set l))"
  using assms by (auto simp: serve_with_def take_or_def read_key_def act_def andThen_def fail_def split: if_splits sum.splits)

fun quiet :: "server_action \<Rightarrow> bool" where
  "quiet (InitLogger env) = True"
| "quiet StartProfile = True"
| "quiet InitTelemetry = True"
| "quiet (Listen port) = True"
| "quiet _ = False"

lemma quiet_list: "list_all quiet l \<Longrightarrow> OpenDb c \<notin> set l \<and> CloseDb \<notin> set l \<and> Serve k \<notin> set l"
  by (auto simp: list_all_iff)

lemma start_profile_log: "start_profile cwd p s = (s', r) \<Longrightarrow> sv_log s' = sv_log s \<or> sv_log s' = sv_log s @ [StartProfile]"
  by (auto simp: start_profile_def split: if_splits prod.splits sum.splits)

text \<open>A start either ends before there is a pool, or goes on with one.\<close>

lemma server_RunE_cases:
  assumes "server_RunE E fl \<lparr>sv_disk = d, sv_log = []\<rparr> = (s, r)"
  obtains "r \<noteq> Inr ()" "list_all quiet (sv_log s)"
  | env dbConn s1 where "LoadEnvironment (se_Getenv E ''DL_ENV'') = Some env" "NewDbPoolConnector (se_pgx E) (sf_dbUri fl) = Inr dbConn"
      "list_all quiet (sv_log s1)" "Listen (sf_port fl) \<in> set (sv_log s1)"
      "andThen (act (OpenDb dbConn)) (\<lambda>_. deferred CloseDb (serve_with E fl env)) s1 = (s, r)"
proof (cases "LoadEnvironment (se_Getenv E ''DL_ENV'')")
  case None
  then show ?thesis using assms that(1) by (auto simp: server_RunE_def take_or_def andThen_def fail_def)
next
  case (Some env)
  let ?s0 = "\<lparr>sv_disk = d, sv_log = [InitLogger env]\<rparr>"
  obtain s1 r1 where p: "start_profile (se_cwd E) (sf_profilePath fl) ?s0 = (s1, r1)" by fastforce
  have q: "list_all quiet (sv_log s1)" using start_profile_log[OF p] by auto
  show ?thesis
  proof (cases "se_logger_Init E env \<and> isl r1 = False \<and> se_Listen E (sf_port fl)")
    case False
    then show ?thesis using assms Some p q that(1)
      by (cases r1) (auto simp: server_RunE_def take_or_def andThen_def fail_def act_def split: if_splits)
  next
    case True
    let ?s2 = "s1\<lparr>sv_log := sv_log s1 @ (if sf_tracing fl then [InitTelemetry] else []) @ [Listen (sf_port fl)]\<rparr>"
    have run: "(case NewDbPoolConnector (se_pgx E) (sf_dbUri fl) of
        Inl e \<Rightarrow> fail (NoDatabase e)
      | Inr dbConn \<Rightarrow> andThen (act (OpenDb dbConn)) (\<lambda>_. deferred CloseDb (serve_with E fl env))) ?s2 = (s, r)"
      using assms Some True p by (cases r1) (auto simp: server_RunE_def take_or_def andThen_def act_def split: if_splits)
    show ?thesis
    proof (cases "NewDbPoolConnector (se_pgx E) (sf_dbUri fl)")
      case (Inl e)
      then show ?thesis using run q that(1) by (auto simp: fail_def)
    next
      case (Inr dbConn)
      then show ?thesis using run q by (intro that(2)[OF Some Inr, of ?s2]) auto
    qed
  qed
qed

lemma serve_with_deferred:
  assumes "andThen (act (OpenDb dbConn)) (\<lambda>_. deferred CloseDb (serve_with E fl env)) s1 = (s, r)"
  obtains l where "sv_log s = sv_log s1 @ OpenDb dbConn # l @ [CloseDb]" and "\<forall>c. OpenDb c \<notin> set l" and "CloseDb \<notin> set l"
    and "\<forall>k. Serve k \<in> set l \<longrightarrow> parsePublicKey (se_crypto E) (abs_path (se_cwd E) (sf_pasetoFile fl)) (sv_disk s) = Inr k \<and> RegisterFs env \<in> set l \<and> Monitor \<in> set l"
    and "r = Inr () \<longrightarrow> (\<exists>k. Serve k \<in> set l)"
proof -
  let ?s = "s1\<lparr>sv_log := sv_log s1 @ [OpenDb dbConn]\<rparr>"
  obtain s' r' where w: "serve_with E fl env ?s = (s', r')" by fastforce
  have "s = s'\<lparr>sv_log := sv_log s' @ [CloseDb]\<rparr>" "r = r'" using assms w by (auto simp: andThen_def act_def deferred_def)
  then show thesis using serve_with_log[OF w] by (auto intro!: that)
qed

theorem server_RunE_log:
  assumes "server_RunE E fl \<lparr>sv_disk = d, sv_log = []\<rparr> = (s, r)"
  shows "((\<exists>c. OpenDb c \<in> set (sv_log s)) \<longleftrightarrow> CloseDb \<in> set (sv_log s)) \<and> (CloseDb \<in> set (sv_log s) \<longrightarrow> last (sv_log s) = CloseDb) \<and>
    (\<forall>k. Serve k \<in> set (sv_log s) \<longrightarrow> (\<exists>env dbConn. LoadEnvironment (se_Getenv E ''DL_ENV'') = Some env \<and>
      NewDbPoolConnector (se_pgx E) (sf_dbUri fl) = Inr dbConn \<and> parsePublicKey (se_crypto E) (abs_path (se_cwd E) (sf_pasetoFile fl)) (sv_disk s) = Inr k \<and>
      {OpenDb dbConn, RegisterFs env, Monitor, Listen (sf_port fl)} \<subseteq> set (sv_log s))) \<and>
    (r = Inr () \<longrightarrow> (\<exists>k. Serve k \<in> set (sv_log s)))"
  using assms
proof (cases rule: server_RunE_cases)
  case 1
  then show ?thesis using quiet_list by blast
next
  case (2 env dbConn s1)
  obtain l where l: "sv_log s = sv_log s1 @ OpenDb dbConn # l @ [CloseDb]" "\<forall>c. OpenDb c \<notin> set l" "CloseDb \<notin> set l"
    "\<forall>k. Serve k \<in> set l \<longrightarrow> parsePublicKey (se_crypto E) (abs_path (se_cwd E) (sf_pasetoFile fl)) (sv_disk s) = Inr k \<and> RegisterFs env \<in> set l \<and> Monitor \<in> set l"
    "r = Inr () \<longrightarrow> (\<exists>k. Serve k \<in> set l)" using serve_with_deferred[OF 2(5)] by blast
  have "Serve k \<in> set (sv_log s) \<longleftrightarrow> Serve k \<in> set l" for k using l(1) quiet_list[OF 2(3), of dbConn k] by auto
  then show ?thesis using l 2(1,2,4) by auto
qed

text \<open>The daemon serves only once the cache was copied, and what it serves is the version of that copy.\<close>

theorem daemon_start_prepared:
  assumes "daemon_start N stub C initLogger fl profilePath stagingPath w = Some (w', Inr c)"
  shows "\<exists>conn w1 n. grpcClientConn N (fl_host fl) (fl_port fl) [WithheadlessHost (fl_headlessHost fl)] (w_disk w1) = Inr conn \<and>
    GetCache (NewClientConn stub C conn) (abs_path (nt_cwd N) stagingPath) w1 = Some (w', Inr (ca_currentVersion c, n)) \<and>
    ca_StagingPath c = abs_path (nt_cwd N) stagingPath \<and> LoadEnvironment (nt_Getenv N ''DL_ENV'') = Some (ca_Env c)"
  using assms by (auto simp: daemon_start_def daemon_connect_def NewClient_def Prepare_def split: option.splits sum.splits if_splits prod.splits) blast

text \<open>The daemon ends by a signal only; when a server fails, it stays, and says so to those who ask for its health.\<close>

theorem daemon_group_ends:
  assumes "g = fold daemon_step es group_started"
  shows "dg_waiting g \<longleftrightarrow> OsSignal \<notin> set es" and "group_done g \<Longrightarrow> OsSignal \<in> set es"
    and "hz_Code (group_healthz g) = 200 \<longleftrightarrow> dg_err g = None" and "OsSignal \<in> set es \<Longrightarrow> group_done g"
proof -
  have inv: "(dg_waiting h \<longleftrightarrow> w \<and> OsSignal \<notin> set es) \<and> (\<not> dg_waiting h \<longrightarrow> group_done h)"
    if "h = fold daemon_step es h0" "dg_waiting h0 = w" "\<not> w \<longrightarrow> group_done h0" for h h0 w
    using that
  proof (induction es arbitrary: h0 w)
    case Nil
    then show ?case by simp
  next
    case (Cons e es)
    let ?h1 = "daemon_step e h0"
    have "\<not> dg_waiting ?h1 \<longrightarrow> group_done ?h1" using Cons.prems(2,3) by (cases e) (auto simp: group_done_def)
    moreover have "dg_waiting ?h1 \<longleftrightarrow> w \<and> e \<noteq> OsSignal" using Cons.prems(2) by (cases e) auto
    ultimately show ?case using Cons.IH[of ?h1 "dg_waiting ?h1"] Cons.prems(1) by auto
  qed
  from inv[OF assms, of True] show w: "dg_waiting g \<longleftrightarrow> OsSignal \<notin> set es" and "OsSignal \<in> set es \<Longrightarrow> group_done g"
    by (auto simp: group_started_def)
  show "group_done g \<Longrightarrow> OsSignal \<in> set es" using w by (auto simp: group_done_def)
  show "hz_Code (group_healthz g) = 200 \<longleftrightarrow> dg_err g = None" by (simp add: group_healthz_def healthzHandler_def)
qed

end
