(* ===== verification/Spec2Isabelle.thy ===== *)
theory Spec2Isabelle
  imports Samples Reachable Restores ClientProps Commands FuzzProps Interceptors Serving
begin

text \<open>
  A verification development of \<^bold>\<open>DateiLager\<close>, a content-addressed and versioned file store. The service keeps the files of
  projects in PostgreSQL: contents are stored once under their hash, and a row of \<^verbatim>\<open>dl.objects\<close> says in which interval of
  versions a project has a path with a content. A client mirrors a version of a project in a local directory and uploads its
  changes; a daemon keeps a read-only copy of the most frequent packs on a node and links it into volumes.

  \<^bold>\<open>Parts and theories.\<close> A definition has the name of the Go function or type it translates; where one function is split, the parts carry
  names of their own (the loop of \<^verbatim>\<open>GetTars\<close> is \<open>tars_step\<close>, the body of the transaction of \<^verbatim>\<open>Update\<close> is \<open>update_body\<close>).

  \<^item> \<open>Prelude\<close>, \<open>GoStrings\<close>, \<open>Wire\<close>: errors as values of a sum, 64-bit integers with their wrap-around (\<open>wrap64\<close>), the
    state-and-error functions \<open>sem\<close> with \<open>andThen\<close>, pull streams (an element, \<open>SKIP\<close>, \<open>EOF\<close> or an error), Go's \<^verbatim>\<open>strings\<close> and \<^verbatim>\<open>strconv\<close>,
    the messages of \<^verbatim>\<open>internal/pb\<close> and the file modes as 32-bit words.
  \<^item> \<open>TarPack\<close> (\<^verbatim>\<open>internal/db/tar.go\<close>) and \<open>Content\<close> (\<^verbatim>\<open>content.go\<close>): archives, packs and their update, hashes, the encoder and
    decoder with reused buffers, the lookup through a cache. The codec \<open>lib\<close> (TAR in S2, SHA-256, regular expressions, the
    collation of the database) is a parameter; \<open>lib_ok\<close> states what the code relies on.
  \<^item> \<open>Tables\<close> (\<^verbatim>\<open>migrations/\<close>), \<open>Projects\<close>, \<open>Versioning\<close>, \<open>Updates\<close>, \<open>Queries\<close>, \<open>Streams\<close>, \<open>Clones\<close>, \<open>Resets\<close>, \<open>Collector\<close>
    (\<^verbatim>\<open>internal/db\<close>): the tables as a record of lists with the unique indexes, each statement the Go code sends as a function
    on them, the common table expressions of a query, and the closures of the streams as step functions over their
    captured variables. \<open>db_ok\<close> is the invariant, \<open>snapshot\<close> the set of files of a version.
  \<^item> \<open>Auths\<close> (\<^verbatim>\<open>internal/auth\<close>, \<^verbatim>\<open>internal/environment\<close>, the interceptors of \<^verbatim>\<open>pkg/server\<close>), \<open>Handlers\<close> (\<^verbatim>\<open>pkg/api/fs.go\<close>):
    every handler of the service with its access check, its transaction and its status codes. The lemmas about them are in
    \<open>Service\<close>, \<open>Reads\<close>, \<open>Admins\<close>, \<open>Restores\<close>, and \<open>Reachable\<close> is the service as a state machine.
  \<^item> \<open>FileSystem\<close>: the calls of Go's \<^verbatim>\<open>os\<close> package on a tree of directories, inodes and symbolic links with POSIX path resolution and
    error numbers. \<open>disk_ok\<close> is its invariant; \<open>keeps_ok\<close> says that an operation keeps it, also when it fails.
  \<^item> \<open>Writer\<close> (\<^verbatim>\<open>internal/files/writer.go\<close>), \<open>Mirror\<close> and \<open>Hardlinks\<close> (its lemmas): applying an archive to a directory, swapping packs in,
    linking cached packs.
  \<^item> \<open>Pool\<close>: the goroutines of \<^verbatim>\<open>Rebuild\<close> and \<^verbatim>\<open>GetCache\<close>, a receiver and workers around a bounded channel in an error group, and
    \<open>Upload\<close>: those of \<^verbatim>\<open>Update\<close>, readers and a sender; each as a step relation and as a function of a scheduler. \<open>LocalDir\<close> (\<^verbatim>\<open>pkg/client/dir.go\<close>, \<^verbatim>\<open>token.go\<close>) and \<open>Client\<close>
    (\<^verbatim>\<open>pkg/client/client.go\<close>): the metadata directory and every call of the client, on a world of a disk and a remote state.
    \<open>Rebuilds\<close>, \<open>LocalSafety\<close> and \<open>Outcomes\<close> hold the lemmas, \<open>Composed\<close> puts the client on the model of the service.
  \<^item> \<open>Daemon\<close> (\<^verbatim>\<open>pkg/api/cached.go\<close>): the daemon and its client. \<open>Commands\<close> (\<^verbatim>\<open>pkg/cli\<close>, \<^verbatim>\<open>pkg/cachedcli\<close>): the commands that call
    the clients, from flags to printed lines.
  \<^item> \<open>Interceptors\<close> (\<^verbatim>\<open>internal/logger/grpc.go\<close>, \<^verbatim>\<open>NewServer\<close>): the chains a call passes before its handler. \<open>Connections\<close> (\<^verbatim>\<open>grpcClientConn\<close>, \<^verbatim>\<open>pkg/client/context.go\<close>,
    \<^verbatim>\<open>pkg/cli/client.go\<close>): options, token and address of a connection, and what surrounds a command. \<open>Serving\<close> (\<^verbatim>\<open>pkg/server\<close>, \<^verbatim>\<open>pkg/cached\<close>, the
    \<^verbatim>\<open>server.go\<close> of both command lines): the pool, health, and the starts of service and daemon as functions that return the list of what they did.
  \<^item> \<open>Fuzz\<close> (\<^verbatim>\<open>cmd/fuzz-test\<close>): the randomised test on the model of the client, with a stream of random numbers; \<open>FuzzOps\<close> the
    operations it draws, \<open>FuzzProps\<close> what its verification can find.
  \<^item> \<open>SampleLib\<close>, \<open>Samples\<close>, \<open>LocalSamples\<close>: an instance of the external code on which its hypotheses hold, and the data of the witnesses.
  \<^item> This theory holds the properties of the service, \<open>ClientProps\<close> those of the client, of writing files and of the daemon, \<open>FuzzProps\<close> those of
    the fuzz test.

  \<^bold>\<open>Interfaces.\<close> \<open>pull_stream\<close> is the contract between the streams and their loops; it is interpreted on the tar reader, the pack update, the object,
  archive and cache streams. \<open>version_writer\<close> is the contract of operations that write a new version (they leave the past
  alone); it is interpreted on deleting, updating, packing and cloning. \<open>pool_writer\<close> is what a worker keeps; it is interpreted on writing
  responses and cached packs.

  \<^bold>\<open>What is shown.\<close> An update is an update of the set of files, keeps the history and can be rolled back; a query between two versions is exactly
  their difference; the streams deliver it completely, in archives of bounded size, and end; packs behave as maps; clones,
  templates, resets and garbage collection keep or restore the versions they promise; failing calls change nothing; calls are
  denied without the right role; every reachable database is consistent. On the other side, \<^verbatim>\<open>Rebuild\<close> turns a mirror of
  one version into a mirror of another under every scheduling of its workers, \<^verbatim>\<open>Update\<close> uploads every difference once, calls return when there is a worker, every call keeps
  the tree of files well-formed, volumes are hard links of the staging directory and disappear with \<^verbatim>\<open>NodeUnpublishVolume\<close>.
  A call reaches its handler through the chains only with a verified token; a server that starts closes what it opened, and the daemon serves
  only what it has copied. The fuzz test compares directories exactly, up to link targets and permissions, and its operations apply.
  The error properties state what the code does where this is not what one expects (duplicate paths, removed packs, unescaped
  wildcards, negative subjects, refused updates, no workers, links).

  \<^bold>\<open>Bounds and fuel.\<close> Loops over streams are \<open>partial_function (option)\<close>; that they end is proved from the measures of \<open>pull_stream\<close>. The
  variant \<open>each\<close> with fuel serves evaluation and is equal to the loop once the fuel exceeds the measure. \<open>run_pool\<close> and \<open>run_upload\<close> terminate by the
  measures \<open>pool_left\<close> and \<open>upload_left\<close>; a group that can no longer move without being done (no worker, full channel) is \<open>None\<close>, a call that never returns.
  Path resolution follows at most 40 links, as Linux does. The channels have room for 32 and 16 messages, chunks 200
  rows, as in the code. Versions and counts are 64-bit integers, the counters of the client 32-bit words.

  \<^bold>\<open>Not modelled.\<close> Concurrent transactions and row locks (calls of the service are serial); ties in the ranking of \<^verbatim>\<open>CreateCache\<close> beyond the
  order of rows; permissions, full disks and the special mode bits of the file system; the interleaving of workers within one archive
  (an archive is one step); the data race on the error variable that the readers of \<^verbatim>\<open>Update\<close> share; at which message of an upload the
  service refuses it (the model asks it at the end of the stream);
  exporting traces, writing logs and profiles; the network, TLS, gRPC and the database driver below the parameters of \<open>Connections\<close>
  and \<open>Serving\<close>; declaring and parsing command lines, and generating their documentation; file systems that ignore case.
\<close>

section \<open>Updating a project\<close>

text \<open>
  C1: a well-formed update by an authorised client succeeds; the invariant holds afterwards; it
  returns the project's latest version, which is the old one or the next; and the snapshot at that
  version is the old head with the plain objects applied in order (deletions, replacements of the
  path and of the empty directories above it) and then the packs.
\<close>

theorem Update_effect:
  assumes "db_ok db" and "find_project db p = Some pr" and "0 \<le> latest_version pr" and "is_int64 (latest_version pr + 1)"
    and "requireProjectAuth ctx = Inr a" and "a = - 1 \<or> a = p" and "fs_Connect F" and "fs_Commit F"
    and "update_ok F db pr obs"
  shows "\<exists>db' v. Fs_Update F ctx (map (Pair p) obs) None db = (db', Inr v) \<and> db_ok db' \<and> latest_of db' p = v \<and>
    v \<in> {latest_version pr, latest_version pr + 1} \<and>
    snapshot (objects db') p v = fst (spec_Update F db pr obs (snapshot (objects db) p (latest_version pr), {}))"
  by (rule Fs_Update_effect[OF assms])

theorem Update_effect_witness:
  "\<exists>db' v. Fs_Update sample_Fs (Some adminAuth) [(1, sample_object)] None sample_db = (db', Inr v) \<and> db_ok db' \<and>
    latest_of db' 1 = v \<and> v \<in> {3, 4} \<and>
    snapshot (objects db') 1 v = fst (spec_Update sample_Fs sample_db sample_pr [sample_object] (snapshot (objects sample_db) 1 3, {}))"
  using Update_effect[of sample_db 1 sample_pr "Some adminAuth" "- 1" sample_Fs "[sample_object]"] by simp

text \<open>
  C3: whatever an update does, successful or not, every snapshot of every project up to its latest
  version stays as it was, and no content disappears or changes.
\<close>

theorem Update_keeps_history:
  assumes "Fs_Update F ctx reqs recvErr db = (db', r)" and "w \<le> latest_of db q" and "is_int64 (latest_of db q + 1)"
  shows "snapshot (objects db') q w = snapshot (objects db) q w \<and> map_of (contents db) \<subseteq>\<^sub>m map_of (contents db')"
  using Fs_Update_history[OF assms] by blast

theorem Update_keeps_history_witness:
  "snapshot (objects (fst (Fs_Update sample_Fs (Some adminAuth) [(1, sample_object)] None sample_db))) 1 2 =
     snapshot (objects sample_db) 1 2"
  using Update_keeps_history[of sample_Fs "Some adminAuth" "[(1, sample_object)]" None sample_db _ _ 2 1, OF prod.collapse[symmetric]]
  by simp

text \<open>
  C4: rolling a project back to the version before a successful update restores exactly the object
  rows and the project rows from before the update.
\<close>

theorem Update_then_Rollback:
  assumes "db_ok db" and "Fs_Update F ctx reqs recvErr db = (db1, Inr v)" and "latest_of db1 p = v"
    and "is_int64 (latest_of db p + 1)" and "latest_of db1 p \<noteq> latest_of db p"
    and "requireAdminAuth ctx' = None" and "fs_Connect F'" and "fs_Commit F'"
  shows "\<exists>db2. Fs_Rollback F' ctx' p (latest_of db p) db1 = (db2, Inr ()) \<and>
    objects db2 = objects db \<and> projects db2 = projects db"
  by (rule Rollback_undoes_Update[OF assms])

theorem Update_then_Rollback_witness:
  "\<exists>db2. Fs_Rollback sample_Fs (Some adminAuth) 1 3 sample_updated = (db2, Inr ()) \<and>
    objects db2 = objects sample_db \<and> projects db2 = projects sample_db"
  using Update_then_Rollback[OF sample_db_ok sample_run, of 1 "Some adminAuth" sample_Fs] by simp

section \<open>Reading a project\<close>



text \<open>
  A query without a lower version returns exactly the files of the snapshot whose path the
  query's path and ignore patterns select.
\<close>

theorem Query_is_snapshot:
  assumes "db_ok db" and "From (qb_vrange qb) = 0"
  shows "object_file ` set (build L qb db) =
    {f \<in> snapshot (objects db) (qb_project qb) (To (qb_vrange qb)). pathPredicate qb (fst f) \<and> ignoresPredicate qb (fst f)}"
proof (rule full_query_files[OF _ assms(2)])
  show "1 \<le> o_start r" if "r \<in> set (objects db)" for r using db_okD(3)[OF assms(1) that] by (simp add: row_within_def)
qed

theorem Query_is_snapshot_witness:
  "object_file ` set (build sample_lib (whole 1 \<lparr>From = 0, To = 2\<rparr>) sample_db) = snapshot (objects sample_db) 1 2"
  using Query_is_snapshot[of sample_db "whole 1 \<lparr>From = 0, To = 2\<rparr>" sample_lib] by simp

text \<open>
  C9: reading a whole version in one call returns the objects of its snapshot, packs opened, and
  leaves the rows alone.
\<close>

theorem GetUnary_snapshot:
  assumes "db_ok db" and "find_project db p = Some pr" and "list_all (re_valid (fs_lib F)) (matchers (patterns_of pr))"
    and "IsPathPacked (fs_lib F) (patterns_of pr) [] = None"
    and "servable (fs_lib F) (fs_cache F) (contents db) (build (fs_lib F) (whole p \<lparr>From = 0, To = w\<rparr>) db)"
    and "packs_readable (fs_lib F) (fs_cache F) (contents db) (snapshot (objects db) p w)"
    and "requireProjectAuth ctx = Inr a" and "a = - 1 \<or> a = p" and "fs_Connect F"
    and "req = \<lparr>g_Project = p, g_FromVersion = None, g_ToVersion = Some w,
      g_Queries = [\<lparr>q_Path = [], q_IsPrefix = True, q_Ignores = []\<rparr>], g_AvailableCacheVersions = []\<rparr>"
  shows "\<exists>db' resp. Fs_GetUnary F ctx req db = (db', Inr resp) \<and> objects db' = objects db \<and>
    set (gu_Objects resp) = (\<Union>f \<in> snapshot (objects db) p w. set (file_objects (fs_lib F) (fs_cache F) (contents db) f))"
  by (rule GetUnary_whole[OF assms])

theorem GetUnary_snapshot_witness:
  "\<exists>db' resp. Fs_GetUnary sample_Fs (Some adminAuth) \<lparr>g_Project = 1, g_FromVersion = None, g_ToVersion = Some 2,
      g_Queries = [\<lparr>q_Path = [], q_IsPrefix = True, q_Ignores = []\<rparr>], g_AvailableCacheVersions = []\<rparr> sample_db = (db', Inr resp) \<and>
    objects db' = objects sample_db \<and>
    set (gu_Objects resp) = (\<Union>f \<in> snapshot (objects sample_db) 1 2. set (file_objects sample_lib (\<lambda>_. None) (contents sample_db) f))"
proof -
  have "servable sample_lib (\<lambda>_. None) (contents sample_db) (build sample_lib (whole 1 \<lparr>From = 0, To = 2\<rparr>) sample_db)"
    "packs_readable sample_lib (\<lambda>_. None) (contents sample_db) (snapshot (objects sample_db) 1 2)" by code_simp+
  then show ?thesis
    using GetUnary_snapshot[of sample_db 1 sample_pr sample_Fs 2 "Some adminAuth" "- 1"] by (simp add: list_all_iff)
qed


text \<open>
  C10: the stream of \<^verbatim>\<open>GetCompress\<close> sends every row once and in order: the packs with their own
  content, everything else as entries of archives, where all but the last entry of an archive
  stay within the target size.
\<close>

theorem GetCompress_delivers:
  assumes "lib_ok (fs_lib F)" and "\<And>n. fs_Send F n"
    and "ds = build (fs_lib F) (withCacheVersions (newQueryBuilder (g_Project req) vr q) (g_AvailableCacheVersions req)) db"
    and "c = object_content (fs_lib F) (fs_cache F) (contents db)"
    and "servable (fs_lib F) (fs_cache F) (contents db) ds"
    and "\<And>d. d \<in> set ds \<Longrightarrow> in_tar d \<Longrightarrow> tar_accepts (fs_lib F) (object_header (ToTarObject d (c d))) \<and> d_path d \<noteq> []"
  shows "\<exists>outs. query_tars F req vr q acc db = (db, Inr (acc @ map (Pair (To vr)) outs)) \<and>
    concat (tar_sent (fs_lib F) outs) = map (object_entry c) (filter in_tar ds) \<and>
    packs_sent outs = map (\<lambda>d. (d_path d, c d)) (filter (\<lambda>d. \<not> in_tar d) ds) \<and>
    list_all (\<lambda>es. entries_size (butlast es) \<le> TargetTarSize) (tar_sent (fs_lib F) outs)"
  using query_tars_delivers[OF assms] by blast

theorem GetCompress_delivers_witness:
  "\<exists>outs. query_tars sample_Fs sample_get \<lparr>From = 1, To = 3\<rparr> everything [] sample_db = (sample_db, Inr (map (Pair 3) outs)) \<and>
    concat (tar_sent sample_lib outs) =
      map (object_entry (object_content sample_lib (\<lambda>_. None) (contents sample_db))) (filter in_tar sample_rows)"
proof -
  have s: "servable sample_lib (\<lambda>_. None) (contents sample_db) sample_rows"
    "list_all (\<lambda>d. in_tar d \<longrightarrow> tar_accepts sample_lib (object_header (ToTarObject d
        (object_content sample_lib (\<lambda>_. None) (contents sample_db) d))) \<and> d_path d \<noteq> []) sample_rows" by code_simp+
  have "sample_rows = build sample_lib (withCacheVersions (newQueryBuilder (g_Project sample_get) \<lparr>From = 1, To = 3\<rparr> everything)
      (g_AvailableCacheVersions sample_get)) sample_db" by (simp add: sample_rows_def sample_get_def)
  then show ?thesis
    using GetCompress_delivers[of sample_Fs sample_rows sample_get "\<lparr>From = 1, To = 3\<rparr>" everything sample_db
        "object_content sample_lib (\<lambda>_. None) (contents sample_db)" "[]"] s by (auto simp: list_all_iff)
qed


text \<open>
  C22: the loops over the object streams and over the archive streams end for every input, also when contents are missing,
  cannot be decoded, or a send fails.
\<close>

theorem Streams_end:
  "(\<exists>r. loop (object_step L adm table ds path q) body s acc = Some r) \<and> (\<exists>r. loop (tars_step L' adm' table' ds') body' s' acc' = Some r)"
  by (intro conjI object_loop_ends tars_loop_ends)

section \<open>Reachable states\<close>



section \<open>Packs\<close>

text \<open>
  C11: updating a pack is a map update: the new archive holds for each path the update's object,
  nothing for a deleted path, and the old object otherwise, whatever the order of the updates
  and the index hint; and the result is again a well-formed pack.
\<close>

theorem Pack_update_refines:
  assumes "lib_ok L" and "pack_ok L before" and "distinct (map Path updates)"
    and "list_all (accepted L) updates" and "updateObjects L before updates = Inr after"
  shows "pack_contents L after = apply_updates updates (pack_contents L before) \<and> pack_ok L after"
  by (rule updateObjects_refines[OF assms])

theorem Pack_update_refines_witness:
  "pack_contents sample_lib sample_repack = apply_updates sample_updates (pack_contents sample_lib sample_pack) \<and>
   pack_ok sample_lib sample_repack"
  by (rule Pack_update_refines[OF sample_lib_ok sample_repacked])

text \<open>Sending the same pack updates again changes nothing, byte for byte.\<close>

theorem Pack_update_idempotent:
  assumes "lib_ok L" and "pack_ok L before" and "distinct (map Path updates)"
    and "list_all (accepted L) updates" and "updateObjects L before updates = Inr after"
  shows "updateObjects L after updates = Inr after"
  by (rule updateObjects_idempotent[OF assms])

theorem Pack_update_idempotent_witness: "updateObjects sample_lib sample_repack sample_updates = Inr sample_repack"
  by (rule Pack_update_idempotent[OF sample_lib_ok sample_repacked])

text \<open>
  Which pack a path belongs to depends on its directory only: every path below a pack's
  parent belongs to that pack, and the parent is a directory the path lies in.
\<close>

theorem Pack_by_directory:
  assumes "IsPathPacked L pm path = Some par"
  shows "IsPathPacked L pm (par @ rest) = Some par \<and> HasPrefix (path @ ''/'') par \<and> HasSuffix par ''/''"
  using IsPathPacked_parent[OF assms] IsPathPacked_slash[OF assms] by blast

theorem Pack_by_directory_witness:
  "IsPathPacked sample_lib \<lparr>matchers = [''n/'']\<rparr> ''n/b/c'' = Some ''n/''"
proof -
  have "IsPathPacked sample_lib \<lparr>matchers = [''n/'']\<rparr> ''n/a'' = Some ''n/''" by code_simp
  from Pack_by_directory[OF this, of "''b/c''"] show ?thesis by simp
qed

section \<open>Cloning and templates\<close>

text \<open>
  C15: cloning a version of one project onto another with the same pack patterns gives the
  target a new version whose files are the source's at that version; the target's older
  versions stay as they were.
\<close>

theorem Clone_effect:
  assumes "db_ok db" and "find_project db target = Some pr" and "0 \<le> latest_version pr" and "is_int64 (latest_version pr + 1)"
    and "coalesced_patterns db source = coalesced_patterns db target" and "source = target \<longrightarrow> version \<le> latest_version pr"
    and "requireAdminAuth ctx = None" and "fs_Connect F" and "fs_Commit F"
  shows "\<exists>db'. Fs_CloneToProject F ctx \<lparr>cp_Source = source, cp_Version = version, cp_Target = target\<rparr> db =
      (db', Inr (latest_version pr + 1)) \<and> db_ok db' \<and> latest_of db' target = latest_version pr + 1 \<and>
    snapshot (objects db') target (latest_version pr + 1) = snapshot (objects db) source version \<and>
    (\<forall>w \<le> latest_version pr. snapshot (objects db') target w = snapshot (objects db) target w)"
  by (rule Fs_CloneToProject_ok[OF assms])

theorem Clone_effect_witness:
  "\<exists>db'. Fs_CloneToProject sample_Fs (Some adminAuth) \<lparr>cp_Source = 1, cp_Version = 1, cp_Target = 1\<rparr> sample_db = (db', Inr 4) \<and>
    snapshot (objects db') 1 4 = snapshot (objects sample_db) 1 1"
  using Clone_effect[of sample_db 1 sample_pr 1 1 "Some adminAuth" sample_Fs] by auto

text \<open>
  C25: a project created from a template starts at the template's version with the template's
  files.
\<close>

theorem Template_effect:
  assumes "db_ok db" and "find_project db p = None" and "find_project db template = Some s"
    and "coalesced_patterns db template = pats" and "requireAdminAuth ctx = None" and "fs_Connect F" and "fs_Commit F"
  shows "\<exists>db'. Fs_NewProject F ctx \<lparr>np_Id = p, np_Template = Some template, np_PackPatterns = pats\<rparr> db = (db', Inr ()) \<and>
    db_ok db' \<and> latest_of db' p = latest_version s \<and>
    snapshot (objects db') p (latest_version s) = snapshot (objects db) template (latest_version s)"
  by (rule Fs_NewProject_template[OF assms])

theorem Template_effect_witness:
  "\<exists>db'. Fs_NewProject sample_Fs (Some adminAuth) \<lparr>np_Id = 2, np_Template = Some 1, np_PackPatterns = []\<rparr> sample_db = (db', Inr ()) \<and>
    latest_of db' 2 = 3 \<and> snapshot (objects db') 2 3 = snapshot (objects sample_db) 1 3"
proof -
  have "find_project sample_db 2 = None" "coalesced_patterns sample_db 1 = []" by code_simp+
  then show ?thesis using Template_effect[of sample_db 2 1 sample_pr "[]" "Some adminAuth" sample_Fs] by auto
qed

section \<open>Garbage collection\<close>

text \<open>
  C16: collecting a project keeps every snapshot of every other project, and of the project
  itself from \<open>keep\<close> versions before the latest on, together with the contents they refer to,
  and the project rows.
\<close>

theorem Gc_keeps_snapshots:
  assumes "Fs_GcProject F ctx p keep from db = (db', r)" and "q = p \<longrightarrow> latest_of db p - keep \<le> w"
  shows "snapshot (objects db') q w = snapshot (objects db) q w \<and> projects db' = projects db \<and>
    (\<forall>f \<in> snapshot (objects db) q w. map_of (contents db') (fst (snd f)) = map_of (contents db) (fst (snd f)))"
  using Fs_GcProject_keeps[OF assms] by auto

theorem Gc_keeps_snapshots_witness:
  "snapshot (objects (fst (Fs_GcProject sample_Fs (Some adminAuth) 1 1 None sample_db))) 1 2 = snapshot (objects sample_db) 1 2"
  using Gc_keeps_snapshots[of sample_Fs "Some adminAuth" 1 1 None sample_db _ _ 1 2, OF prod.collapse[symmetric]] by simp

text \<open>
  C27: object queries of a collected project whose versions are within the kept ones, or that ask
  for a kept version as a whole, give the same rows in the same order.
\<close>

theorem Gc_keeps_queries:
  assumes "GcProjectObjects p keep from db = (db', r)" and "qb_project qb = p"
    and "latest_of db p - keep \<le> To (qb_vrange qb)"
    and "From (qb_vrange qb) = 0 \<or> latest_of db p - keep \<le> From (qb_vrange qb)"
  shows "build L qb db' = build L qb db"
  by (rule GcProjectObjects_query[OF assms])

theorem Gc_keeps_queries_witness:
  "build sample_lib (whole 1 \<lparr>From = 2, To = 3\<rparr>) (fst (GcProjectObjects 1 1 0 sample_db)) =
   build sample_lib (whole 1 \<lparr>From = 2, To = 3\<rparr>) sample_db"
  using Gc_keeps_queries[of 1 1 0 sample_db _ _ "whole 1 \<lparr>From = 2, To = 3\<rparr>" sample_lib, OF prod.collapse[symmetric]] by simp

text \<open>
  C28: collecting contents removes exactly the sampled contents that no object row refers to,
  although it works in chunks, and reports how many they were.
\<close>

theorem Gc_contents_exact:
  assumes "requireAdminAuth ctx = None" and "hs = RandomContents sampled (contents db)"
  shows "Fs_GcContents F ctx sampled db =
    (db\<lparr>contents := filter (\<lambda>c. \<not> (fst c \<in> set hs \<and> fst c \<notin> o_hash ` set (objects db))) (contents db)\<rparr>,
     Inr (int (length (filter (\<lambda>c. fst c \<in> set hs \<and> fst c \<notin> o_hash ` set (objects db)) (contents db)))))"
  using assms by (simp add: Fs_GcContents_def admin_only_def coded_def GcContentHashes_eq unreferenced_def)

theorem Gc_contents_exact_witness:
  "snd (Fs_GcContents sample_Fs (Some adminAuth) (\<lambda>cs. cs) sample_db) = Inr 0"
proof -
  have "filter (\<lambda>c. fst c \<in> set (RandomContents (\<lambda>cs. cs) (contents sample_db)) \<and> fst c \<notin> o_hash ` set (objects sample_db))
      (contents sample_db) = []" by code_simp
  then show ?thesis using Gc_contents_exact[of "Some adminAuth" _ "\<lambda>cs. cs" sample_db sample_Fs] by simp
qed

text \<open>\<^verbatim>\<open>chunk\<close> ends for every positive size and cuts the list into pieces of at most that size.\<close>

theorem Chunk_partition:
  assumes "0 < n"
  shows "\<exists>cs. chunk items n = Some cs \<and> concat cs = items \<and> (\<forall>c \<in> set cs. length c \<le> n)"
  by (rule chunk_ok[OF assms])

theorem Chunk_partition_witness:
  "\<exists>cs. chunk [1, 2, 3, 4, 5 :: int] 2 = Some cs \<and> concat cs = [1, 2, 3, 4, 5] \<and> (\<forall>c \<in> set cs. length c \<le> 2)"
  using Chunk_partition[of 2 "[1, 2, 3, 4, 5 :: int]"] by simp

section \<open>Transactions\<close>



section \<open>Access\<close>

text \<open>
  C19: a caller whose token is for project \<open>p\<close> changes neither the files nor the row of any other
  project with an update, whatever it sends.
\<close>

theorem Update_isolated:
  assumes "Fs_Update F ctx reqs recvErr db = (db', r)" and "requireProjectAuth ctx = Inr p" and "p \<noteq> - 1" and "q \<noteq> p"
  shows "snapshot (objects db') q w = snapshot (objects db) q w \<and> find_project db' q = find_project db q"
  using Fs_Update_isolated[OF assms] by blast

theorem Update_isolated_witness:
  "find_project (fst (Fs_Update sample_Fs (Some \<lparr>Role = ProjectRole, Project = Some 2\<rparr>) [(1, sample_object)] None sample_db)) 1 =
   find_project sample_db 1"
  using Update_isolated[of sample_Fs "Some \<lparr>Role = ProjectRole, Project = Some 2\<rparr>" "[(1, sample_object)]" None sample_db _ _ 2 1 0,
    OF prod.collapse[symmetric]] by (simp add: requireProjectAuth_def)



text \<open>
  A token gives the admin role exactly for the subject \<open>admin\<close>, the shared reader role
  exactly for \<open>shared-reader\<close>, and otherwise the project its subject denotes as an integer.
\<close>

theorem Token_roles:
  assumes "Validate verify token = (a, None)"
  shows "(Role a = AdminRole \<longleftrightarrow> verify token = Some ''admin'') \<and>
    (Role a = SharedReaderRole \<longleftrightarrow> verify token = Some ''shared-reader'') \<and>
    (Role a = ProjectRole \<longleftrightarrow> (\<exists>s p. verify token = Some s \<and> ParseInt s = Some p \<and> Project a = Some p)) \<and> Role a \<noteq> NoRole"
  using Validate_roles[OF assms] by blast

theorem Token_roles_witness: "Role (fst (Validate (\<lambda>_. Some ''7'') ''t'')) = ProjectRole"
proof -
  have "Validate (\<lambda>_. Some ''7'') ''t'' = (\<lparr>Role = ProjectRole, Project = Some 7\<rparr>, None)" "ParseInt ''7'' = Some 7" by code_simp+
  from Token_roles[OF this(1)] this show ?thesis by auto
qed



text \<open>
  The calls that read and rewrite the whole database answer Unimplemented outside of
  development and test, whoever asks.
\<close>

theorem Snapshot_and_Reset_only_in_dev:
  assumes "fs_Env F \<noteq> Dev" and "fs_Env F \<noteq> Test"
  shows "Fs_Snapshot F ctx db = (db, Inl Unimplemented) \<and> Fs_Reset F ctx ps db = (db, Inl Unimplemented)"
  using assms by (simp add: Fs_Snapshot_def Fs_Reset_def dev_or_test_def)

theorem Snapshot_and_Reset_only_in_dev_witness:
  "Fs_Reset (sample_Fs\<lparr>fs_Env := Prod\<rparr>) (Some adminAuth) [] sample_db = (sample_db, Inl Unimplemented)"
  using Snapshot_and_Reset_only_in_dev[of "sample_Fs\<lparr>fs_Env := Prod\<rparr>"] by simp

section \<open>Contents\<close>

text \<open>
  The content cache is invisible: with a cache that agrees with the table a lookup returns
  for every requested hash what the table holds, decoded where asked, and the cache agrees with
  the table afterwards, whatever it admits.
\<close>

theorem Lookup_transparent:
  assumes "distinct (map fst hashes)" and "distinct (map fst table)"
    and "\<And>h. h \<in> fst ` set table \<Longrightarrow> hash_ok h"
    and "coherent cache table" and "readable L cache table hashes"
  shows "\<exists>cache' cs. Lookup L adm cache table hashes = (cache', Inr cs) \<and> coherent cache' table \<and>
    (\<forall>h e. (h, e) \<in> set hashes \<longrightarrow> map_of table h \<noteq> None \<or> cache (Hex h) = None \<longrightarrow>
       map_of cs h = table_content L table h e)"
  by (rule Lookup_table[OF assms])

theorem Lookup_transparent_witness:
  "\<exists>cache' cs. Lookup sample_lib (\<lambda>_ _. True) (\<lambda>_. None) (contents sample_db) [(sample_hash ''x'', True)] = (cache', Inr cs) \<and>
     map_of cs (sample_hash ''x'') = Some ''x''"
proof -
  have t: "distinct (map fst (contents sample_db))" "list_all hash_ok (map fst (contents sample_db))"
    "table_content sample_lib (contents sample_db) (sample_hash ''x'') True = Some ''x''" by code_simp+
  have r: "readable sample_lib (\<lambda>_. None) (contents sample_db) [(sample_hash ''x'', True)]"
    by (simp add: readable_def sample_hash_def HashContent_ok)
  have ok: "hash_ok h" if "h \<in> fst ` set (contents sample_db)" for h using t(2) that by (auto simp: list_all_iff)
  have "coherent (\<lambda>_. None) (contents sample_db)" by (simp add: coherent_def)
  from Lookup_transparent[OF _ t(1) ok this r, of "\<lambda>_ _. True"] t(3) show ?thesis by auto
qed

text \<open>Two hashes with the same key in the content cache are equal.\<close>

theorem Cache_key_injective:
  assumes "hash_ok h" and "hash_ok k" and "Hex h = Hex k"
  shows "h = k"
  by (rule Hex_inj[OF assms])

theorem Cache_key_injective_witness: "Hex (sample_hash ''x'') \<noteq> Hex (sample_hash ''y'')"
proof -
  have "hash_ok (sample_hash b)" for b unfolding sample_hash_def by (rule HashContent_ok[OF sample_lib_ok])
  then show ?thesis using Cache_key_injective[of "sample_hash ''x''" "sample_hash ''y''"] by auto
qed

text \<open>Decoding gives back what was encoded, with one encoder used for many contents.\<close>

theorem Encode_roundtrip:
  assumes "lib_ok L"
  shows "snd (Decode L d (snd (Encode L (fst (fold (\<lambda>c (e, out). Encode L e c) cs (NewContentEncoder, []))) content))) = Inr content"
proof -
  have "ce_buffer (fst (fold (\<lambda>c (e, out). Encode L e c) cs (e, out))) = []" if "ce_buffer e = []" for e out
    using that
  proof (induction cs arbitrary: e out)
    case (Cons c cs)
    then show ?case using Encode_Decode(2)[OF assms Cons.prems, of c] by (cases "Encode L e c") simp
  qed simp
  then show ?thesis using Encode_Decode(1)[OF assms] by (simp add: NewContentEncoder_def)
qed

theorem Encode_roundtrip_witness:
  "snd (Decode sample_lib \<lparr>cd_buffer = []\<rparr> (snd (Encode sample_lib (fst (fold (\<lambda>c (e, out). Encode sample_lib e c) [''x''] (NewContentEncoder, []))) ''y''))) = Inr ''y''"
  by (rule Encode_roundtrip[OF sample_lib_ok])

section \<open>Queries\<close>



text \<open>A prefix query for a path without the wildcards of LIKE selects exactly the paths that start with it.\<close>

theorem Prefix_query_selects:
  assumes "q_IsPrefix q" and "q_Path q \<noteq> []" and "plain (q_Path q)"
  shows "pathPredicate (newQueryBuilder p vr q) path \<longleftrightarrow> HasPrefix path (q_Path q)"
  using assms by (simp add: pathPredicate_def bound_def named_args_def newQueryBuilder_def like_prefix Let_def)

theorem Prefix_query_selects_witness:
  "pathPredicate (newQueryBuilder 1 \<lparr>From = 0, To = 2\<rparr> \<lparr>q_Path = ''src/'', q_IsPrefix = True, q_Ignores = []\<rparr>) ''src/a''"
  using Prefix_query_selects[of "\<lparr>q_Path = ''src/'', q_IsPrefix = True, q_Ignores = []\<rparr>" 1 "\<lparr>From = 0, To = 2\<rparr>" "''src/a''"]
  by (simp add: plain_def HasPrefix_def)

text \<open>
  Wildcards in a path are not escaped: asking for the prefix \<open>node_modules/\<close> also returns
  \<open>nodeXmodules/a\<close>.
\<close>

theorem Prefix_query_wildcards:
  "pathPredicate (newQueryBuilder p vr \<lparr>q_Path = ''node_modules/'', q_IsPrefix = True, q_Ignores = []\<rparr>) ''nodeXmodules/a''"
proof -
  have "like ''node_modules/%'' ''nodeXmodules/a''" by code_simp
  then show ?thesis by (simp add: pathPredicate_def bound_def named_args_def newQueryBuilder_def Let_def)
qed








section \<open>Snapshot and reset\<close>



end
